(* ===== verification/Prelude.thy ===== *)
theory Prelude
  imports Main "HOL-Library.Word" "HOL-Library.Code_Target_Numeral"
begin

text \<open>
  Shared vocabulary of the development.

  \<^item> Machine integers: \<open>byte\<close>, \<open>u16\<close>, \<open>u32\<close>, \<open>u64\<close> are words of their width; lengths
    and indices (Rust's \<open>usize\<close> used as a size) are natural numbers.
  \<^item> \<open>anyhow::Result\<close>: \<open>'a res\<close> is \<open>error + 'a\<close>, \<open>Inl\<close> the error.  \<open>Bail\<close> is
    \<open>bail!\<close>/\<open>anyhow!\<close> with its message, \<open>Io\<close> an \<open>io::Error\<close> passed on by \<open>?\<close>,
    \<open>Foreign\<close> the error of a library call, and \<open>Ctx\<close> is \<open>.context(..)\<close>.  \<open>Debug\<close>-formatted
    (\<open>{:?}\<close>) values are left out of messages; \<open>Display\<close>-formatted strings and numbers are kept.
  \<^item> \<open>str\<close>: a \<open>string\<close> is the UTF-8 byte sequence of the Rust string, one \<open>char\<close> per byte, so
    \<open>len()\<close> is \<open>length\<close>.  All the delimiters the program looks for are ASCII, and Unicode
    white space is recognised in its UTF-8 form.
\<close>

section \<open>Collections of facts\<close>

named_theorems result_simps \<open>equations about \<open>and_then\<close> and friends\<close>
named_theorems wire_simps \<open>round trips of the wire encodings\<close>

section \<open>Machine integers\<close>

type_synonym byte = "8 word"
type_synonym u16 = "16 word"
type_synonym u32 = "32 word"
type_synonym u64 = "64 word"

definition sat_add :: "'a::len word \<Rightarrow> 'a word \<Rightarrow> 'a word" where
  "sat_add a b = (if unat a + unat b < 2 ^ LENGTH('a) then a + b else - 1)"

definition sat_mul :: "'a::len word \<Rightarrow> 'a word \<Rightarrow> 'a word" where
  "sat_mul a b = (if unat a * unat b < 2 ^ LENGTH('a) then a * b else - 1)"

definition sat_sub :: "'a::len word \<Rightarrow> 'a word \<Rightarrow> 'a word" where
  "sat_sub a b = (if b \<le> a then a - b else 0)"

section \<open>Results\<close>

datatype io_kind =
    NotFound | AlreadyExists | Interrupted | WouldBlock | UnexpectedEof | AddrNotAvailable
  | OtherKind

datatype io_error = IoError (io_error_kind: io_kind) (raw_os_error: "int option")

datatype error = Bail string | Io io_error | Foreign string | Ctx string error

type_synonym 'a res = "error + 'a"

definition and_then :: "'e + 'a \<Rightarrow> ('a \<Rightarrow> 'e + 'b) \<Rightarrow> 'e + 'b" where
  "and_then r f = (case r of Inl e \<Rightarrow> Inl e | Inr x \<Rightarrow> f x)"

definition with_context :: "string \<Rightarrow> 'a res \<Rightarrow> 'a res" where
  "with_context msg r = (case r of Inl e \<Rightarrow> Inl (Ctx msg e) | Inr x \<Rightarrow> Inr x)"

definition io_res :: "io_error + 'a \<Rightarrow> 'a res" where
  "io_res r = (case r of Inl e \<Rightarrow> Inl (Io e) | Inr x \<Rightarrow> Inr x)"

definition ok_or :: "'e \<Rightarrow> 'a option \<Rightarrow> 'e + 'a" where
  "ok_or e x = (case x of None \<Rightarrow> Inl e | Some y \<Rightarrow> Inr y)"

definition result_ok :: "'e + 'a \<Rightarrow> 'a option" where
  "result_ok r = (case r of Inl _ \<Rightarrow> None | Inr x \<Rightarrow> Some x)"

definition is_ok :: "'e + 'a \<Rightarrow> bool" where
  "is_ok r = (case r of Inl _ \<Rightarrow> False | Inr _ \<Rightarrow> True)"

text \<open>\<open>iter().map(f).collect::<Result<Vec<_>>>()\<close>: the first error, or all the results.\<close>

fun collect_results :: "('a \<Rightarrow> 'e + 'b) \<Rightarrow> 'a list \<Rightarrow> 'e + 'b list" where
  "collect_results f [] = Inr []"
| "collect_results f (x # xs) =
     and_then (f x) (\<lambda>y. and_then (collect_results f xs) (\<lambda>ys. Inr (y # ys)))"

section \<open>Strings\<close>

fun strip_prefix :: "'a list \<Rightarrow> 'a list \<Rightarrow> 'a list option" where
  "strip_prefix [] s = Some s"
| "strip_prefix (p # ps) [] = None"
| "strip_prefix (p # ps) (c # cs) = (if p = c then strip_prefix ps cs else None)"

definition strip_suffix :: "'a list \<Rightarrow> 'a list \<Rightarrow> 'a list option" where
  "strip_suffix suf s = map_option rev (strip_prefix (rev suf) (rev s))"

definition starts_with :: "'a list \<Rightarrow> 'a list \<Rightarrow> bool" where
  "starts_with p s = (strip_prefix p s \<noteq> None)"

definition ends_with :: "'a list \<Rightarrow> 'a list \<Rightarrow> bool" where
  "ends_with p s = (strip_suffix p s \<noteq> None)"

text \<open>\<open>str::find\<close> with a string pattern: the index of its first occurrence.\<close>

fun find_str :: "'a list \<Rightarrow> 'a list \<Rightarrow> nat option" where
  "find_str p [] = (if p = [] then Some 0 else None)"
| "find_str p (c # cs) =
     (if starts_with p (c # cs) then Some 0 else map_option Suc (find_str p cs))"

fun split_once :: "'a \<Rightarrow> 'a list \<Rightarrow> ('a list \<times> 'a list) option" where
  "split_once d [] = None"
| "split_once d (c # cs) =
     (if c = d then Some ([], cs) else map_option (\<lambda>(a, b). (c # a, b)) (split_once d cs))"

definition rsplit_once :: "'a \<Rightarrow> 'a list \<Rightarrow> ('a list \<times> 'a list) option" where
  "rsplit_once d s = map_option (\<lambda>(a, b). (rev b, rev a)) (split_once d (rev s))"

text \<open>\<open>str::split\<close> with a single-character separator: never the empty list.\<close>

fun split_on :: "'a \<Rightarrow> 'a list \<Rightarrow> 'a list list" where
  "split_on d [] = [[]]"
| "split_on d (c # cs) =
     (if c = d then [] # split_on d cs
      else (case split_on d cs of [] \<Rightarrow> [[c]] | p # ps \<Rightarrow> (c # p) # ps))"

text \<open>\<open>str::lines\<close>: pieces ended by a line feed, with the line feed and one carriage return
  before it removed; a last piece without a line feed is kept as it is, and is left out when empty.\<close>

fun split_inclusive_lf :: "string \<Rightarrow> string list" where
  "split_inclusive_lf [] = []"
| "split_inclusive_lf (c # cs) =
     (if c = CHR 0x0A then [c] # split_inclusive_lf cs
      else (case split_inclusive_lf cs of [] \<Rightarrow> [[c]] | p # ps \<Rightarrow> (c # p) # ps))"

definition strip_line_end :: "string \<Rightarrow> string" where
  "strip_line_end l =
     (case strip_suffix [CHR 0x0A] l of
        None \<Rightarrow> l
      | Some l' \<Rightarrow> (case strip_suffix [CHR 0x0D] l' of None \<Rightarrow> l' | Some l'' \<Rightarrow> l''))"

definition lines :: "string \<Rightarrow> string list" where
  "lines s = map strip_line_end (split_inclusive_lf s)"

subsection \<open>White space\<close>

definition code :: "char \<Rightarrow> nat" where
  "code c = of_char c"

definition ws1 :: "nat \<Rightarrow> bool" where
  "ws1 c = (c = 32 \<or> (9 \<le> c \<and> c \<le> 13))"

definition ws2 :: "nat \<Rightarrow> nat \<Rightarrow> bool" where
  "ws2 c d = (c = 0xC2 \<and> (d = 0x85 \<or> d = 0xA0))"

definition ws3 :: "nat \<Rightarrow> nat \<Rightarrow> nat \<Rightarrow> bool" where
  "ws3 c d e =
     ((c = 0xE1 \<and> d = 0x9A \<and> e = 0x80) \<or>
      (c = 0xE2 \<and> d = 0x80 \<and> ((0x80 \<le> e \<and> e \<le> 0x8A) \<or> e = 0xA8 \<or> e = 0xA9 \<or> e = 0xAF)) \<or>
      (c = 0xE2 \<and> d = 0x81 \<and> e = 0x9F) \<or>
      (c = 0xE3 \<and> d = 0x80 \<and> e = 0x80))"

text \<open>The length of the white space character (\<open>char::is_whitespace\<close>) a string starts with,
  0 when it starts with another character; and the same at the end of a string, on its reversal.\<close>

fun ws_len :: "string \<Rightarrow> nat" where
  "ws_len [] = 0"
| "ws_len [c] = (if ws1 (code c) then 1 else 0)"
| "ws_len [c, d] = (if ws1 (code c) then 1 else if ws2 (code c) (code d) then 2 else 0)"
| "ws_len (c # d # e # s) =
     (if ws1 (code c) then 1 else if ws2 (code c) (code d) then 2
      else if ws3 (code c) (code d) (code e) then 3 else 0)"

fun ws_len_rev :: "string \<Rightarrow> nat" where
  "ws_len_rev [] = 0"
| "ws_len_rev [c] = (if ws1 (code c) then 1 else 0)"
| "ws_len_rev [d, c] = (if ws1 (code d) then 1 else if ws2 (code c) (code d) then 2 else 0)"
| "ws_len_rev (e # d # c # s) =
     (if ws1 (code e) then 1 else if ws2 (code d) (code e) then 2
      else if ws3 (code c) (code d) (code e) then 3 else 0)"

lemma ws_len_less [simp]: "0 < ws_len s \<Longrightarrow> length s - ws_len s < length s"
  by (cases s) auto

lemma ws_len_rev_less [simp]: "0 < ws_len_rev s \<Longrightarrow> length s - ws_len_rev s < length s"
  by (cases s) auto

function trim_start :: "string \<Rightarrow> string" where
  "trim_start s = (if ws_len s = 0 then s else trim_start (drop (ws_len s) s))"
  by pat_completeness auto
termination
  by (relation "measure length") auto

function trim_start_rev :: "string \<Rightarrow> string" where
  "trim_start_rev s = (if ws_len_rev s = 0 then s else trim_start_rev (drop (ws_len_rev s) s))"
  by pat_completeness auto
termination
  by (relation "measure length") auto

definition trim_end :: "string \<Rightarrow> string" where
  "trim_end s = rev (trim_start_rev (rev s))"

definition trim :: "string \<Rightarrow> string" where
  "trim s = trim_end (trim_start s)"

text \<open>\<open>splitn(2, char::is_whitespace)\<close>: the text before the first white space character and,
  if there is one, the text after it.\<close>

fun split_first_ws :: "string \<Rightarrow> string \<times> string option" where
  "split_first_ws [] = ([], None)"
| "split_first_ws (c # cs) =
     (if ws_len (c # cs) \<noteq> 0 then ([], Some (drop (ws_len (c # cs)) (c # cs)))
      else (case split_first_ws cs of (a, b) \<Rightarrow> (c # a, b)))"

text \<open>\<open>split_whitespace\<close>: the maximal runs of other characters.\<close>

function split_whitespace_go :: "string \<Rightarrow> string \<Rightarrow> string list" where
  "split_whitespace_go cur [] = (if cur = [] then [] else [rev cur])"
| "split_whitespace_go cur (c # cs) =
     (if ws_len (c # cs) = 0 then split_whitespace_go (c # cur) cs
      else (if cur = [] then [] else [rev cur]) @
           split_whitespace_go [] (drop (ws_len (c # cs)) (c # cs)))"
  by pat_completeness auto
termination
  by (relation "measure (\<lambda>(cur, s). length s)") auto

definition split_whitespace :: "string \<Rightarrow> string list" where
  "split_whitespace s = split_whitespace_go [] s"

subsection \<open>ASCII case\<close>

definition ascii_lower :: "char \<Rightarrow> char" where
  "ascii_lower c = (if 65 \<le> code c \<and> code c \<le> 90 then char_of (code c + 32) else c)"

definition to_ascii_lowercase :: "string \<Rightarrow> string" where
  "to_ascii_lowercase s = map ascii_lower s"

definition eq_ignore_ascii_case :: "string \<Rightarrow> string \<Rightarrow> bool" where
  "eq_ignore_ascii_case a b = (to_ascii_lowercase a = to_ascii_lowercase b)"

subsection \<open>Numbers\<close>

definition is_digit :: "char \<Rightarrow> bool" where
  "is_digit c = (48 \<le> code c \<and> code c \<le> 57)"

definition digits_val :: "string \<Rightarrow> nat" where
  "digits_val s = foldl (\<lambda>n c. 10 * n + (code c - 48)) 0 s"

text \<open>\<open>str::parse\<close> for an unsigned integer no larger than \<open>m\<close>: an optional \<open>+\<close>, at least one
  digit and nothing else, no overflow.\<close>

definition parse_uint :: "nat \<Rightarrow> string \<Rightarrow> nat option" where
  "parse_uint m s =
     (let ds = (case s of c # cs \<Rightarrow> if c = CHR ''+'' then cs else s | [] \<Rightarrow> [])
      in if ds \<noteq> [] \<and> list_all is_digit ds \<and> digits_val ds \<le> m
         then Some (digits_val ds) else None)"

definition parse_u16 :: "string \<Rightarrow> u16 option" where
  "parse_u16 s = map_option word_of_nat (parse_uint 65535 s)"

definition parse_u32 :: "string \<Rightarrow> u32 option" where
  "parse_u32 s = map_option word_of_nat (parse_uint 4294967295 s)"

definition digit_char :: "nat \<Rightarrow> char" where
  "digit_char d = char_of (48 + d)"

fun show_nat :: "nat \<Rightarrow> string" where
  "show_nat n = (if n < 10 then [digit_char n] else show_nat (n div 10) @ [digit_char (n mod 10)])"

section \<open>Bytes\<close>

definition as_bytes :: "string \<Rightarrow> byte list" where
  "as_bytes s = map (\<lambda>c. word_of_nat (code c)) s"

definition chars_of :: "byte list \<Rightarrow> string" where
  "chars_of bs = map (\<lambda>b. char_of (unat b)) bs"

text \<open>The number a byte sequence denotes in big-endian order, and the \<open>k\<close> low bytes of a number
  in that order.\<close>

definition be_val :: "byte list \<Rightarrow> nat" where
  "be_val bs = foldl (\<lambda>n b. 256 * n + unat b) 0 bs"

fun be_bytes :: "nat \<Rightarrow> nat \<Rightarrow> byte list" where
  "be_bytes 0 n = []"
| "be_bytes (Suc k) n = be_bytes k (n div 256) @ [word_of_nat n]"

definition u32_to_be_bytes :: "u32 \<Rightarrow> byte list" where
  "u32_to_be_bytes w = be_bytes 4 (unat w)"

definition u32_from_be_bytes :: "byte list \<Rightarrow> u32" where
  "u32_from_be_bytes bs = word_of_nat (be_val bs)"

text \<open>\<open>std::str::from_utf8\<close>: the well-formed byte sequences of the Unicode standard
  (table 3-7), shortest forms only, without surrogates.\<close>

definition cont :: "byte \<Rightarrow> bool" where
  "cont b = (0x80 \<le> b \<and> b \<le> 0xBF)"

text \<open>How the decoder reads the first character: whether it is well formed, and how many bytes
  it has; of an ill-formed one, the longest prefix that could have started a character.\<close>

definition second_ok :: "byte \<Rightarrow> byte \<Rightarrow> bool" where
  "second_ok a b =
     (cont b \<and> (a = 0xE0 \<longrightarrow> 0xA0 \<le> b) \<and> (a = 0xED \<longrightarrow> b \<le> 0x9F) \<and>
      (a = 0xF0 \<longrightarrow> 0x90 \<le> b) \<and> (a = 0xF4 \<longrightarrow> b \<le> 0x8F))"

definition cont_at :: "byte list \<Rightarrow> nat \<Rightarrow> bool" where
  "cont_at bs i = (i < length bs \<and> cont (bs ! i))"

fun utf8_step :: "byte list \<Rightarrow> bool \<times> nat" where
  "utf8_step [] = (False, 1)"
| "utf8_step (a # bs) =
     (if a \<le> 0x7F then (True, 1)
      else if a < 0xC2 \<or> 0xF4 < a \<or> bs = [] \<or> \<not> second_ok a (hd bs) then (False, 1)
      else if a \<le> 0xDF then (True, 2)
      else if \<not> cont_at bs 1 then (False, 2)
      else if a \<le> 0xEF then (True, 3)
      else if \<not> cont_at bs 2 then (False, 3)
      else (True, 4))"

lemma utf8_step_pos: "0 < snd (utf8_step bs)"
  by (cases bs) auto

function utf8_valid :: "byte list \<Rightarrow> bool" where
  "utf8_valid bs =
     (if bs = [] then True
      else fst (utf8_step bs) \<and> utf8_valid (drop (snd (utf8_step bs)) bs))"
  by pat_completeness auto
termination
  by (relation "measure length") (auto simp: utf8_step_pos)

text \<open>\<open>String::from_utf8_lossy\<close>: every ill-formed piece becomes U+FFFD.\<close>

function utf8_lossy :: "byte list \<Rightarrow> byte list" where
  "utf8_lossy bs =
     (if bs = [] then []
      else (if fst (utf8_step bs) then take (snd (utf8_step bs)) bs else [0xEF, 0xBF, 0xBD]) @
           utf8_lossy (drop (snd (utf8_step bs)) bs))"
  by pat_completeness auto
termination
  by (relation "measure length") (auto simp: utf8_step_pos)

declare utf8_valid.simps [simp del] utf8_lossy.simps [simp del]

lemma utf8_lossy_valid: "utf8_valid bs \<Longrightarrow> utf8_lossy bs = bs"
proof (induction bs rule: utf8_lossy.induct)
  case (1 bs)
  then show ?case
    by (cases "bs = []") (simp_all add: utf8_lossy.simps [of bs] utf8_lossy.simps [of "[]"]
      utf8_valid.simps [of bs])
qed

lemma utf8_valid_ascii: "list_all (\<lambda>b. b \<le> 0x7F) bs \<Longrightarrow> utf8_valid bs"
  by (induction bs) (simp_all add: utf8_valid.simps)

definition to_string_lossy :: "string \<Rightarrow> string" where
  "to_string_lossy s = chars_of (utf8_lossy (as_bytes s))"

definition str_from_utf8 :: "byte list \<Rightarrow> string option" where
  "str_from_utf8 bs = (if utf8_valid bs then Some (chars_of bs) else None)"

section \<open>Facts about integers\<close>

lemma unat_lt2p: "unat (w :: 'a::len word) < 2 ^ LENGTH('a)"
  by (rule unsigned_less)

lemma unat_max_word: "unat (- 1 :: 'a::len word) = 2 ^ LENGTH('a) - 1"
  by (simp add: unsigned_minus_1_eq_mask mask_eq_exp_minus_1)

lemma unat_of_nat_small: "n < 2 ^ LENGTH('a) \<Longrightarrow> unat (word_of_nat n :: 'a::len word) = n"
  by (simp add: unat_of_nat)

lemma unat_le_max: "unat (w :: 'a::len word) \<le> 2 ^ LENGTH('a) - 1"
  using unat_lt2p [of w] by linarith

lemma less_imp_le_minus_1: "(a::nat) < b \<Longrightarrow> a \<le> b - Suc 0"
  by simp

lemma unat_sat_add: "unat (sat_add a (b::'a::len word)) = min (unat a + unat b) (2 ^ LENGTH('a) - 1)"
  by (cases "unat a + unat b < 2 ^ LENGTH('a)")
    (simp_all add: sat_add_def unat_add_lem [THEN iffD1] unat_max_word min_absorb1 min_absorb2
       less_imp_le_minus_1)

lemma unat_sat_mul: "unat (sat_mul a (b::'a::len word)) = min (unat a * unat b) (2 ^ LENGTH('a) - 1)"
  by (cases "unat a * unat b < 2 ^ LENGTH('a)")
    (simp_all add: sat_mul_def unat_mult_lem [THEN iffD1] unat_max_word min_absorb1 min_absorb2
       less_imp_le_minus_1)

lemma unat_sat_sub: "unat (sat_sub a (b::'a::len word)) = unat a - unat b"
  by (auto simp: sat_sub_def unat_sub word_le_nat_alt)

lemma sat_add_mono: "a \<le> c \<Longrightarrow> b \<le> d \<Longrightarrow> sat_add a b \<le> sat_add c (d::'a::len word)"
  by (auto simp: word_le_nat_alt unat_sat_add)

lemma sat_add_ge1: "a \<le> sat_add a (b::'a::len word)"
  using unat_le_max [of a] by (simp add: word_le_nat_alt unat_sat_add)

section \<open>Facts about results\<close>

lemma and_then_Inl [simp, result_simps]: "and_then (Inl e) f = Inl e"
  by (simp add: and_then_def)

lemma and_then_Inr [simp, result_simps]: "and_then (Inr x) f = f x"
  by (simp add: and_then_def)

lemma and_then_eq_Inr: "and_then r f = Inr y \<longleftrightarrow> (\<exists>x. r = Inr x \<and> f x = Inr y)"
  by (cases r) auto

lemma and_then_eq_Inl: "and_then r f = Inl e \<longleftrightarrow> r = Inl e \<or> (\<exists>x. r = Inr x \<and> f x = Inl e)"
  by (cases r) auto

lemma with_context_simps [simp, result_simps]:
  "with_context m (Inl e) = Inl (Ctx m e)"
  "with_context m (Inr x) = Inr x"
  by (simp_all add: with_context_def)

lemma with_context_eq_Inr [simp]: "with_context m r = Inr x \<longleftrightarrow> r = Inr x"
  by (cases r) auto

lemma io_res_simps [simp, result_simps]: "io_res (Inl e) = Inl (Io e)" "io_res (Inr x) = Inr x"
  by (simp_all add: io_res_def)

lemma io_res_eq_Inr [simp]: "io_res r = Inr x \<longleftrightarrow> r = Inr x"
  by (cases r) auto

lemma ok_or_simps [simp, result_simps]: "ok_or e None = Inl e" "ok_or e (Some x) = Inr x"
  by (simp_all add: ok_or_def)

lemma ok_or_eq_Inr [simp]: "ok_or e x = Inr y \<longleftrightarrow> x = Some y"
  by (cases x) auto

lemma ok_or_eq_Inl [simp]: "ok_or e x = Inl e' \<longleftrightarrow> x = None \<and> e' = e"
  by (cases x) auto

lemma result_ok_simps [simp]: "result_ok (Inl e) = None" "result_ok (Inr x) = Some x"
  by (simp_all add: result_ok_def)

lemma result_ok_eq_Some [simp]: "result_ok r = Some x \<longleftrightarrow> r = Inr x"
  by (cases r) auto

lemma is_ok_simps [simp]: "is_ok (Inl e) = False" "is_ok (Inr x) = True"
  by (simp_all add: is_ok_def)

lemma is_ok_iff: "is_ok r \<longleftrightarrow> (\<exists>x. r = Inr x)"
  by (cases r) auto

lemma collect_results_Inr:
  "collect_results f xs = Inr ys \<longleftrightarrow> list_all2 (\<lambda>x y. f x = Inr y) xs ys"
  by (induction xs arbitrary: ys) (auto simp: and_then_eq_Inr list_all2_Cons1)

section \<open>Facts about strings\<close>

lemma strip_prefix_iff [simp]: "strip_prefix p s = Some r \<longleftrightarrow> s = p @ r"
  by (induction p s rule: strip_prefix.induct) auto

lemma strip_prefix_append [simp]: "strip_prefix p (p @ r) = Some r"
  by simp

lemma strip_suffix_iff [simp]: "strip_suffix p s = Some r \<longleftrightarrow> s = r @ p"
  by (auto simp: strip_suffix_def rev_swap)

lemma starts_with_iff: "starts_with p s \<longleftrightarrow> (\<exists>r. s = p @ r)"
  by (auto simp: starts_with_def)

lemma ends_with_iff: "ends_with p s \<longleftrightarrow> (\<exists>r. s = r @ p)"
  by (auto simp: ends_with_def)

lemma split_once_Some: "split_once d s = Some (a, b) \<longleftrightarrow> s = a @ d # b \<and> d \<notin> set a"
proof (induction s arbitrary: a)
  case (Cons c cs)
  then show ?case by (cases a) auto
qed simp

lemma split_once_None [simp]: "split_once d s = None \<longleftrightarrow> d \<notin> set s"
  by (induction s) auto

lemma rsplit_once_Some: "rsplit_once d s = Some (a, b) \<longleftrightarrow> s = a @ d # b \<and> d \<notin> set b"
proof -
  have "rsplit_once d s = Some (a, b) \<longleftrightarrow> split_once d (rev s) = Some (rev b, rev a)"
    by (auto simp: rsplit_once_def)
  then show ?thesis by (auto simp: split_once_Some rev_swap)
qed

lemma rsplit_once_None [simp]: "rsplit_once d s = None \<longleftrightarrow> d \<notin> set s"
  by (simp add: rsplit_once_def)

lemma split_on_not_Nil [simp]: "split_on d s \<noteq> []"
  by (induction s) (auto split: list.splits)

lemma split_on_no_sep: "d \<notin> set s \<Longrightarrow> split_on d s = [s]"
  by (induction s) auto

lemma split_on_append: "d \<notin> set a \<Longrightarrow> split_on d (a @ d # b) = a # split_on d b"
  by (induction a) auto

lemma split_on_pieces: "p \<in> set (split_on d s) \<Longrightarrow> d \<notin> set p"
  by (induction s arbitrary: p) (auto split: list.splits if_splits)

lemma trim_start_ws [simp]: "ws_len (trim_start s) = 0"
  by (induction s rule: trim_start.induct) (metis trim_start.simps)

lemma trim_start_id: "ws_len s = 0 \<Longrightarrow> trim_start s = s"
  by simp

lemma trim_end_id: "ws_len_rev (rev s) = 0 \<Longrightarrow> trim_end s = s"
  by (simp add: trim_end_def)

lemma trim_id: "ws_len s = 0 \<Longrightarrow> ws_len_rev (rev s) = 0 \<Longrightarrow> trim s = s"
  by (simp add: trim_def trim_end_id)

declare trim_start.simps [simp del] trim_start_rev.simps [simp del]

lemma to_ascii_lowercase_length [simp]: "length (to_ascii_lowercase s) = length s"
  by (simp add: to_ascii_lowercase_def)

lemma code_less [simp]: "code c < 256"
  by (simp add: code_def)

lemma code_char_of [simp]: "n < 256 \<Longrightarrow> code (char_of n) = n"
  by (simp add: code_def)

lemma char_of_code [simp]: "char_of (code c) = c"
  by (simp add: code_def)

lemma ascii_lower_idem [simp]: "ascii_lower (ascii_lower c) = ascii_lower c"
  by (auto simp: ascii_lower_def)

lemma to_ascii_lowercase_idem [simp]: "to_ascii_lowercase (to_ascii_lowercase s) = to_ascii_lowercase s"
  by (simp add: to_ascii_lowercase_def)

subsection \<open>Decimal numerals\<close>

lemma digit_char_props [simp]:
  assumes "d < 10"
  shows "is_digit (digit_char d)" "code (digit_char d) = 48 + d"
  using assms by (simp_all add: is_digit_def digit_char_def)

declare show_nat.simps [simp del]

lemma show_nat_digits: "list_all is_digit (show_nat n) \<and> show_nat n \<noteq> [] \<and> digits_val (show_nat n) = n"
proof (induction n rule: show_nat.induct)
  case (1 n)
  show ?case
  proof (cases "n < 10")
    case True
    then show ?thesis by (simp add: show_nat.simps digits_val_def)
  next
    case False
    with 1 show ?thesis
      by (subst (1 2 3) show_nat.simps) (simp add: digits_val_def)
  qed
qed

lemma is_digit_not_plus: "is_digit c \<Longrightarrow> c \<noteq> CHR ''+''"
  by (auto simp: is_digit_def code_def)

lemma parse_uint_show_nat [simp]: "n \<le> m \<Longrightarrow> parse_uint m (show_nat n) = Some n"
  using show_nat_digits [of n]
  by (cases "show_nat n") (auto simp: parse_uint_def Let_def dest: is_digit_not_plus)

lemma parse_u16_show [simp]: "parse_u16 (show_nat (unat w)) = Some w"
proof -
  have "unat w \<le> 65535" using unat_lt2p [of w] by simp
  then show ?thesis by (simp add: parse_u16_def)
qed

lemma parse_uint_bound: "parse_uint m s = Some n \<Longrightarrow> n \<le> m"
  by (auto simp: parse_uint_def Let_def split: if_splits)

section \<open>Facts about bytes\<close>

lemma length_as_bytes [simp]: "length (as_bytes s) = length s"
  by (simp add: as_bytes_def)

lemma length_chars_of [simp]: "length (chars_of bs) = length bs"
  by (simp add: chars_of_def)

lemma unat_of_code [simp]: "unat (word_of_nat (code c) :: byte) = code c"
  by (rule unat_of_nat_small) simp

lemma chars_of_as_bytes [simp]: "chars_of (as_bytes s) = s"
  by (simp add: chars_of_def as_bytes_def o_def)

lemma code_char_of_byte [simp]: "code (char_of (unat (b::byte))) = unat b"
  using unat_lt2p [of b] by simp

lemma as_bytes_chars_of [simp]: "as_bytes (chars_of bs) = bs"
  by (simp add: chars_of_def as_bytes_def o_def)

lemma as_bytes_inj [simp]: "as_bytes s = as_bytes t \<longleftrightarrow> s = t"
  by (metis chars_of_as_bytes)

lemma as_bytes_append [simp]: "as_bytes (s @ t) = as_bytes s @ as_bytes t"
  by (simp add: as_bytes_def)

lemma length_be_bytes [simp]: "length (be_bytes k n) = k"
  by (induction k arbitrary: n) auto

lemma be_val_Nil [simp]: "be_val [] = 0"
  by (simp add: be_val_def)

lemma be_val_snoc [simp]: "be_val (bs @ [b]) = 256 * be_val bs + unat b"
  by (simp add: be_val_def)

lemma be_val_Cons: "be_val (b # bs) = unat b * 256 ^ length bs + be_val bs"
proof (induction bs rule: rev_induct)
  case (snoc x xs)
  have "be_val (b # xs @ [x]) = 256 * be_val (b # xs) + unat x"
    using be_val_snoc [of "b # xs"] by simp
  with snoc show ?case by simp
qed (simp add: be_val_def)

lemma be_val_append: "be_val (as @ bs) = be_val as * 256 ^ length bs + be_val bs"
  by (induction as) (auto simp: be_val_Cons power_add algebra_simps)

lemma be_val_less: "be_val bs < 256 ^ length bs"
proof (induction bs rule: rev_induct)
  case (snoc x xs)
  have "unat x < 256" using unat_lt2p [of x] by simp
  with snoc show ?case by simp
qed simp

lemma be_val_be_bytes: "be_val (be_bytes k n) = n mod 256 ^ k"
proof (induction k arbitrary: n)
  case (Suc k)
  have "unat (word_of_nat n :: byte) = n mod 256" by (simp add: unat_of_nat)
  with Suc show ?case by (simp add: mod_mult2_eq)
qed simp

lemma be_bytes_be_val: "be_bytes (length bs) (be_val bs) = bs"
proof (induction bs rule: rev_induct)
  case (snoc x xs)
  have lt: "unat x < 256" using unat_lt2p [of x] by simp
  have "unat (word_of_nat (256 * be_val xs + unat x) :: byte) = unat x"
    by (subst unat_of_nat) (use lt in simp)
  then have "word_of_nat (256 * be_val xs + unat x) = x"
    by (rule word_unat_eq_iff [THEN iffD2])
  with snoc lt show ?case by simp
qed simp

lemma length_u32_to_be_bytes [simp]: "length (u32_to_be_bytes w) = 4"
  by (simp add: u32_to_be_bytes_def)

lemma u32_be_roundtrip [simp, wire_simps]: "u32_from_be_bytes (u32_to_be_bytes w) = w"
proof -
  have "unat w < 256 ^ 4" using unat_lt2p [of w] by simp
  then show ?thesis by (simp add: u32_from_be_bytes_def u32_to_be_bytes_def be_val_be_bytes)
qed

lemma u32_from_be_bytes_inverse: "length bs = 4 \<Longrightarrow> u32_to_be_bytes (u32_from_be_bytes bs) = bs"
  using be_val_less [of bs] be_bytes_be_val [of bs]
  by (simp add: u32_from_be_bytes_def u32_to_be_bytes_def unat_of_nat)

lemma str_from_utf8_Some: "str_from_utf8 bs = Some s \<longleftrightarrow> utf8_valid bs \<and> bs = as_bytes s"
  by (auto simp: str_from_utf8_def)

end
