(* ===== verification/Paths.thy ===== *)
theory Paths
  imports Prelude
begin

text \<open>
  Unix paths as the program uses them: \<open>std::path\<close> on strings (components, file name, parent,
  join), the default locations of \<open>paths.rs\<close>, and socket addresses.

  The environment is a parameter: \<open>home_dir\<close> is the value of \<open>std::env::home_dir()\<close> and
  \<open>state_home\<close> that of the XDG state directory.
\<close>

section \<open>Socket addresses\<close>

datatype ip_addr = V4 u32 | V6 "128 word"

datatype socket_addr = SocketAddr (sa_ip: ip_addr) (sa_port: u16)

fun is_ipv4 :: "ip_addr \<Rightarrow> bool" where
  "is_ipv4 (V4 _) = True"
| "is_ipv4 (V6 _) = False"

section \<open>Path components\<close>

datatype component = RootDir | CurDir | ParentDir | Normal string

definition has_root :: "string \<Rightarrow> bool" where
  "has_root p = starts_with ''/'' p"

text \<open>A relative path keeps a leading \<open>.\<close>; everywhere else \<open>.\<close> and empty pieces vanish.\<close>

definition include_cur_dir :: "string \<Rightarrow> bool" where
  "include_cur_dir p = (p = ''.'' \<or> starts_with ''./'' p)"

definition blank_piece :: "string \<Rightarrow> bool" where
  "blank_piece p = (p = '''' \<or> p = ''.'')"

definition piece_component :: "string \<Rightarrow> component" where
  "piece_component p = (if p = ''..'' then ParentDir else Normal p)"

definition body_components :: "string \<Rightarrow> component list" where
  "body_components p = map piece_component (filter (\<lambda>q. \<not> blank_piece q) (split_on (CHR ''/'') p))"

definition components :: "string \<Rightarrow> component list" where
  "components p =
     (if has_root p then [RootDir] else if include_cur_dir p then [CurDir] else []) @ body_components p"

definition file_name :: "string \<Rightarrow> string option" where
  "file_name p =
     (if components p = [] then None
      else (case last (components p) of Normal n \<Rightarrow> Some n | _ \<Rightarrow> None))"

text \<open>\<open>Path::parent\<close>: the text up to the end of the last component but one.\<close>

definition body_pieces :: "string \<Rightarrow> string list" where
  "body_pieces p = split_on (CHR ''/'') (if has_root p \<or> include_cur_dir p then tl p else p)"

definition drop_blank_end :: "string list \<Rightarrow> string list" where
  "drop_blank_end ps = rev (dropWhile blank_piece (rev ps))"

fun join_pieces :: "char \<Rightarrow> string list \<Rightarrow> string" where
  "join_pieces d [] = []"
| "join_pieces d [p] = p"
| "join_pieces d (p # ps) = p @ d # join_pieces d ps"

definition parent :: "string \<Rightarrow> string option" where
  "parent p =
     (let start = (if has_root p then ''/'' else if include_cur_dir p then ''.'' else '''');
          ps = drop_blank_end (body_pieces p)
      in if ps \<noteq> [] then Some (start @ join_pieces (CHR ''/'') (drop_blank_end (butlast ps)))
         else if include_cur_dir p then Some '''' else None)"

text \<open>\<open>Path::join\<close>: an absolute path replaces the base.\<close>

definition join :: "string \<Rightarrow> string \<Rightarrow> string" where
  "join base p =
     (if has_root p then p
      else if base \<noteq> [] \<and> last base \<noteq> CHR ''/'' then base @ ''/'' @ p else base @ p)"

text \<open>\<open>Path\<close> comparison is by components.\<close>

definition path_eq :: "string \<Rightarrow> string \<Rightarrow> bool" where
  "path_eq a b = (components a = components b)"

section \<open>Default locations\<close>

definition current_home :: "string option \<Rightarrow> string" where
  "current_home home_dir = (case home_dir of Some h \<Rightarrow> h | None \<Rightarrow> ''.'')"

definition default_data_dir :: "bool \<Rightarrow> string option \<Rightarrow> string option \<Rightarrow> string" where
  "default_data_dir is_root state_home home_dir =
     (if is_root then ''/etc/hush''
      else (case state_home of
              Some d \<Rightarrow> d
            | None \<Rightarrow> join (current_home home_dir) ''.local/state/hush''))"

definition server_dir :: "string \<Rightarrow> string" where
  "server_dir data_dir = join data_dir ''server''"

definition server_config_path :: "string \<Rightarrow> string" where
  "server_config_path data_dir = join (server_dir data_dir) ''config.toml''"

definition default_server_config_path :: "bool \<Rightarrow> string option \<Rightarrow> string option \<Rightarrow> string" where
  "default_server_config_path is_root state_home home_dir =
     server_config_path (default_data_dir is_root state_home home_dir)"

definition ssh_dir_for_home :: "string \<Rightarrow> string" where
  "ssh_dir_for_home home = join home ''.ssh''"

section \<open>Facts about paths\<close>

lemma has_root_Nil [simp]: "\<not> has_root []"
  by (simp add: has_root_def starts_with_def)

lemma has_root_Cons [simp]: "has_root (c # cs) \<longleftrightarrow> c = CHR ''/''"
  by (simp add: has_root_def starts_with_def)

lemma split_on_concat: "split_on d (a @ d # b) = split_on d a @ split_on d b"
  by (induction a) (auto split: list.splits simp: neq_Nil_conv)

lemma body_components_append:
  "body_components (a @ CHR ''/'' # b) = body_components a @ body_components b"
  by (simp add: body_components_def split_on_concat)

lemma body_components_Nil [simp]: "body_components [] = []"
  by (simp add: body_components_def blank_piece_def)

lemma body_components_name:
  assumes "CHR ''/'' \<notin> set n" "\<not> blank_piece n"
  shows "body_components n = [piece_component n]"
  using assms by (simp add: body_components_def split_on_no_sep)

lemma has_root_append: "a \<noteq> [] \<Longrightarrow> has_root (a @ b) = has_root a"
  by (cases a) auto

lemma include_cur_dir_append_slash:
  "a \<noteq> [] \<Longrightarrow> include_cur_dir (a @ CHR ''/'' # b) = include_cur_dir a"
  by (cases a; cases "tl a") (auto simp: include_cur_dir_def starts_with_def)

lemma components_append_slash:
  assumes "a \<noteq> []"
  shows "components (a @ CHR ''/'' # b) = components a @ body_components b"
  using assms
  by (simp add: components_def body_components_append has_root_append include_cur_dir_append_slash)

text \<open>Joining a relative path appends its components: \<open>join\<close> never climbs out of the base.\<close>

lemma components_join:
  assumes "base \<noteq> []" "\<not> has_root p"
  shows "components (join base p) = components base @ body_components p"
proof (cases "last base = CHR ''/''")
  case True
  then obtain a where a: "base = a @ [CHR ''/'']"
    using assms(1) by (metis append_butlast_last_id)
  show ?thesis
  proof (cases "a = []")
    case True
    with a assms(2) have "components (join base p) = RootDir # body_components (CHR ''/'' # p)"
      by (simp add: join_def components_def)
    moreover have "body_components (CHR ''/'' # p) = body_components p"
      using body_components_append [of "[]"] by simp
    moreover have "components base = [RootDir]"
      using a True body_components_append [of "[]" "[]"] by (simp add: components_def)
    ultimately show ?thesis by simp
  next
    case False
    then show ?thesis
      using a assms(2) components_append_slash [of a p] components_append_slash [of a "[]"]
      by (simp add: join_def)
  qed
next
  case False
  with assms show ?thesis by (simp add: join_def components_append_slash)
qed

lemma file_name_join:
  assumes "base \<noteq> []" "CHR ''/'' \<notin> set n" "\<not> blank_piece n" "n \<noteq> ''..''"
  shows "file_name (join base n) = Some n"
proof -
  have "\<not> has_root n" using assms(2) by (cases n) auto
  with assms show ?thesis
    by (simp add: file_name_def components_join body_components_name piece_component_def)
qed

text \<open>A file name is one plain component: no separator, not empty, neither \<open>.\<close> nor \<open>..\<close>.\<close>

lemma body_components_Normal:
  "Normal n \<in> set (body_components p) \<Longrightarrow>
     CHR ''/'' \<notin> set n \<and> \<not> blank_piece n \<and> n \<noteq> ''..''"
  by (auto simp: body_components_def piece_component_def dest: split_on_pieces split: if_splits)

lemma file_name_plain:
  assumes "file_name p = Some n"
  shows "CHR ''/'' \<notin> set n \<and> \<not> blank_piece n \<and> n \<noteq> ''..''"
proof -
  have ne: "components p \<noteq> []" and l: "last (components p) = Normal n"
    using assms by (auto simp: file_name_def split: if_splits component.splits)
  then have "Normal n \<in> set (components p)" by (metis last_in_set)
  then have "Normal n \<in> set (body_components p)"
    by (auto simp: components_def split: if_splits)
  then show ?thesis by (rule body_components_Normal)
qed

lemma components_plain:
  assumes "CHR ''/'' \<notin> set n" "\<not> blank_piece n" "n \<noteq> ''..''"
  shows "components n = [Normal n]"
proof -
  have "\<not> has_root n" using assms(1) by (cases n) auto
  moreover have "\<not> include_cur_dir n"
    using assms(1,2) by (auto simp: include_cur_dir_def blank_piece_def starts_with_iff)
  ultimately show ?thesis
    using assms by (simp add: components_def body_components_name piece_component_def)
qed

lemma components_single_Normal:
  "components p = [Normal n] \<Longrightarrow> CHR ''/'' \<notin> set n \<and> \<not> blank_piece n \<and> n \<noteq> ''..''"
  by (rule file_name_plain [of p]) (simp add: file_name_def)

end
