(* ===== verification/Protocol.thy ===== *)
theory Protocol
  imports Paths
begin

text \<open>
  \<open>hush-core/src/protocol.rs\<close>, \<open>priority.rs\<close>: the messages of the stream protocol and their
  framing, a big-endian \<open>u32\<close> length followed by the serialized message.

  The serializer is a parameter (\<open>ser\<close>/\<open>des\<close> stand for \<open>postcard::to_allocvec\<close> and
  \<open>postcard::from_bytes\<close>).  A writer is a function from the sink's state and the bytes to the new
  state or an error; \<open>vec_write\<close> is the one that appends to a byte vector.  A byte source is the
  list of bytes that will still arrive and the error \<open>eof\<close> with which it ends.

  The locale \<open>codec\<close> is the contract all length-prefixed encodings of the program share: frames
  of this protocol, frames of the file-copy worker, packets and strings of the agent protocol.
  Its lemmas (streams of encoded values read back in order, encodings are unambiguous, a truncated
  encoding is an error) are used through its interpretations.
\<close>

section \<open>Messages\<close>

definition ALPN :: string where "ALPN = ''hush/4''"

definition DEFAULT_PORT :: u16 where "DEFAULT_PORT = 22022"

definition MAX_FRAME_LEN :: nat where "MAX_FRAME_LEN = 1024 * 1024"

record TermSize =
  rows :: u16
  cols :: u16
  width_px :: u16
  height_px :: u16

definition default_term_size :: TermSize where
  "default_term_size = \<lparr>rows = 24, cols = 80, width_px = 0, height_px = 0\<rparr>"

datatype SessionMode = Pty string TermSize | Pipes

record EnvVar =
  ev_key :: string
  ev_value :: string

record OpenSession =
  os_command :: "string list"
  os_use_shell :: bool
  os_mode :: SessionMode
  os_env :: "EnvVar list"
  os_set_env :: "EnvVar list"
  os_forward_agent :: bool

record TcpTarget =
  tt_host :: string
  tt_port :: u16

record RemoteForwardRequest =
  rf_forward_id :: u64
  rf_listen_host :: string
  rf_listen_port :: u16

datatype FileCopyDirection = Upload | Download

datatype FileCopyCompression = NoCompression | Zstd

record FileCopyEntry =
  fe_path :: string
  fe_archive_name :: string

record FileCopyRequest =
  fr_direction :: FileCopyDirection
  fr_entries :: "FileCopyEntry list"
  fr_destination :: string
  fr_compression :: FileCopyCompression

record FileCopyPlan =
  fp_extract_dir :: string
  fp_entries :: "FileCopyEntry list"

datatype RemoteSignal =
    SIGABRT | SIGALRM | SIGFPE | SIGHUP | SIGILL | SIGINT | SIGKILL | SIGPIPE | SIGQUIT | SIGSEGV
  | SIGTERM | SIGUSR1 | SIGUSR2

datatype StreamResponse = RespOk | SessionReady | FileCopyReady FileCopyPlan | RespError string

datatype ProcessExit = ExitCode int | ExitSignal RemoteSignal

datatype StreamOpen =
    Session OpenSession
  | SessionStderr
  | SessionExitStatus ProcessExit
  | SessionError string
  | Resize TermSize
  | SignalMsg RemoteSignal
  | OpenRemoteForward RemoteForwardRequest
  | LocalTcpForward TcpTarget
  | RemoteTcpForward u64
  | FileCopy FileCopyRequest
  | AgentForward "byte list"

datatype StreamPriority = PrioShell | PrioForward | PrioFileCopy

fun priority_value :: "StreamPriority \<Rightarrow> int" where
  "priority_value PrioShell = 20"
| "priority_value PrioForward = 10"
| "priority_value PrioFileCopy = - 10"

section \<open>Byte sources and sinks\<close>

definition read_exact :: "error \<Rightarrow> nat \<Rightarrow> byte list \<Rightarrow> (byte list \<times> byte list) res" where
  "read_exact eof n s = (if n \<le> length s then Inr (take n s, drop n s) else Inl eof)"

definition read_u32 :: "error \<Rightarrow> byte list \<Rightarrow> (u32 \<times> byte list) res" where
  "read_u32 eof s = and_then (read_exact eof 4 s) (\<lambda>(b, r). Inr (u32_from_be_bytes b, r))"

abbreviation vec_write :: "byte list \<Rightarrow> byte list \<Rightarrow> byte list res" where
  "vec_write s b \<equiv> Inr (s @ b)"

section \<open>Frames\<close>

definition write_frame_bytes ::
  "('s \<Rightarrow> byte list \<Rightarrow> 's res) \<Rightarrow> 's \<Rightarrow> byte list \<Rightarrow> 's res" where
  "write_frame_bytes wr s bytes =
     (if MAX_FRAME_LEN < length bytes
      then Inl (Bail (''frame too large: '' @ show_nat (length bytes) @ '' bytes''))
      else and_then (wr s (u32_to_be_bytes (word_of_nat (length bytes)))) (\<lambda>s. wr s bytes))"

definition write_frame ::
  "('a \<Rightarrow> byte list res) \<Rightarrow> ('s \<Rightarrow> byte list \<Rightarrow> 's res) \<Rightarrow> 's \<Rightarrow> 'a \<Rightarrow> 's res" where
  "write_frame ser wr s v =
     and_then (with_context ''serialize frame'' (ser v)) (write_frame_bytes wr s)"

definition read_frame_bytes :: "error \<Rightarrow> byte list \<Rightarrow> (byte list \<times> byte list) res" where
  "read_frame_bytes eof s =
     and_then (read_u32 eof s) (\<lambda>(w, s).
       if MAX_FRAME_LEN < unat w
       then Inl (Bail (''frame too large: '' @ show_nat (unat w) @ '' bytes''))
       else read_exact eof (unat w) s)"

definition read_frame ::
  "(byte list \<Rightarrow> 'a res) \<Rightarrow> error \<Rightarrow> byte list \<Rightarrow> ('a \<times> byte list) res" where
  "read_frame des eof s =
     and_then (read_frame_bytes eof s) (\<lambda>(buf, r).
       and_then (with_context ''deserialize frame'' (des buf)) (\<lambda>v. Inr (v, r)))"

section \<open>The contract of an encoding\<close>

fun read_many :: "('s \<Rightarrow> ('a \<times> 's) res) \<Rightarrow> nat \<Rightarrow> 's \<Rightarrow> ('a list \<times> 's) res" where
  "read_many get 0 s = Inr ([], s)"
| "read_many get (Suc n) s =
     and_then (get s) (\<lambda>(x, s). and_then (read_many get n s) (\<lambda>(xs, s). Inr (x # xs, s)))"

locale codec =
  fixes ok :: "'a \<Rightarrow> bool"
    and put :: "'a \<Rightarrow> byte list res"
    and get :: "byte list \<Rightarrow> ('a \<times> byte list) res"
  assumes get_put: "ok x \<Longrightarrow> \<exists>e. put x = Inr e \<and> (\<forall>r. get (e @ r) = Inr (x, r))"
    and get_inv: "get s = Inr (x, r) \<Longrightarrow> ok x \<and> (\<exists>e. put x = Inr e \<and> s = e @ r)"
begin

lemma put_total: "ok x \<Longrightarrow> is_ok (put x)"
  using get_put by (fastforce simp: is_ok_iff)

lemma roundtrip: "ok x \<Longrightarrow> put x = Inr e \<Longrightarrow> get (e @ r) = Inr (x, r)"
  using get_put [of x] by auto

lemma unambiguous:
  assumes "ok x" "ok y" "put x = Inr e" "put y = Inr f" "e @ r = f @ t"
  shows "x = y \<and> r = t"
  using roundtrip [OF assms(1,3), of r] roundtrip [OF assms(2,4), of t] assms(5) by simp

lemma truncated:
  assumes "ok x" "put x = Inr (p @ q)" "q \<noteq> []"
  shows "\<exists>err. get p = Inl err"
proof (rule ccontr)
  assume "\<nexists>err. get p = Inl err"
  then obtain y r where g: "get p = Inr (y, r)" by (cases "get p") auto
  then obtain f where f: "ok y" "put y = Inr f" "p = f @ r" using get_inv by blast
  have "(p @ q) @ [] = f @ r @ q" using f(3) by simp
  with unambiguous [OF assms(1) f(1) assms(2) f(2)] assms(3) show False by simp
qed

lemma read_many_put:
  assumes "list_all ok xs"
  shows "\<exists>es. collect_results put xs = Inr es \<and>
           (\<forall>r. read_many get (length xs) (concat es @ r) = Inr (xs, r))"
  using assms
proof (induction xs)
  case (Cons x xs)
  then obtain es where es: "collect_results put xs = Inr es"
    "\<And>r. read_many get (length xs) (concat es @ r) = Inr (xs, r)" by auto
  obtain e where e: "put x = Inr e" "\<And>r. get (e @ r) = Inr (x, r)"
    using Cons.prems get_put [of x] by auto
  with es show ?case by auto
qed simp

lemma read_many_inv:
  "read_many get n s = Inr (xs, r) \<Longrightarrow>
     length xs = n \<and> list_all ok xs \<and> (\<exists>es. collect_results put xs = Inr es \<and> s = concat es @ r)"
proof (induction n arbitrary: s xs)
  case (Suc n)
  then obtain x s' ys where g: "get s = Inr (x, s')" "read_many get n s' = Inr (ys, r)" "xs = x # ys"
    by (auto simp: and_then_eq_Inr)
  then obtain e where "ok x" "put x = Inr e" "s = e @ s'" using get_inv by blast
  with Suc.IH [OF g(2)] g(3) show ?case by auto
qed simp

end

text \<open>All the length-prefixed encodings have this shape: a \<open>u32\<close> length and the bytes.\<close>

definition lp_bytes :: "byte list \<Rightarrow> byte list" where
  "lp_bytes b = u32_to_be_bytes (word_of_nat (length b)) @ b"

lemma read_exact_append [simp]: "length a = n \<Longrightarrow> read_exact eof n (a @ r) = Inr (a, r)"
  by (auto simp: read_exact_def)

lemma read_exact_Inr: "read_exact eof n s = Inr (a, r) \<longleftrightarrow> s = a @ r \<and> length a = n"
  by (auto simp: read_exact_def)

lemma read_u32_append [simp]: "read_u32 eof (u32_to_be_bytes w @ r) = Inr (w, r)"
  by (simp add: read_u32_def)

lemma read_u32_Inr: "read_u32 eof s = Inr (w, r) \<longleftrightarrow> s = u32_to_be_bytes w @ r"
  by (auto simp: read_u32_def and_then_eq_Inr read_exact_Inr u32_from_be_bytes_inverse)

lemma unat_length_u32: "n < 2 ^ 32 \<Longrightarrow> unat (word_of_nat n :: u32) = n"
  by (rule unat_of_nat_small) simp

lemma frame_codec:
  "codec (\<lambda>b. length b \<le> MAX_FRAME_LEN) (write_frame_bytes vec_write []) (read_frame_bytes eof)"
proof
  fix x :: "byte list"
  assume "length x \<le> MAX_FRAME_LEN"
  then show "\<exists>e. write_frame_bytes vec_write [] x = Inr e \<and>
      (\<forall>r. read_frame_bytes eof (e @ r) = Inr (x, r))"
    by (auto simp: write_frame_bytes_def read_frame_bytes_def unat_length_u32 MAX_FRAME_LEN_def)
next
  fix s x r
  assume g: "read_frame_bytes eof s = Inr (x, r)"
  then obtain w where w: "s = u32_to_be_bytes w @ x @ r" "unat w \<le> MAX_FRAME_LEN" "length x = unat w"
    by (auto simp: read_frame_bytes_def and_then_eq_Inr read_u32_Inr read_exact_Inr split: if_splits)
  then have "word_of_nat (length x) = w" by simp
  with w show "length x \<le> MAX_FRAME_LEN \<and>
      (\<exists>e. write_frame_bytes vec_write [] x = Inr e \<and> s = e @ r)"
    by (simp add: write_frame_bytes_def)
qed

interpretation fr: codec "\<lambda>b. length b \<le> MAX_FRAME_LEN" "write_frame_bytes vec_write []" "read_frame_bytes eof"
  for eof by (rule frame_codec)

lemma write_frame_bytes_vec:
  "write_frame_bytes vec_write s b =
     and_then (write_frame_bytes vec_write [] b) (\<lambda>e. Inr (s @ e))"
  by (simp add: write_frame_bytes_def)

section \<open>Messages over a stream\<close>

text \<open>A peer writes a sequence of messages to one stream.\<close>

fun write_frames ::
  "('a \<Rightarrow> byte list res) \<Rightarrow> ('s \<Rightarrow> byte list \<Rightarrow> 's res) \<Rightarrow> 's \<Rightarrow> 'a list \<Rightarrow> 's res" where
  "write_frames ser wr s [] = Inr s"
| "write_frames ser wr s (v # vs) = and_then (write_frame ser wr s v) (\<lambda>s. write_frames ser wr s vs)"

text \<open>What postcard documents: a serialized value deserializes to itself.\<close>

definition serde_inverse :: "('a \<Rightarrow> byte list res) \<Rightarrow> (byte list \<Rightarrow> 'a res) \<Rightarrow> bool" where
  "serde_inverse ser des \<longleftrightarrow> (\<forall>v b. ser v = Inr b \<longrightarrow> des b = Inr v)"

lemma write_frame_Inr:
  "write_frame ser vec_write s v = Inr t \<longleftrightarrow>
     (\<exists>b e. ser v = Inr b \<and> length b \<le> MAX_FRAME_LEN \<and>
            write_frame_bytes vec_write [] b = Inr e \<and> t = s @ e)"
  by (auto simp: write_frame_def and_then_eq_Inr write_frame_bytes_def split: if_splits)

lemma read_frame_write_frame:
  assumes "serde_inverse ser des" "write_frame ser vec_write s v = Inr t"
  obtains e where "t = s @ e" "\<And>r. read_frame des eof (e @ r) = Inr (v, r)"
proof -
  from assms(2) obtain b e where b: "ser v = Inr b" "length b \<le> MAX_FRAME_LEN"
      "write_frame_bytes vec_write [] b = Inr e" "t = s @ e" by (auto simp: write_frame_Inr)
  then have "read_frame des eof (e @ r) = Inr (v, r)" for r
    using assms(1) fr.roundtrip [OF b(2,3)] by (simp add: read_frame_def serde_inverse_def)
  with b(4) show ?thesis by (rule that)
qed

section \<open>Properties\<close>

text \<open>C24. A sequence of messages written to a stream is read back message by message, in order,
  and what follows the frames is left untouched.\<close>

theorem frames_roundtrip:
  assumes "serde_inverse ser des" "write_frames ser vec_write s vs = Inr t"
  shows "\<exists>e. t = s @ e \<and> read_many (read_frame des eof) (length vs) (e @ r) = Inr (vs, r)"
  using assms(2)
proof (induction vs arbitrary: s)
  case (Cons v vs)
  then obtain u where u: "write_frame ser vec_write s v = Inr u" "write_frames ser vec_write u vs = Inr t"
    by (auto simp: and_then_eq_Inr)
  from read_frame_write_frame [OF assms(1) u(1), of eof]
  obtain e where e: "u = s @ e" "\<And>r. read_frame des eof (e @ r) = Inr (v, r)" by metis
  from Cons.IH [OF u(2)] e show ?case by auto
qed simp

definition example_ser :: "bool \<Rightarrow> byte list res" where
  "example_ser b = Inr [if b then 1 else 0]"

definition example_des :: "byte list \<Rightarrow> bool res" where
  "example_des bs = (if bs = [1] then Inr True else if bs = [0] then Inr False else Inl (Foreign ''''))"

lemma example_serde: "serde_inverse example_ser example_des"
  by (simp add: serde_inverse_def example_ser_def example_des_def)

theorem frames_roundtrip_witness:
  "read_many (read_frame example_des (Foreign ''eof'')) 2 [0, 0, 0, 1, 1, 0, 0, 0, 1, 0, 7] =
     Inr ([True, False], [7])"
proof -
  have w: "write_frames example_ser vec_write [] [True, False] = Inr [0, 0, 0, 1, 1, 0, 0, 0, 1, 0]"
    by code_simp
  show ?thesis
    using frames_roundtrip [OF example_serde w, of "Foreign ''eof''" "[7]"] by (simp add: numeral_2_eq_2)
qed

text \<open>A frame that arrives cut short is reported as an error, wherever the cut is: a partial
  message is never delivered.\<close>

theorem truncated_frame_is_error:
  assumes "write_frame ser vec_write [] v = Inr (p @ q)" "q \<noteq> []"
  shows "\<exists>err. read_frame des eof p = Inl err"
proof -
  from assms(1) obtain b where b: "length b \<le> MAX_FRAME_LEN"
      "write_frame_bytes vec_write [] b = Inr (p @ q)" by (auto simp: write_frame_Inr)
  from fr.truncated [OF this assms(2), of eof] show ?thesis
    by (auto simp: read_frame_def)
qed

theorem truncated_frame_is_error_witness:
  "\<exists>err. read_frame example_des (Foreign ''eof'') [0, 0, 0, 1] = Inl err"
proof -
  have w: "write_frame example_ser vec_write [] True = Inr ([0, 0, 0, 1] @ [1])" by code_simp
  show ?thesis by (rule truncated_frame_is_error [OF w]) simp
qed

text \<open>A peer cannot make the reader allocate more than \<open>MAX_FRAME_LEN\<close> bytes for one message:
  a larger announced length is refused before any of the body is read, whatever follows.\<close>

theorem oversized_frame_refused:
  assumes "MAX_FRAME_LEN < unat w"
  shows "read_frame des eof (u32_to_be_bytes w @ body) =
           Inl (Bail (''frame too large: '' @ show_nat (unat w) @ '' bytes''))"
  using assms by (simp add: read_frame_def read_frame_bytes_def)

theorem oversized_frame_refused_witness:
  "read_frame example_des (Foreign ''eof'') (u32_to_be_bytes (- 1) @ [1, 2]) =
     Inl (Bail ''frame too large: 4294967295 bytes'')"
proof -
  have u: "unat (- 1 :: u32) = 4294967295" by code_simp
  have "show_nat 4294967295 = ''4294967295''" by code_simp
  then show ?thesis
    using oversized_frame_refused [of "- 1" example_des "Foreign ''eof''" "[1, 2]"]
    by (simp add: u MAX_FRAME_LEN_def)
qed

end
