(* ===== verification/Ip.thy ===== *)
theory Ip
  imports Paths
begin

unbundle bit_operations_syntax

text \<open>
  Internet addresses as the standard library reads and prints them (\<open>core::net\<close>): the server parses
  the address a client wants a forward to listen on, and puts the client's address into the session's
  environment.
\<close>

section \<open>Reading\<close>

text \<open>Each reader returns what it read and the rest of the text, or None without consuming.\<close>

definition digit_of :: "nat \<Rightarrow> char \<Rightarrow> nat option" where
  "digit_of radix c =
     (let n = code c;
          d = (if 48 \<le> n \<and> n \<le> 57 then n - 48
               else if 97 \<le> n \<and> n \<le> 122 then n - 87
               else if 65 \<le> n \<and> n \<le> 90 then n - 55 else 36)
      in if d < radix then Some d else None)"

fun read_digits :: "nat \<Rightarrow> nat \<Rightarrow> nat \<Rightarrow> string \<Rightarrow> nat \<times> nat \<times> string" where
  "read_digits radix acc k [] = (acc, k, [])"
| "read_digits radix acc k (c # cs) =
     (case digit_of radix c of
        None \<Rightarrow> (acc, k, c # cs)
      | Some d \<Rightarrow> read_digits radix (acc * radix + d) (k + 1) cs)"

definition read_number :: "nat \<Rightarrow> nat \<Rightarrow> bool \<Rightarrow> nat \<Rightarrow> string \<Rightarrow> (nat \<times> string) option" where
  "read_number radix max_digits allow_zero_prefix bound s =
     (case read_digits radix 0 0 s of
        (v, k, rest) \<Rightarrow>
          if k = 0 \<or> max_digits < k \<or> \<not> allow_zero_prefix \<and> hd s = CHR ''0'' \<and> 1 < k \<or> bound < v
          then None else Some (v, rest))"

definition read_separator :: "char \<Rightarrow> nat \<Rightarrow> (string \<Rightarrow> ('a \<times> string) option) \<Rightarrow> string \<Rightarrow> ('a \<times> string) option" where
  "read_separator sep index inner s =
     (if index = 0 then inner s
      else case s of c # cs \<Rightarrow> if c = sep then inner cs else None | [] \<Rightarrow> None)"

fun read_octets :: "nat \<Rightarrow> nat \<Rightarrow> string \<Rightarrow> (nat list \<times> string) option" where
  "read_octets 0 i s = Some ([], s)"
| "read_octets (Suc k) i s =
     (case read_separator (CHR ''.'') i (read_number 10 3 False 255) s of
        None \<Rightarrow> None
      | Some (v, s) \<Rightarrow> map_option (\<lambda>(vs, s). (v # vs, s)) (read_octets k (i + 1) s))"

definition read_ipv4_addr :: "string \<Rightarrow> (nat list \<times> string) option" where
  "read_ipv4_addr s = read_octets 4 0 s"

text \<open>The groups from the \<open>i\<close>th on, out of \<open>i + k\<close>; an embedded IPv4 address needs two of them.\<close>

fun read_groups :: "nat \<Rightarrow> nat \<Rightarrow> string \<Rightarrow> nat list \<times> bool \<times> string" where
  "read_groups 0 i s = ([], False, s)"
| "read_groups (Suc k) i s =
     (case (if 0 < k then read_separator (CHR '':'') i read_ipv4_addr s else None) of
        Some (o4, s) \<Rightarrow> ([o4 ! 0 * 256 + o4 ! 1, o4 ! 2 * 256 + o4 ! 3], True, s)
      | None \<Rightarrow>
          (case read_separator (CHR '':'') i (read_number 16 4 True 65535) s of
             None \<Rightarrow> ([], False, s)
           | Some (g, s) \<Rightarrow> (case read_groups k (i + 1) s of (gs, v4, s) \<Rightarrow> (g # gs, v4, s))))"

definition read_ipv6_addr :: "string \<Rightarrow> (nat list \<times> string) option" where
  "read_ipv6_addr s =
     (case read_groups 8 0 s of
        (head, head_ipv4, s) \<Rightarrow>
          if length head = 8 then Some (head, s)
          else if head_ipv4 then None
          else if take 2 s \<noteq> ''::'' then None
          else
            (case read_groups (8 - (length head + 1)) 0 (drop 2 s) of
               (tail, _, s) \<Rightarrow> Some (head @ replicate (8 - length head - length tail) 0 @ tail, s)))"

definition v4_of :: "nat list \<Rightarrow> ip_addr" where
  "v4_of os = V4 (word_of_nat (foldl (\<lambda>a d. a * 256 + d) 0 os))"

definition v6_of :: "nat list \<Rightarrow> ip_addr" where
  "v6_of gs = V6 (word_of_nat (foldl (\<lambda>a d. a * 65536 + d) 0 gs))"

definition parse_ip_addr :: "string \<Rightarrow> ip_addr option" where
  "parse_ip_addr s =
     (case (case read_ipv4_addr s of
              Some (os, r) \<Rightarrow> Some (v4_of os, r)
            | None \<Rightarrow> map_option (\<lambda>(gs, r). (v6_of gs, r)) (read_ipv6_addr s)) of
        Some (ip, []) \<Rightarrow> Some ip
      | _ \<Rightarrow> None)"

definition is_loopback :: "ip_addr \<Rightarrow> bool" where
  "is_loopback ip = (case ip of V4 w \<Rightarrow> drop_bit 24 w = 127 | V6 w \<Rightarrow> w = 1)"

definition LOCALHOST :: ip_addr where
  "LOCALHOST = v4_of [127, 0, 0, 1]"

section \<open>Printing\<close>

definition v4_octets :: "u32 \<Rightarrow> nat list" where
  "v4_octets w = map (\<lambda>k. unat (drop_bit k w) mod 256) [24, 16, 8, 0]"

definition v6_groups :: "128 word \<Rightarrow> nat list" where
  "v6_groups w = map (\<lambda>k. unat (drop_bit k w) mod 65536) [112, 96, 80, 64, 48, 32, 16, 0]"

definition show_v4 :: "nat list \<Rightarrow> string" where
  "show_v4 os = join_pieces (CHR ''.'') (map show_nat os)"

fun show_hex :: "nat \<Rightarrow> string" where
  "show_hex n =
     (if n < 16 then [if n < 10 then char_of (48 + n) else char_of (87 + n)]
      else show_hex (n div 16) @ [if n mod 16 < 10 then char_of (48 + n mod 16) else char_of (87 + n mod 16)])"

declare show_hex.simps [simp del]

text \<open>The first of the longest runs of zero groups, as its start and length.\<close>

fun zero_run :: "nat list \<Rightarrow> nat \<Rightarrow> nat \<times> nat \<Rightarrow> nat \<times> nat \<Rightarrow> nat \<times> nat" where
  "zero_run [] i cur best = best"
| "zero_run (g # gs) i cur best =
     (if g = 0 then
        (let cur = (if snd cur = 0 then (i, 1) else (fst cur, snd cur + 1))
         in zero_run gs (i + 1) cur (if snd best < snd cur then cur else best))
      else zero_run gs (i + 1) (0, 0) best)"

definition show_groups :: "nat list \<Rightarrow> string" where
  "show_groups gs = join_pieces (CHR '':'') (map show_hex gs)"

definition show_v6 :: "nat list \<Rightarrow> string" where
  "show_v6 gs =
     (if take 6 gs = [0, 0, 0, 0, 0, 65535]
      then ''::ffff:'' @ show_v4 [gs ! 6 div 256, gs ! 6 mod 256, gs ! 7 div 256, gs ! 7 mod 256]
      else case zero_run gs 0 (0, 0) (0, 0) of
             (start, len) \<Rightarrow>
               if 1 < len
               then show_groups (take start gs) @ ''::'' @ show_groups (drop (start + len) gs)
               else show_groups gs)"

definition show_ip :: "ip_addr \<Rightarrow> string" where
  "show_ip ip = (case ip of V4 w \<Rightarrow> show_v4 (v4_octets w) | V6 w \<Rightarrow> show_v6 (v6_groups w))"

section \<open>Facts\<close>

lemma localhost_loopback [simp]: "is_loopback LOCALHOST"
  by (simp add: is_loopback_def LOCALHOST_def v4_of_def)

lemma parse_examples:
  "parse_ip_addr ''127.0.0.1'' = Some (V4 0x7f000001)" "parse_ip_addr ''::1'' = Some (V6 1)"
  "parse_ip_addr ''127.0.0.01'' = None" "parse_ip_addr ''localhost'' = None"
  "parse_ip_addr ''::ffff:127.0.0.1'' = Some (V6 0xffff7f000001)"
  "parse_ip_addr ''1:2:3:4:5:6:7:8'' = Some (V6 0x00010002000300040005000600070008)"
  by code_simp+

lemma show_examples:
  "show_ip (V4 0x7f000001) = ''127.0.0.1''" "show_ip (V6 1) = ''::1''"
  "show_ip (V6 0x20010db8000000000001000000000001) = ''2001:db8::1:0:0:1''"
  by code_simp+

end
