(* ===== verification/Os.thy ===== *)
theory Os
  imports Protocol Ip
begin

unbundle bit_operations_syntax

text \<open>
  \<open>hush-core/src/os.rs\<close>: the password database, the drop of privileges, signals and exit statuses,
  terminals, the state of a child before \<open>exec\<close>, and the UDP socket.  The numbers of signals, flags
  and error codes are those of Linux.

  The system calls are a parameter: a record whose fields say what each call does to a state of the
  kernel \<open>'k\<close> and what it returns.
\<close>

section \<open>System calls\<close>

record termios =
  c_iflag :: u32
  c_oflag :: u32
  c_cflag :: u32
  c_lflag :: u32

type_synonym ('k, 'v) call = "'k \<Rightarrow> 'k \<times> (io_error + 'v)"

type_synonym ('k, 'a) os = "'k \<Rightarrow> 'k \<times> 'a res"

record 'k kernel =
  k_euid :: "'k \<Rightarrow> u32"
  k_egid :: "'k \<Rightarrow> u32"
  k_initgroups :: "string \<Rightarrow> u32 \<Rightarrow> ('k, unit) call"
  k_setgid :: "u32 \<Rightarrow> ('k, unit) call"
  k_setuid :: "u32 \<Rightarrow> ('k, unit) call"
  k_getfl :: "int \<Rightarrow> ('k, u32) call"
  k_setfl :: "int \<Rightarrow> u32 \<Rightarrow> ('k, unit) call"
  k_getfd :: "int \<Rightarrow> ('k, u32) call"
  k_setfd :: "int \<Rightarrow> u32 \<Rightarrow> ('k, unit) call"
  k_dupfd_cloexec :: "int \<Rightarrow> ('k, int) call"
  k_openpty :: "TermSize \<Rightarrow> ('k, int \<times> int) call"
  k_tcgetattr :: "int \<Rightarrow> ('k, termios) call"
  k_tcsetattr :: "int \<Rightarrow> termios \<Rightarrow> ('k, unit) call"
  k_winsize :: "int \<Rightarrow> TermSize \<Rightarrow> ('k, unit) call"
  k_setsid :: "('k, unit) call"
  k_ctty :: "int \<Rightarrow> ('k, unit) call"
  k_signal_default :: "int \<Rightarrow> ('k, unit) call"
  k_unblock_all :: "('k, unit) call"
  k_kill :: "int \<Rightarrow> int \<Rightarrow> ('k, unit) call"
  k_getrlimit :: "('k, u64 \<times> u64) call"
  k_setrlimit :: "u64 \<times> u64 \<Rightarrow> ('k, unit) call"
  k_io_text :: "io_error \<Rightarrow> string"

definition os_return :: "'a \<Rightarrow> ('k, 'a) os" where
  "os_return x k = (k, Inr x)"

definition os_bind :: "('k, 'a) os \<Rightarrow> ('a \<Rightarrow> ('k, 'b) os) \<Rightarrow> ('k, 'b) os" where
  "os_bind m f k = (case m k of (k, Inl e) \<Rightarrow> (k, Inl e) | (k, Inr x) \<Rightarrow> f x k)"

text \<open>A call whose failure is reported with the text of the system's last error, and one whose
  failure is passed on.\<close>

definition or_bail :: "'k kernel \<Rightarrow> string \<Rightarrow> ('k, 'a) call \<Rightarrow> ('k, 'a) os" where
  "or_bail K msg c k =
     (case c k of (k, Inl e) \<Rightarrow> (k, Inl (Bail (msg @ '' failed: '' @ k_io_text K e))) | (k, Inr x) \<Rightarrow> (k, Inr x))"

definition or_io :: "('k, 'a) call \<Rightarrow> ('k, 'a) os" where
  "or_io c k = (case c k of (k, r) \<Rightarrow> (k, io_res r))"

section \<open>Users\<close>

record UserInfo =
  ui_uid :: u32
  ui_gid :: u32
  ui_home :: string

text \<open>An entry of the password database; a null pointer is None.\<close>

record passwd =
  pw_name :: "string option"
  pw_uid :: u32
  pw_gid :: u32
  pw_dir :: "string option"
  pw_shell :: "string option"

text \<open>What \<open>getpwnam_r\<close> and \<open>getpwuid_r\<close> return for a buffer length: an error number, or the entry
  if there is one.\<close>

type_synonym getpw = "nat \<Rightarrow> int + passwd option"

definition DEFAULT_PASSWD_BUFFER_LEN :: nat where "DEFAULT_PASSWD_BUFFER_LEN = 16 * 1024"

definition ERANGE :: int where "ERANGE = 34"

definition from_raw_os_error :: "int \<Rightarrow> io_error" where
  "from_raw_os_error n =
     IoError (if n = 2 then NotFound else if n = 17 then AlreadyExists else if n = 4 then Interrupted
              else if n = 11 then WouldBlock else if n = 99 then AddrNotAvailable else OtherKind) (Some n)"

definition is_root :: "'k kernel \<Rightarrow> 'k \<Rightarrow> bool" where
  "is_root K k = (k_euid K k = 0)"

definition first_buffer_len :: "int \<Rightarrow> nat" where
  "first_buffer_len sysconf_size = (if 0 < sysconf_size then nat sysconf_size else DEFAULT_PASSWD_BUFFER_LEN)"

definition current_username_from_passwd :: "int \<Rightarrow> getpw \<Rightarrow> string option" where
  "current_username_from_passwd sysconf_size getpwuid_r =
     (case getpwuid_r (first_buffer_len sysconf_size) of
        Inl rc \<Rightarrow> None
      | Inr None \<Rightarrow> None
      | Inr (Some pwd) \<Rightarrow> map_option to_string_lossy (pw_name pwd))"

definition current_username ::
  "'k kernel \<Rightarrow> int \<Rightarrow> getpw \<Rightarrow> (string \<Rightarrow> string option) \<Rightarrow> 'k \<Rightarrow> string" where
  "current_username K sysconf_size getpwuid_r env k =
     (case current_username_from_passwd sysconf_size getpwuid_r of
        Some name \<Rightarrow> name
      | None \<Rightarrow>
          (case env ''USER'' of
             Some name \<Rightarrow> name
           | None \<Rightarrow> (case env ''LOGNAME'' of Some name \<Rightarrow> name | None \<Rightarrow> show_nat (unat (k_euid K k)))))"

text \<open>The loop of \<open>passwd_for_user\<close>, which doubles the buffer while it is too small; lengths are
  64-bit.\<close>

partial_function (option) passwd_loop :: "getpw \<Rightarrow> nat \<Rightarrow> passwd option res option" where
  "passwd_loop getpwnam_r buffer_len =
     (case getpwnam_r buffer_len of
        Inl rc \<Rightarrow>
          if rc = ERANGE then
            (if 2 ^ 64 \<le> buffer_len * 2 then Some (Inl (Bail ''passwd lookup buffer is too large''))
             else passwd_loop getpwnam_r (buffer_len * 2))
          else Some (Inl (Ctx ''look up user'' (Io (from_raw_os_error rc))))
      | Inr r \<Rightarrow> Some (Inr r))"

definition passwd_for_user ::
  "int \<Rightarrow> (string \<Rightarrow> getpw) \<Rightarrow> string \<Rightarrow> (passwd \<Rightarrow> 't) \<Rightarrow> 't option res option" where
  "passwd_for_user sysconf_size getpwnam_r user extract =
     (if CHR 0x00 \<in> set user then Some (Inl (Ctx ''username contains NUL'' (Foreign ''NulError'')))
      else map_option (\<lambda>r. and_then r (\<lambda>e. Inr (map_option extract e)))
             (passwd_loop (getpwnam_r user) (first_buffer_len sysconf_size)))"

definition user_info_for_user :: "int \<Rightarrow> (string \<Rightarrow> getpw) \<Rightarrow> string \<Rightarrow> UserInfo option res option" where
  "user_info_for_user sysconf_size getpwnam_r user =
     passwd_for_user sysconf_size getpwnam_r user (\<lambda>pwd.
       \<lparr>ui_uid = pw_uid pwd, ui_gid = pw_gid pwd,
        ui_home = (case pw_dir pwd of None \<Rightarrow> ''/'' | Some d \<Rightarrow> to_string_lossy d)\<rparr>)"

definition home_for_user :: "int \<Rightarrow> (string \<Rightarrow> getpw) \<Rightarrow> string \<Rightarrow> string option res option" where
  "home_for_user sysconf_size getpwnam_r user =
     map_option (\<lambda>r. and_then r (\<lambda>i. Inr (map_option ui_home i))) (user_info_for_user sysconf_size getpwnam_r user)"

definition uid_gid_for_user :: "int \<Rightarrow> (string \<Rightarrow> getpw) \<Rightarrow> string \<Rightarrow> (u32 \<times> u32) option res option" where
  "uid_gid_for_user sysconf_size getpwnam_r user =
     map_option (\<lambda>r. and_then r (\<lambda>i. Inr (map_option (\<lambda>i. (ui_uid i, ui_gid i)) i)))
       (user_info_for_user sysconf_size getpwnam_r user)"

definition passwd_string_for_user ::
  "int \<Rightarrow> (string \<Rightarrow> getpw) \<Rightarrow> string \<Rightarrow> (passwd \<Rightarrow> string option) \<Rightarrow> string option res option" where
  "passwd_string_for_user sysconf_size getpwnam_r user field =
     map_option (\<lambda>r. and_then r (\<lambda>v. Inr (Option.bind v id)))
       (passwd_for_user sysconf_size getpwnam_r user (\<lambda>pwd. map_option to_string_lossy (field pwd)))"

definition shell_for_user :: "int \<Rightarrow> (string \<Rightarrow> getpw) \<Rightarrow> string \<Rightarrow> string option option" where
  "shell_for_user sysconf_size getpwnam_r user =
     map_option (\<lambda>r. Option.bind (result_ok r) id) (passwd_string_for_user sysconf_size getpwnam_r user pw_shell)"

text \<open>\<open>lookup\<close> is the result of \<open>user_info_for_user\<close>.\<close>

definition drop_privileges_to_user ::
  "'k kernel \<Rightarrow> (string \<Rightarrow> UserInfo option res) \<Rightarrow> string \<Rightarrow> ('k, UserInfo) os" where
  "drop_privileges_to_user K lookup user k =
     (case and_then (lookup user) (ok_or (Bail ''unknown user'')) of
        Inl e \<Rightarrow> (k, Inl e)
      | Inr info \<Rightarrow>
          if k_euid K k \<noteq> 0 then
            (if k_euid K k \<noteq> ui_uid info
             then (k, Inl (Bail (''cannot switch from uid '' @ show_nat (unat (k_euid K k)) @ '' to uid ''
                                 @ show_nat (unat (ui_uid info)))))
             else (k, Inr info))
          else if CHR 0x00 \<in> set user then (k, Inl (Ctx ''username contains NUL'' (Foreign ''NulError'')))
          else
            os_bind (or_bail K ''initgroups'' (k_initgroups K user (ui_gid info))) (\<lambda>_.
            os_bind (or_bail K ''setgid'' (k_setgid K (ui_gid info))) (\<lambda>_.
            os_bind (or_bail K ''setuid'' (k_setuid K (ui_uid info))) (\<lambda>_ k.
              if k_euid K k \<noteq> ui_uid info \<or> k_egid K k \<noteq> ui_gid info
              then (k, Inl (Bail ''privilege drop did not take effect''))
              else (k, Inr info)))) k)"

section \<open>Limits, signals and exit statuses\<close>

definition raise_nofile_soft_limit_to_hard :: "'k kernel \<Rightarrow> ('k, unit) os" where
  "raise_nofile_soft_limit_to_hard K =
     os_bind (or_bail K ''getrlimit(RLIMIT_NOFILE)'' (k_getrlimit K)) (\<lambda>(rlim_cur, rlim_max).
       if rlim_max \<le> rlim_cur then os_return ()
       else or_bail K ''setrlimit(RLIMIT_NOFILE)'' (k_setrlimit K (rlim_max, rlim_max)))"

fun remote_signal_as_raw :: "RemoteSignal \<Rightarrow> int" where
  "remote_signal_as_raw SIGABRT = 6"
| "remote_signal_as_raw SIGALRM = 14"
| "remote_signal_as_raw SIGFPE = 8"
| "remote_signal_as_raw SIGHUP = 1"
| "remote_signal_as_raw SIGILL = 4"
| "remote_signal_as_raw SIGINT = 2"
| "remote_signal_as_raw SIGKILL = 9"
| "remote_signal_as_raw SIGPIPE = 13"
| "remote_signal_as_raw SIGQUIT = 3"
| "remote_signal_as_raw SIGSEGV = 11"
| "remote_signal_as_raw SIGTERM = 15"
| "remote_signal_as_raw SIGUSR1 = 10"
| "remote_signal_as_raw SIGUSR2 = 12"

definition remote_signal_from_raw :: "int \<Rightarrow> RemoteSignal option" where
  "remote_signal_from_raw n =
     (if n = 6 then Some SIGABRT else if n = 14 then Some SIGALRM else if n = 8 then Some SIGFPE
      else if n = 1 then Some SIGHUP else if n = 4 then Some SIGILL else if n = 2 then Some SIGINT
      else if n = 9 then Some SIGKILL else if n = 13 then Some SIGPIPE else if n = 3 then Some SIGQUIT
      else if n = 11 then Some SIGSEGV else if n = 15 then Some SIGTERM else if n = 10 then Some SIGUSR1
      else if n = 12 then Some SIGUSR2 else None)"

text \<open>\<open>ExitStatus\<close> is the word \<open>wait\<close> returns: the low seven bits are the signal that ended the
  process, zero for a process that exited, whose code is then in the next byte.\<close>

definition status_code :: "u32 \<Rightarrow> int option" where
  "status_code st = (if st AND 0x7f = 0 then Some (uint (drop_bit 8 st AND 0xff)) else None)"

definition status_signal :: "u32 \<Rightarrow> int option" where
  "status_signal st =
     (if st AND 0x7f \<noteq> 0 \<and> st AND 0x7f \<noteq> 0x7f then Some (uint (st AND 0x7f)) else None)"

definition process_exit_from_status :: "u32 \<Rightarrow> ProcessExit" where
  "process_exit_from_status status =
     (case status_code status of
        Some c \<Rightarrow> ExitCode c
      | None \<Rightarrow>
          (case Option.bind (status_signal status) remote_signal_from_raw of
             Some signal \<Rightarrow> ExitSignal signal
           | None \<Rightarrow> ExitCode 255))"

definition send_process_group_signal :: "'k kernel \<Rightarrow> int \<Rightarrow> RemoteSignal \<Rightarrow> ('k, unit) os" where
  "send_process_group_signal K pid signal =
     or_bail K ''kill process group'' (k_kill K (- pid) (remote_signal_as_raw signal))"

section \<open>Terminals\<close>

definition O_NONBLOCK :: u32 where "O_NONBLOCK = 0x800"

definition FD_CLOEXEC :: u32 where "FD_CLOEXEC = 1"

definition EIO :: int where "EIO = 5"

definition set_nonblocking :: "'k kernel \<Rightarrow> int \<Rightarrow> ('k, unit) os" where
  "set_nonblocking K fd =
     os_bind (or_bail K ''fcntl(F_GETFL)'' (k_getfl K fd)) (\<lambda>flags.
       or_bail K ''fcntl(F_SETFL)'' (k_setfl K fd (flags OR O_NONBLOCK)))"

definition set_cloexec :: "'k kernel \<Rightarrow> int \<Rightarrow> ('k, unit) os" where
  "set_cloexec K fd =
     os_bind (or_bail K ''fcntl(F_GETFD)'' (k_getfd K fd)) (\<lambda>flags.
       or_bail K ''fcntl(F_SETFD)'' (k_setfd K fd (flags OR FD_CLOEXEC)))"

definition configure_pty_slave :: "'k kernel \<Rightarrow> int \<Rightarrow> ('k, unit) os" where
  "configure_pty_slave K fd =
     os_bind (or_bail K ''tcgetattr pty slave'' (k_tcgetattr K fd)) (\<lambda>t.
       or_bail K ''tcsetattr pty slave'' (k_tcsetattr K fd
         (t\<lparr>c_iflag := c_iflag t OR (0x2 OR 0x100 OR 0x400) OR 0x4000,
            c_oflag := c_oflag t OR (0x1 OR 0x4),
            c_cflag := c_cflag t OR (0x80 OR 0x30),
            c_lflag := c_lflag t OR (0x8 OR 0x10 OR 0x20 OR 0x2 OR 0x8000 OR 0x1)\<rparr>)))"

record OpenPty =
  pty_master :: int
  pty_slave :: int

definition open_pty :: "'k kernel \<Rightarrow> TermSize \<Rightarrow> ('k, OpenPty) os" where
  "open_pty K sz =
     os_bind (or_bail K ''openpty'' (k_openpty K sz)) (\<lambda>(master, slave).
     os_bind (set_cloexec K master) (\<lambda>_.
     os_bind (set_cloexec K slave) (\<lambda>_.
     os_bind (configure_pty_slave K slave) (\<lambda>_.
       os_return \<lparr>pty_master = master, pty_slave = slave\<rparr>))))"

definition set_winsize :: "'k kernel \<Rightarrow> int \<Rightarrow> TermSize \<Rightarrow> ('k, unit) os" where
  "set_winsize K fd sz = or_bail K ''ioctl(TIOCSWINSZ)'' (k_winsize K fd sz)"

definition dup_fd :: "'k kernel \<Rightarrow> int \<Rightarrow> ('k, int) os" where
  "dup_fd K fd = or_bail K ''fcntl(F_DUPFD_CLOEXEC)'' (k_dupfd_cloexec K fd)"

text \<open>
  A poll of the master end of a terminal sees a sequence of readiness reports: the descriptor is not
  ready, asking fails, or it is ready and the call on it has the given result.  A call that would
  block clears the readiness and asks again.
\<close>

datatype 'v readiness = NotReady | ReadyFails io_error | IoReady "io_error + 'v"

datatype 'v pty_poll = PtyPending | PtyReady 'v

fun pty_poll_read :: "byte list readiness list \<Rightarrow> (io_error + byte list) pty_poll" where
  "pty_poll_read [] = PtyPending"
| "pty_poll_read (NotReady # rs) = PtyPending"
| "pty_poll_read (ReadyFails e # rs) = PtyReady (Inl e)"
| "pty_poll_read (IoReady (Inr bytes) # rs) = PtyReady (Inr bytes)"
| "pty_poll_read (IoReady (Inl e) # rs) =
     (if raw_os_error e = Some EIO then PtyReady (Inr [])
      else if io_error_kind e = WouldBlock then pty_poll_read rs
      else PtyReady (Inl e))"

fun pty_poll_write :: "nat readiness list \<Rightarrow> (io_error + nat) pty_poll" where
  "pty_poll_write [] = PtyPending"
| "pty_poll_write (NotReady # rs) = PtyPending"
| "pty_poll_write (ReadyFails e # rs) = PtyReady (Inl e)"
| "pty_poll_write (IoReady (Inr n) # rs) = PtyReady (Inr n)"
| "pty_poll_write (IoReady (Inl e) # rs) =
     (if io_error_kind e = WouldBlock then pty_poll_write rs else PtyReady (Inl e))"

section \<open>A child before exec\<close>

definition RESET_SIGNALS :: "int list" where
  "RESET_SIGNALS = [17, 1, 2, 3, 15, 14, 13, 21, 22]"

fun reset_signals :: "'k kernel \<Rightarrow> int list \<Rightarrow> ('k, unit) os" where
  "reset_signals K [] = os_return ()"
| "reset_signals K (signo # rest) = os_bind (or_io (k_signal_default K signo)) (\<lambda>_. reset_signals K rest)"

definition reset_child_signal_state :: "'k kernel \<Rightarrow> ('k, unit) os" where
  "reset_child_signal_state K =
     os_bind (reset_signals K RESET_SIGNALS) (\<lambda>_. or_io (k_unblock_all K))"

definition child_pre_exec :: "'k kernel \<Rightarrow> bool \<Rightarrow> ('k, unit) os" where
  "child_pre_exec K controlling_tty =
     os_bind (reset_child_signal_state K) (\<lambda>_.
     os_bind (or_io (k_setsid K)) (\<lambda>_.
       if controlling_tty then or_io (k_ctty K 0) else os_return ()))"

section \<open>The UDP socket\<close>

definition UDP_RECV_BUFFER :: nat where "UDP_RECV_BUFFER = 8 * 2 ^ 20"

text \<open>The sizes the loop of \<open>set_recv_buffer\<close> asks for, the last of which the socket accepted unless
  none was.\<close>

function recv_buffer_sizes :: "(nat \<Rightarrow> bool) \<Rightarrow> nat \<Rightarrow> nat list" where
  "recv_buffer_sizes accepts sz =
     (if sz \<le> 256 * 2 ^ 10 then []
      else if accepts sz then [sz] else sz # recv_buffer_sizes accepts (sz div 2))"
  by pat_completeness auto

termination
  by (relation "measure snd") auto

declare recv_buffer_sizes.simps [simp del]

datatype socket_call =
    NewSocket bool | SetOnlyV6 bool | SetReuseAddress bool | SetRecvBufferSize nat | BindTo socket_addr
  | ConnectTo socket_addr | SendEmpty

definition set_recv_buffer :: "(socket_call \<Rightarrow> io_error option) \<Rightarrow> socket_call list" where
  "set_recv_buffer answer =
     map SetRecvBufferSize (recv_buffer_sizes (\<lambda>n. answer (SetRecvBufferSize n) = None) UDP_RECV_BUFFER)"

text \<open>The calls \<open>bind_udp_socket\<close> makes and its result; \<open>answer\<close> gives the error of a call that fails.\<close>

fun run_calls :: "(socket_call \<Rightarrow> io_error option) \<Rightarrow> socket_call list \<Rightarrow> socket_call list \<times> (io_error + unit)" where
  "run_calls answer [] = ([], Inr ())"
| "run_calls answer (c # cs) =
     (case answer c of
        Some e \<Rightarrow> ([c], Inl e)
      | None \<Rightarrow> (case run_calls answer cs of (done_calls, r) \<Rightarrow> (c # done_calls, r)))"

definition bind_udp_socket ::
  "(socket_call \<Rightarrow> io_error option) \<Rightarrow> socket_addr \<Rightarrow> socket_call list \<times> (io_error + unit)" where
  "bind_udp_socket answer addr =
     (let v6 = \<not> is_ipv4 (sa_ip addr)
      in case run_calls answer ([NewSocket v6] @ (if v6 then [SetOnlyV6 False] else []) @ [SetReuseAddress True]) of
           (calls, Inl e) \<Rightarrow> (calls, Inl e)
         | (calls, Inr _) \<Rightarrow>
             (case run_calls answer [BindTo addr] of
                (bound, r) \<Rightarrow> (calls @ set_recv_buffer answer @ bound, r)))"

text \<open>The interfaces \<open>getifaddrs\<close> lists: the address, if it has one of the two families, and what
  \<open>if_nametoindex\<close> says of the name, zero being an error.\<close>

record ifaddr =
  ifa_addr :: "ip_addr option"
  ifa_index :: u32

fun interface_index_in :: "ifaddr list \<Rightarrow> ip_addr \<Rightarrow> u32 option" where
  "interface_index_in [] ip = None"
| "interface_index_in (entry # rest) ip =
     (if ifa_addr entry = Some ip \<and> ifa_index entry \<noteq> 0 then Some (ifa_index entry)
      else interface_index_in rest ip)"

definition interface_index_for_ip :: "ifaddr list option \<Rightarrow> ip_addr \<Rightarrow> u32 option" where
  "interface_index_for_ip list ip = Option.bind list (\<lambda>l. interface_index_in l ip)"

section \<open>Facts\<close>

lemma os_bind_Inr:
  "os_bind m f k = (k', Inr y) \<longleftrightarrow> (\<exists>k1 x. m k = (k1, Inr x) \<and> f x k1 = (k', Inr y))"
  by (auto simp: os_bind_def split: prod.splits sum.splits)

lemma or_bail_Inr: "or_bail K msg c k = (k', Inr x) \<longleftrightarrow> c k = (k', Inr x)"
  by (auto simp: or_bail_def split: prod.splits sum.splits)

lemma or_io_Inr: "or_io c k = (k', Inr x) \<longleftrightarrow> c k = (k', Inr x)"
  by (auto simp: or_io_def split: prod.splits)

lemmas os_Inr = os_bind_Inr or_bail_Inr or_io_Inr

lemma remote_signal_roundtrip [simp]: "remote_signal_from_raw (remote_signal_as_raw s) = Some s"
  by (cases s) (simp_all add: remote_signal_from_raw_def)

lemma remote_signal_from_raw_Some:
  "remote_signal_from_raw n = Some s \<longleftrightarrow> n = remote_signal_as_raw s"
  by (cases s) (auto simp: remote_signal_from_raw_def split: if_splits)


lemma passwd_loop_returns: "0 < n \<Longrightarrow> \<exists>r. passwd_loop g n = Some r"
proof (induction "2 ^ 64 - n" arbitrary: n rule: less_induct)
  case less
  show ?case
  proof (cases "g n = Inl ERANGE \<and> n * 2 < 2 ^ 64")
    case True
    then have "2 ^ 64 - n * 2 < 2 ^ 64 - n" "0 < n * 2"
      using less.prems by auto
    from less.hyps[OF this] True show ?thesis
      by (subst passwd_loop.simps) simp
  next
    case False
    then show ?thesis
      by (subst passwd_loop.simps) (auto split: sum.splits)
  qed
qed

lemma first_buffer_len_pos: "0 < first_buffer_len s"
  by (simp add: first_buffer_len_def DEFAULT_PASSWD_BUFFER_LEN_def)

lemma passwd_loop_finds:
  assumes "\<And>m. m < need \<Longrightarrow> g m = Inl ERANGE" "\<And>m. need \<le> m \<Longrightarrow> g m = Inr e" "need \<le> 2 ^ 63"
  shows "0 < n \<Longrightarrow> passwd_loop g n = Some (Inr e)"
proof (induction "need - n" arbitrary: n rule: less_induct)
  case less
  show ?case
  proof (cases "n < need")
    case True
    then have "need - n * 2 < need - n" "0 < n * 2" "n * 2 < 2 ^ 64"
      using less.prems assms(3) by auto
    with less.hyps[OF this(1,2)] assms(1)[OF True] show ?thesis
      by (subst passwd_loop.simps) simp
  next
    case False
    with assms(2) show ?thesis
      by (subst passwd_loop.simps) simp
  qed
qed

text \<open>Looking a user up (\<open>passwd_for_user\<close>) always returns, and when the database needs a buffer of
  some length for the entry (any up to half the address space), finds exactly what the database
  holds, whatever length the system suggested first: the doubling neither loops for ever nor gives
  up early nor reports an existing user as unknown.
\<close>

theorem passwd_lookup_complete:
  assumes "CHR 0x00 \<notin> set user" "need \<le> 2 ^ 63"
    and "\<And>m. m < need \<Longrightarrow> getpwnam_r user m = Inl ERANGE"
    and "\<And>m. need \<le> m \<Longrightarrow> getpwnam_r user m = Inr entry"
  shows "passwd_for_user sysconf_size getpwnam_r user extract = Some (Inr (map_option extract entry))"
  using passwd_loop_finds[OF assms(3,4,2) first_buffer_len_pos] assms(1)
  by (simp add: passwd_for_user_def)

definition example_db :: "string \<Rightarrow> getpw" where
  "example_db user m =
     (if m < 100000 then Inl ERANGE
      else Inr (if user = ''ada'' then Some \<lparr>pw_name = Some ''ada'', pw_uid = 1000, pw_gid = 100,
                                          pw_dir = Some ''/home/ada'', pw_shell = None\<rparr> else None))"

theorem passwd_lookup_complete_witness:
  "passwd_for_user 1024 example_db ''ada'' pw_uid = Some (Inr (Some 1000))"
proof -
  have "passwd_for_user 1024 example_db ''ada'' pw_uid
        = Some (Inr (map_option pw_uid (Some \<lparr>pw_name = Some ''ada'', pw_uid = 1000, pw_gid = 100,
                                          pw_dir = Some ''/home/ada'', pw_shell = None\<rparr>)))"
    by (rule passwd_lookup_complete[where need = 100000]) (simp_all add: example_db_def)
  then show ?thesis
    by simp
qed

text \<open>
  What the manual pages promise of the three calls when root makes them: \<open>initgroups\<close> gives the
  process the groups of the user and keeps its user and group, \<open>setgid\<close> and \<open>setuid\<close> keep the
  supplementary groups, and \<open>setuid\<close> by root sets the real and saved user with the effective one.
\<close>

record cred =
  cr_ruid :: u32
  cr_euid :: u32
  cr_suid :: u32
  cr_gids :: "u32 \<times> u32 \<times> u32"
  cr_groups :: "u32 list"

definition cred_laws :: "'k kernel \<Rightarrow> ('k \<Rightarrow> cred) \<Rightarrow> (string \<Rightarrow> u32 \<Rightarrow> u32 list) \<Rightarrow> bool" where
  "cred_laws K cr member_of \<longleftrightarrow>
     (\<forall>k. k_euid K k = cr_euid (cr k) \<and> k_egid K k = fst (snd (cr_gids (cr k)))) \<and>
     (\<forall>u g k k'. k_initgroups K u g k = (k', Inr ()) \<longrightarrow> cr k' = (cr k)\<lparr>cr_groups := member_of u g\<rparr>) \<and>
     (\<forall>g k k'. k_setgid K g k = (k', Inr ()) \<longrightarrow> cr_euid (cr k) = 0 \<longrightarrow> cr k' = (cr k)\<lparr>cr_gids := (g, g, g)\<rparr>) \<and>
     (\<forall>u k k'. k_setuid K u k = (k', Inr ()) \<longrightarrow> cr_euid (cr k) = 0 \<longrightarrow>
        cr k' = (cr k)\<lparr>cr_ruid := u, cr_euid := u, cr_suid := u\<rparr>)"

text \<open>C15. When \<open>drop_privileges_to_user\<close> succeeds in a process of root, the process is the user for good:
  its real, effective and saved user are the user's, its real, effective and saved group are the
  user's, and its supplementary groups are those of the user, none of root's being left; in a process
  of another user it succeeds only if that is the user asked for, and changes nothing.
\<close>

theorem drop_privileges_complete:
  assumes "cred_laws K cr member_of"
    and "drop_privileges_to_user K lookup user k = (k', Inr info)"
  shows "lookup user = Inr (Some info) \<and>
         (if cr_euid (cr k) = 0
          then cr k' = \<lparr>cr_ruid = ui_uid info, cr_euid = ui_uid info, cr_suid = ui_uid info,
                        cr_gids = (ui_gid info, ui_gid info, ui_gid info),
                        cr_groups = member_of user (ui_gid info)\<rparr>
          else k' = k \<and> cr_euid (cr k) = ui_uid info)"
proof -
  have found: "lookup user = Inr (Some info)"
    using assms(2)
    by (auto simp: drop_privileges_to_user_def os_Inr and_then_eq_Inr split: sum.splits if_splits)
  show ?thesis
  proof (cases "cr_euid (cr k) = 0")
    case True
    with assms found obtain k1 k2 where
      calls: "k_initgroups K user (ui_gid info) k = (k1, Inr ())" "k_setgid K (ui_gid info) k1 = (k2, Inr ())"
        "k_setuid K (ui_uid info) k2 = (k', Inr ())"
      by (auto simp: drop_privileges_to_user_def os_Inr cred_laws_def split: if_splits)
    have c1: "cr k1 = (cr k)\<lparr>cr_groups := member_of user (ui_gid info)\<rparr>"
      using assms(1) calls(1) unfolding cred_laws_def by blast
    with True have c2: "cr k2 = (cr k1)\<lparr>cr_gids := (ui_gid info, ui_gid info, ui_gid info)\<rparr>"
      using assms(1) calls(2) by (simp add: cred_laws_def)
    with c1 True have "cr k' = (cr k2)\<lparr>cr_ruid := ui_uid info, cr_euid := ui_uid info, cr_suid := ui_uid info\<rparr>"
      using assms(1) calls(3) by (simp add: cred_laws_def)
    with c1 c2 True found show ?thesis
      by simp
  next
    case False
    with assms found show ?thesis
      by (auto simp: drop_privileges_to_user_def cred_laws_def split: if_splits)
  qed
qed

definition example_kernel :: "cred kernel" where
  "example_kernel =
     \<lparr>k_euid = cr_euid, k_egid = (\<lambda>k. fst (snd (cr_gids k))),
      k_initgroups = (\<lambda>u g k. (k\<lparr>cr_groups := [g, 7]\<rparr>, Inr ())),
      k_setgid = (\<lambda>g k. (if cr_euid k = 0 then k\<lparr>cr_gids := (g, g, g)\<rparr> else k, Inr ())),
      k_setuid = (\<lambda>u k. (if cr_euid k = 0 then k\<lparr>cr_ruid := u, cr_euid := u, cr_suid := u\<rparr> else k, Inr ())),
      k_getfl = (\<lambda>fd k. (k, Inr 0)), k_setfl = (\<lambda>fd f k. (k, Inr ())),
      k_getfd = (\<lambda>fd k. (k, Inr 0)), k_setfd = (\<lambda>fd f k. (k, Inr ())),
      k_dupfd_cloexec = (\<lambda>fd k. (k, Inr (fd + 1))), k_openpty = (\<lambda>s k. (k, Inr (3, 4))),
      k_tcgetattr = (\<lambda>fd k. (k, Inr \<lparr>c_iflag = 0, c_oflag = 0, c_cflag = 0, c_lflag = 0\<rparr>)),
      k_tcsetattr = (\<lambda>fd t k. (k, Inr ())), k_winsize = (\<lambda>fd s k. (k, Inr ())),
      k_setsid = (\<lambda>k. (k, Inr ())), k_ctty = (\<lambda>fd k. (k, Inr ())),
      k_signal_default = (\<lambda>n k. (k, Inr ())), k_unblock_all = (\<lambda>k. (k, Inr ())),
      k_kill = (\<lambda>p n k. (k, Inr ())), k_getrlimit = (\<lambda>k. (k, Inr (256, 1024))),
      k_setrlimit = (\<lambda>l k. (k, Inr ())), k_io_text = (\<lambda>e. ''error'')\<rparr>"

definition root_cred :: cred where
  "root_cred = \<lparr>cr_ruid = 0, cr_euid = 0, cr_suid = 0, cr_gids = (0, 0, 0), cr_groups = [0, 1]\<rparr>"

definition example_user :: UserInfo where
  "example_user = \<lparr>ui_uid = 1000, ui_gid = 100, ui_home = ''/home/ada''\<rparr>"

lemma example_kernel_laws: "cred_laws example_kernel id (\<lambda>u g. [g, 7])"
  by (auto simp: cred_laws_def example_kernel_def)

theorem drop_privileges_complete_witness:
  "snd (drop_privileges_to_user example_kernel (\<lambda>u. Inr (Some example_user)) ''ada'' root_cred) = Inr example_user \<and>
   fst (drop_privileges_to_user example_kernel (\<lambda>u. Inr (Some example_user)) ''ada'' root_cred)
     = \<lparr>cr_ruid = 1000, cr_euid = 1000, cr_suid = 1000, cr_gids = (100, 100, 100), cr_groups = [100, 7]\<rparr>"
proof -
  obtain k' where run: "drop_privileges_to_user example_kernel (\<lambda>u. Inr (Some example_user)) ''ada'' root_cred
      = (k', Inr example_user)"
    by (simp add: drop_privileges_to_user_def example_kernel_def example_user_def root_cred_def os_bind_def or_bail_def)
  from drop_privileges_complete[OF example_kernel_laws run] run show ?thesis
    by (simp add: root_cred_def example_user_def)
qed

lemma killed_status:
  assumes "0 < n" "n < 0x7f"
  shows "status_code (word_of_int n OR (if core then 0x80 else 0)) = None"
    "status_signal (word_of_int n OR (if core then 0x80 else 0)) = Some n"
proof -
  have low: "(word_of_int n OR (if core then 0x80 else 0)) AND 0x7f = (word_of_int n :: u32)"
  proof -
    have "take_bit 7 (word_of_int n :: u32) = word_of_int n"
      using assms by (simp add: take_bit_of_int take_bit_int_eq_self)
    moreover have "take_bit 7 (if core then 0x80 else 0 :: u32) = 0"
      by simp
    moreover have "(0x7f :: u32) = mask 7"
      by (simp add: mask_eq_exp_minus_1)
    ultimately show ?thesis
      by (simp only: take_bit_or or.right_neutral flip: take_bit_eq_mask)
  qed
  have "uint (word_of_int n :: u32) = n"
    using assms by (simp add: uint_word_of_int)
  moreover from this assms have "(word_of_int n :: u32) \<noteq> 0" "(word_of_int n :: u32) \<noteq> 0x7f"
    by auto
  ultimately show "status_code (word_of_int n OR (if core then 0x80 else 0)) = None"
    "status_signal (word_of_int n OR (if core then 0x80 else 0)) = Some n"
    unfolding status_code_def status_signal_def low by simp_all
qed

lemma exited_status:
  "status_code (push_bit 8 (ucast c)) = Some (uint (c :: byte))"
proof -
  have m: "(0x7f :: u32) = mask 7" "(0xff :: u32) = mask 8"
    by (simp_all add: mask_eq_exp_minus_1)
  have "take_bit 7 (push_bit 8 (ucast c :: u32)) = 0"
    by (simp add: take_bit_push_bit)
  moreover have "take_bit 8 (drop_bit 8 (push_bit 8 (ucast c :: u32))) = ucast c"
    by (rule bit_eqI) (auto simp: bit_simps dest: bit_imp_le_length)
  ultimately show ?thesis
    by (simp add: status_code_def m uint_up_ucast is_up flip: take_bit_eq_mask)
qed

lemma remote_signal_as_raw_range: "0 < remote_signal_as_raw s" "remote_signal_as_raw s < 0x7f"
  by (cases s; simp)+

text \<open>The exit status the client is told is the one the process had: a process that exits with a
  code is reported with that code, one ended by a signal of the protocol with that signal, and one
  ended by any other signal with code 255.
\<close>

theorem exit_status_reported:
  "process_exit_from_status (push_bit 8 (ucast c)) = ExitCode (uint (c :: byte)) \<and>
   process_exit_from_status (word_of_int (remote_signal_as_raw s) OR (if core then 0x80 else 0)) = ExitSignal s \<and>
   (\<forall>n. 0 < n \<and> n < 0x7f \<and> n \<notin> range remote_signal_as_raw \<longrightarrow>
      process_exit_from_status (word_of_int n OR (if core then 0x80 else 0)) = ExitCode 255)"
  using exited_status[of c] killed_status[OF remote_signal_as_raw_range, of s core] killed_status[of _ core]
  by (auto simp: process_exit_from_status_def remote_signal_from_raw_Some split: option.splits)

theorem exit_status_reported_witness:
  "process_exit_from_status 0x300 = ExitCode 3 \<and> process_exit_from_status 15 = ExitSignal SIGTERM \<and>
   process_exit_from_status 31 = ExitCode 255"
proof -
  have "(31 :: int) \<notin> range remote_signal_as_raw"
    using remote_signal_from_raw_Some[of 31] by (auto simp: remote_signal_from_raw_def)
  then have "0 < (31 :: int) \<and> (31 :: int) < 0x7f \<and> (31 :: int) \<notin> range remote_signal_as_raw"
    by simp
  with exit_status_reported[of 3 SIGTERM False]
  have "process_exit_from_status (word_of_int 31 OR 0) = ExitCode 255"
    by metis
  with exit_status_reported[of 3 SIGTERM False] show ?thesis
    by simp
qed

end
