(* ===== verification/Config.thy ===== *)
theory Config
  imports Protocol
begin

text \<open>
  \<open>hush-core/src/config.rs\<close>: the server's configuration file and limits, and the parser of
  the user's \<open>~/.ssh/config\<close>.

  Parameters: \<open>sw\<close> is \<open>shell_words::split\<close> (\<open>None\<close> on a missing closing quote), \<open>toml\<close> is
  \<open>toml::from_str\<close> for the configuration file, \<open>env\<close> is \<open>std::env::var\<close> and \<open>home_dir\<close> is
  \<open>std::env::home_dir()\<close>.

  The matcher of host patterns is the loop of the source over two indices with one backtracking
  point; it is proved to return and to decide the declarative relation \<open>glob\<close>.
\<close>

section \<open>Server configuration\<close>

definition DEFAULT_MAX_CONNECTIONS :: nat where "DEFAULT_MAX_CONNECTIONS = 128"
definition DEFAULT_MAX_SESSIONS_PER_CONNECTION :: nat where "DEFAULT_MAX_SESSIONS_PER_CONNECTION = 1"
definition DEFAULT_MAX_FORWARDS_PER_CONNECTION :: nat where "DEFAULT_MAX_FORWARDS_PER_CONNECTION = 16"
definition DEFAULT_MAX_FORWARD_STREAMS_PER_CONNECTION :: nat where
  "DEFAULT_MAX_FORWARD_STREAMS_PER_CONNECTION = 64"
definition DEFAULT_MAX_FILE_COPY_BYTES :: u64 where
  "DEFAULT_MAX_FILE_COPY_BYTES = 64 * 1024 * 1024 * 1024"
definition DEFAULT_MAX_FILE_COPY_ENTRIES :: u64 where "DEFAULT_MAX_FILE_COPY_ENTRIES = 100000"

text \<open>\<open>FileCopyLimits\<close> of \<open>filecopy.rs\<close>, whose default the configuration uses.\<close>

record FileCopyLimits =
  max_bytes :: u64
  max_entries :: u64

definition default_file_copy_limits :: FileCopyLimits where
  "default_file_copy_limits =
     \<lparr>max_bytes = DEFAULT_MAX_FILE_COPY_BYTES, max_entries = DEFAULT_MAX_FILE_COPY_ENTRIES\<rparr>"

record ServerConfigFile =
  scf_listen :: "socket_addr option"
  scf_data_dir :: "string option"
  scf_host_cert_path :: "string option"
  scf_host_key_path :: "string option"
  scf_authorized_keys_path :: "string option"
  scf_allow_users :: "string list option"
  scf_allow_tcp_forwarding :: "bool option"
  scf_allow_agent_forwarding :: "bool option"
  scf_max_connections :: "nat option"
  scf_max_sessions_per_connection :: "nat option"
  scf_max_forwards_per_connection :: "nat option"
  scf_max_forward_streams_per_connection :: "nat option"
  scf_max_file_copy_bytes :: "u64 option"
  scf_max_file_copy_entries :: "u64 option"

text \<open>The signer of agent-forwarding session identifiers is opaque here: \<open>'s\<close>.\<close>

record 's ServerRuntimeConfig =
  authorized_keys_path :: "string option"
  allow_users :: "string list"
  allow_tcp_forwarding :: bool
  allow_agent_forwarding :: bool
  agent_signer :: "'s option"
  max_connections :: nat
  max_sessions_per_connection :: nat
  max_forwards_per_connection :: nat
  max_forward_streams_per_connection :: nat
  file_copy_limits :: FileCopyLimits

definition default_runtime_config :: "'s ServerRuntimeConfig" where
  "default_runtime_config =
     \<lparr>authorized_keys_path = None, allow_users = [], allow_tcp_forwarding = True,
      allow_agent_forwarding = True, agent_signer = None,
      max_connections = DEFAULT_MAX_CONNECTIONS,
      max_sessions_per_connection = DEFAULT_MAX_SESSIONS_PER_CONNECTION,
      max_forwards_per_connection = DEFAULT_MAX_FORWARDS_PER_CONNECTION,
      max_forward_streams_per_connection = DEFAULT_MAX_FORWARD_STREAMS_PER_CONNECTION,
      file_copy_limits = default_file_copy_limits\<rparr>"

definition validate :: "'s ServerRuntimeConfig \<Rightarrow> bool \<Rightarrow> unit res" where
  "validate cfg running_as_root =
     (if running_as_root \<and> authorized_keys_path cfg \<noteq> None \<and> allow_users cfg = []
      then Inl (Bail ''a root server using authorized_keys_path must set allow_users (or --allow-user)'')
      else Inr ())"

definition read_server_config ::
  "(string \<Rightarrow> error + ServerConfigFile) \<Rightarrow> string \<Rightarrow> io_error + string \<Rightarrow> ServerConfigFile option res" where
  "read_server_config toml path contents =
     (case contents of
        Inl e \<Rightarrow> if io_error_kind e = NotFound then Inr None else Inl (Ctx (''read '' @ path) (Io e))
      | Inr data \<Rightarrow> and_then (with_context (''parse '' @ path) (toml data)) (\<lambda>cfg. Inr (Some cfg)))"

text \<open>The three system calls of \<open>write_server_config_example_if_missing\<close> are given by their
  results: creating the parent directories, opening with \<open>create_new\<close>, writing the text.\<close>

definition write_server_config_example_if_missing ::
  "string \<Rightarrow> (string \<Rightarrow> io_error + unit) \<Rightarrow> io_error + unit \<Rightarrow> io_error + unit \<Rightarrow> unit res" where
  "write_server_config_example_if_missing path create_dir_all open_new write_all =
     and_then
       (case parent path of
          Some p \<Rightarrow> (case create_dir_all p of
                       Inl e \<Rightarrow> Inl (Ctx (''create '' @ p) (Io e)) | Inr _ \<Rightarrow> Inr ())
        | None \<Rightarrow> Inr ())
       (\<lambda>_. case open_new of
              Inr _ \<Rightarrow> (case write_all of
                          Inl e \<Rightarrow> Inl (Ctx (''write '' @ path) (Io e)) | Inr _ \<Rightarrow> Inr ())
            | Inl e \<Rightarrow> if io_error_kind e = AlreadyExists then Inr ()
                       else Inl (Ctx (''write '' @ path) (Io e)))"

section \<open>ssh_config: data\<close>

datatype IdentityAgent = IaDisabled | IaSocket string

datatype ForwardAgent = FaYes | FaNo | FaSocket string

record SshForward =
  listen_host :: string
  listen_port :: u16
  target_host :: string
  target_port :: u16

record SshHostConfig =
  shc_user :: "string option"
  shc_hostname :: "string option"
  shc_port :: "u16 option"
  shc_identity_file :: "string option"
  shc_identity_agent :: "IdentityAgent option"
  shc_forward_agent :: "ForwardAgent option"
  shc_set_env :: "EnvVar list"
  shc_local_forwards :: "SshForward list"
  shc_remote_forwards :: "SshForward list"

definition default_ssh_host_config :: SshHostConfig where
  "default_ssh_host_config =
     \<lparr>shc_user = None, shc_hostname = None, shc_port = None, shc_identity_file = None,
      shc_identity_agent = None, shc_forward_agent = None, shc_set_env = [],
      shc_local_forwards = [], shc_remote_forwards = []\<rparr>"

section \<open>ssh_config: values\<close>

fun parse_set_env_args :: "string list \<Rightarrow> EnvVar list \<Rightarrow> EnvVar list res" where
  "parse_set_env_args [] env = Inr env"
| "parse_set_env_args (arg # args) env =
     (case split_once (CHR ''='') arg of
        None \<Rightarrow> Inl (Bail ''expected NAME=VALUE, got '')
      | Some (key, val) \<Rightarrow>
          if key = [] then Inl (Bail ''environment variable name is empty'')
          else if list_ex (\<lambda>v. ev_key v = key) env then parse_set_env_args args env
          else parse_set_env_args args (env @ [\<lparr>ev_key = key, ev_value = val\<rparr>]))"

definition parse_set_env :: "(string \<Rightarrow> string list option) \<Rightarrow> string \<Rightarrow> EnvVar list res" where
  "parse_set_env sw val =
     and_then (with_context ''split SetEnv directive'' (ok_or (Foreign ''missing closing quote'') (sw val)))
       (\<lambda>args. if args = [] then Inl (Bail ''expected NAME=VALUE'')
               else parse_set_env_args args [])"

text \<open>One iteration of the loop of \<open>split_colon_bracketed\<close>; its state is the finished parts, the
  current part and the bracket depth.\<close>

definition split_colon_step ::
  "string list \<times> string \<times> nat \<Rightarrow> char \<Rightarrow> string list \<times> string \<times> nat" where
  "split_colon_step st ch =
     (case st of (parts, current, depth) \<Rightarrow>
        if ch = CHR ''['' then (parts, current @ [ch], depth + 1)
        else if ch = CHR '']'' then (parts, current @ [ch], depth - 1)
        else if ch = CHR '':'' \<and> depth = 0 then (parts @ [current], [], depth)
        else (parts, current @ [ch], depth))"

definition split_colon_bracketed :: "string \<Rightarrow> string list" where
  "split_colon_bracketed input =
     (case foldl split_colon_step ([], [], 0) input of (parts, current, _) \<Rightarrow> parts @ [current])"

definition unbracket_host :: "string \<Rightarrow> string" where
  "unbracket_host host =
     (case strip_prefix ''['' host of
        None \<Rightarrow> host
      | Some rest \<Rightarrow> (case strip_suffix '']'' rest of None \<Rightarrow> host | Some inner \<Rightarrow> inner))"

definition parse_port :: "string \<Rightarrow> string \<Rightarrow> u16 res" where
  "parse_port msg s = with_context msg (ok_or (Foreign ''invalid port'') (parse_u16 s))"

definition parse_colon_forward :: "string \<Rightarrow> SshForward res" where
  "parse_colon_forward val =
     (let build = (\<lambda>lh lp th tp.
        and_then (parse_port ''bad listen port'' lp) (\<lambda>lport.
        and_then (parse_port ''bad target port'' tp) (\<lambda>tport.
          Inr \<lparr>listen_host = lh, listen_port = lport,
               target_host = unbracket_host th, target_port = tport\<rparr>)))
      in case split_colon_bracketed val of
           [lp, th, tp] \<Rightarrow> build ''127.0.0.1'' lp th tp
         | [lh, lp, th, tp] \<Rightarrow> build (unbracket_host lh) lp th tp
         | _ \<Rightarrow> Inl (Bail ''expected [listen_host:]listen_port:target_host:target_port''))"

definition parse_listen_endpoint :: "string \<Rightarrow> (string \<times> u16) res" where
  "parse_listen_endpoint val =
     (case split_colon_bracketed val of
        [port] \<Rightarrow> and_then (parse_port ''bad listen port'' port) (\<lambda>p. Inr (''127.0.0.1'', p))
      | [host, port] \<Rightarrow>
          and_then (parse_port ''bad listen port'' port) (\<lambda>p. Inr (unbracket_host host, p))
      | _ \<Rightarrow> Inl (Bail ''expected [listen_host:]listen_port''))"

definition parse_target_endpoint :: "string \<Rightarrow> (string \<times> u16) res" where
  "parse_target_endpoint val =
     (case split_colon_bracketed val of
        [host, port] \<Rightarrow>
          and_then (parse_port ''bad target port'' port) (\<lambda>p. Inr (unbracket_host host, p))
      | _ \<Rightarrow> Inl (Bail ''expected target_host:target_port''))"

definition parse_ssh_forward :: "(string \<Rightarrow> string list option) \<Rightarrow> string \<Rightarrow> SshForward res" where
  "parse_ssh_forward sw val =
     and_then (with_context ''split forward directive'' (ok_or (Foreign ''missing closing quote'') (sw val)))
       (\<lambda>args. case args of
          [combined] \<Rightarrow> parse_colon_forward combined
        | [listen, target] \<Rightarrow>
            and_then (parse_listen_endpoint listen) (\<lambda>(lh, lp).
            and_then (parse_target_endpoint target) (\<lambda>(th, tp).
              Inr \<lparr>listen_host = lh, listen_port = lp, target_host = th, target_port = tp\<rparr>))
        | [listen, th, tp] \<Rightarrow>
            and_then (parse_listen_endpoint listen) (\<lambda>(lh, lp).
            and_then (parse_port ''bad target port'' tp) (\<lambda>tport.
              Inr \<lparr>listen_host = lh, listen_port = lp,
                   target_host = unbracket_host th, target_port = tport\<rparr>))
        | _ \<Rightarrow> Inl (Bail ''expected [listen_host:]listen_port target_host:target_port or [listen_host:]listen_port target_host target_port''))"

definition expand_home :: "string option \<Rightarrow> string \<Rightarrow> string" where
  "expand_home home_dir val =
     (case strip_prefix ''~/'' val of
        Some rest \<Rightarrow> join (current_home home_dir) rest
      | None \<Rightarrow> val)"

definition unquote :: "string \<Rightarrow> string" where
  "unquote val =
     (if 2 \<le> length val \<and>
         ((hd val = CHR 0x22 \<and> last val = CHR 0x22) \<or> (hd val = CHR 0x27 \<and> last val = CHR 0x27))
      then butlast (tl val) else val)"

definition is_ascii_alphanumeric :: "char \<Rightarrow> bool" where
  "is_ascii_alphanumeric c =
     ((48 \<le> code c \<and> code c \<le> 57) \<or> (65 \<le> code c \<and> code c \<le> 90) \<or> (97 \<le> code c \<and> code c \<le> 122))"

text \<open>The two inner loops of \<open>expand_env\<close>: the name and what is left of the input.\<close>

fun braced_name :: "string \<Rightarrow> string \<times> string" where
  "braced_name [] = ([], [])"
| "braced_name (c # cs) =
     (if c = CHR ''}'' then ([], cs) else (case braced_name cs of (n, r) \<Rightarrow> (c # n, r)))"

fun plain_name :: "string \<Rightarrow> string \<times> string" where
  "plain_name [] = ([], [])"
| "plain_name (c # cs) =
     (if is_ascii_alphanumeric c \<or> c = CHR ''_'' then (case plain_name cs of (n, r) \<Rightarrow> (c # n, r))
      else ([], c # cs))"

lemma braced_name_length: "braced_name s = (n, r) \<Longrightarrow> length r \<le> length s"
  by (induction s arbitrary: n r) (auto split: if_splits prod.splits)

lemma plain_name_length: "plain_name s = (n, r) \<Longrightarrow> length r \<le> length s"
  by (induction s arbitrary: n r) (auto split: if_splits prod.splits)

definition expand_env_name :: "string \<Rightarrow> string \<times> string" where
  "expand_env_name cs =
     (case cs of
        [] \<Rightarrow> plain_name cs
      | d # ds \<Rightarrow> if d = CHR ''{'' then braced_name ds else plain_name cs)"

lemma expand_env_name_length: "expand_env_name cs = (n, r) \<Longrightarrow> length r \<le> length cs"
  by (auto simp: expand_env_name_def simp del: plain_name.simps braced_name.simps
      dest: braced_name_length plain_name_length split: list.splits if_splits)

function expand_env :: "(string \<Rightarrow> string option) \<Rightarrow> string \<Rightarrow> string" where
  "expand_env env [] = []"
| "expand_env env (c # cs) =
     (if c \<noteq> CHR ''$'' then c # expand_env env cs
      else (let (name, rest) = expand_env_name cs
            in (if name = [] then ''$'' else (case env name of Some v \<Rightarrow> v | None \<Rightarrow> [])) @
               expand_env env rest))"
  by pat_completeness auto
termination
  by (relation "measure (\<lambda>(env, s). length s)")
    (auto simp: less_Suc_eq_le dest: expand_env_name_length [OF sym])

definition parse_identity_agent ::
  "(string \<Rightarrow> string option) \<Rightarrow> string option \<Rightarrow> string \<Rightarrow> IdentityAgent option" where
  "parse_identity_agent env home_dir val =
     (let val = unquote (trim val)
      in if val = [] then None
         else if eq_ignore_ascii_case val ''none'' then Some IaDisabled
         else let expanded = expand_env env val
              in if val = ''SSH_AUTH_SOCK'' \<or> expanded = [] then None
                 else Some (IaSocket (expand_home home_dir expanded)))"

definition parse_forward_agent ::
  "(string \<Rightarrow> string option) \<Rightarrow> string option \<Rightarrow> string \<Rightarrow> ForwardAgent option" where
  "parse_forward_agent env home_dir val =
     (let val = unquote (trim val)
      in if val = [] then None
         else if eq_ignore_ascii_case val ''yes'' \<or> eq_ignore_ascii_case val ''true'' then Some FaYes
         else if eq_ignore_ascii_case val ''no'' \<or> eq_ignore_ascii_case val ''false'' then Some FaNo
         else let expanded = expand_env env val
              in if expanded = [] then None else Some (FaSocket (expand_home home_dir expanded)))"

section \<open>ssh_config: host blocks\<close>

text \<open>The matching loop: \<open>p\<close> and \<open>h\<close> index pattern and host, \<open>star\<close> is the last \<open>*\<close> seen and
  \<open>after_star\<close> where the text it covers ends.\<close>

partial_function (option) host_pattern_loop ::
  "string \<Rightarrow> string \<Rightarrow> nat \<Rightarrow> nat \<Rightarrow> nat option \<Rightarrow> nat \<Rightarrow> nat option option" where
  "host_pattern_loop pattern host p h star after_star =
     (if h < length host then
        if p < length pattern \<and> (pattern ! p = CHR ''?'' \<or> pattern ! p = host ! h)
        then host_pattern_loop pattern host (p + 1) (h + 1) star after_star
        else if p < length pattern \<and> pattern ! p = CHR ''*''
        then host_pattern_loop pattern host (p + 1) h (Some p) h
        else (case star of
                Some star_index \<Rightarrow>
                  host_pattern_loop pattern host (star_index + 1) (after_star + 1) star (after_star + 1)
              | None \<Rightarrow> Some None)
      else Some (Some p))"

declare host_pattern_loop.simps [code]

text \<open>The second loop skips the stars at the end of the pattern.\<close>

function skip_stars :: "string \<Rightarrow> nat \<Rightarrow> nat" where
  "skip_stars pattern p =
     (if p < length pattern \<and> pattern ! p = CHR ''*'' then skip_stars pattern (p + 1) else p)"
  by pat_completeness auto
termination
  by (relation "measure (\<lambda>(pattern, p). length pattern - p)") auto

declare skip_stars.simps [simp del]

definition host_pattern_matches :: "string \<Rightarrow> string \<Rightarrow> bool option" where
  "host_pattern_matches pattern host =
     (let pattern = to_ascii_lowercase pattern; host = to_ascii_lowercase host
      in case host_pattern_loop pattern host 0 0 None 0 of
           None \<Rightarrow> None
         | Some None \<Rightarrow> Some False
         | Some (Some p) \<Rightarrow> Some (skip_stars pattern p = length pattern))"

text \<open>The loop over the patterns of one \<open>Host\<close> line; the result of a pattern match that did not
  return would be \<open>None\<close>.\<close>

fun host_block_loop :: "string list \<Rightarrow> string \<Rightarrow> bool \<Rightarrow> bool option" where
  "host_block_loop [] host positive = Some positive"
| "host_block_loop (pat # pats) host positive =
     (let (negated, pattern) =
            (case strip_prefix ''!'' pat of Some q \<Rightarrow> (True, q) | None \<Rightarrow> (False, pat))
      in if pattern = [] then host_block_loop pats host positive
         else (case host_pattern_matches pattern host of
                 None \<Rightarrow> None
               | Some m \<Rightarrow>
                   if \<not> m then host_block_loop pats host positive
                   else if negated then Some False
                   else host_block_loop pats host True))"

definition host_block_matches :: "string \<Rightarrow> string \<Rightarrow> bool option" where
  "host_block_matches patterns host = host_block_loop (split_whitespace patterns) host False"

section \<open>ssh_config: the file\<close>

record ssh_config_env =
  sce_env :: "string \<Rightarrow> string option"
  sce_home_dir :: "string option"
  sce_shell_words :: "string \<Rightarrow> string list option"

definition apply_directive ::
  "ssh_config_env \<Rightarrow> SshHostConfig \<Rightarrow> string \<Rightarrow> string \<Rightarrow> SshHostConfig res" where
  "apply_directive E cfg key val =
     (if key = ''user'' \<and> shc_user cfg = None then Inr (cfg\<lparr>shc_user := Some val\<rparr>)
      else if key = ''hostname'' \<and> shc_hostname cfg = None then Inr (cfg\<lparr>shc_hostname := Some val\<rparr>)
      else if key = ''port'' \<and> shc_port cfg = None then Inr (cfg\<lparr>shc_port := parse_u16 val\<rparr>)
      else if key = ''identityfile'' \<and> shc_identity_file cfg = None
      then Inr (cfg\<lparr>shc_identity_file := Some (expand_home (sce_home_dir E) val)\<rparr>)
      else if key = ''identityagent'' \<and> shc_identity_agent cfg = None
      then Inr (cfg\<lparr>shc_identity_agent := parse_identity_agent (sce_env E) (sce_home_dir E) val\<rparr>)
      else if key = ''forwardagent'' \<and> shc_forward_agent cfg = None
      then Inr (cfg\<lparr>shc_forward_agent := parse_forward_agent (sce_env E) (sce_home_dir E) val\<rparr>)
      else if key = ''setenv'' \<and> shc_set_env cfg = []
      then and_then (with_context ''parse SetEnv'' (parse_set_env (sce_shell_words E) val))
             (\<lambda>env. Inr (cfg\<lparr>shc_set_env := env\<rparr>))
      else if key = ''localforward''
      then and_then (with_context ''parse LocalForward '' (parse_ssh_forward (sce_shell_words E) val))
             (\<lambda>f. Inr (cfg\<lparr>shc_local_forwards := shc_local_forwards cfg @ [f]\<rparr>))
      else if key = ''remoteforward''
      then and_then (with_context ''parse RemoteForward '' (parse_ssh_forward (sce_shell_words E) val))
             (\<lambda>f. Inr (cfg\<lparr>shc_remote_forwards := shc_remote_forwards cfg @ [f]\<rparr>))
      else Inr cfg)"

text \<open>A line is blank, a comment, or a keyword (lower-cased) and its trimmed value.\<close>

definition config_line :: "string \<Rightarrow> (string \<times> string) option" where
  "config_line raw =
     (let line = trim raw
      in if line = [] \<or> starts_with ''#'' line then None
         else (case split_first_ws line of
                 (k, v) \<Rightarrow> Some (to_ascii_lowercase k, trim (case v of Some r \<Rightarrow> r | None \<Rightarrow> []))))"

definition host_matches :: "string \<Rightarrow> string \<Rightarrow> bool" where
  "host_matches patterns host = (host_block_matches patterns host = Some True)"

fun parse_ssh_config_lines ::
  "ssh_config_env \<Rightarrow> string \<Rightarrow> bool \<Rightarrow> SshHostConfig \<Rightarrow> string list \<Rightarrow> SshHostConfig res" where
  "parse_ssh_config_lines E alias active cfg [] = Inr cfg"
| "parse_ssh_config_lines E alias active cfg (raw # rest) =
     (case config_line raw of
        None \<Rightarrow> parse_ssh_config_lines E alias active cfg rest
      | Some (key, val) \<Rightarrow>
          if key = ''host'' then parse_ssh_config_lines E alias (host_matches val alias) cfg rest
          else if \<not> active then parse_ssh_config_lines E alias active cfg rest
          else and_then (apply_directive E cfg key val)
                 (\<lambda>cfg'. parse_ssh_config_lines E alias active cfg' rest))"

definition parse_ssh_config :: "ssh_config_env \<Rightarrow> string \<Rightarrow> string \<Rightarrow> SshHostConfig res" where
  "parse_ssh_config E alias data =
     parse_ssh_config_lines E alias False default_ssh_host_config (lines data)"

text \<open>\<open>read_ssh_config\<close> reads \<open>.ssh/config\<close> of the home directory; an unreadable file counts as
  empty.\<close>

definition read_ssh_config ::
  "ssh_config_env \<Rightarrow> (string \<Rightarrow> string option) \<Rightarrow> string \<Rightarrow> SshHostConfig res" where
  "read_ssh_config E read_to_string alias =
     (case read_to_string (join (current_home (sce_home_dir E)) ''.ssh/config'') of
        None \<Rightarrow> Inr default_ssh_host_config
      | Some data \<Rightarrow> parse_ssh_config E alias data)"

section \<open>Host patterns: the loop decides the glob relation\<close>

text \<open>What a pattern means: \<open>*\<close> stands for any text, \<open>?\<close> for any one character.\<close>

fun glob :: "string \<Rightarrow> string \<Rightarrow> bool" where
  "glob [] [] = True"
| "glob [] (_ # _) = False"
| "glob (c # P) [] = (c = CHR ''*'' \<and> glob P [])"
| "glob (c # P) (h # H) =
     (if c = CHR ''*'' then glob P (h # H) \<or> glob (c # P) H
      else (c = CHR ''?'' \<or> c = h) \<and> glob P H)"

lemma glob_Nil_right: "glob P [] \<longleftrightarrow> list_all (\<lambda>c. c = CHR ''*'') P"
  by (induction P) auto

lemma ex_le_Suc: "(\<exists>k\<le>Suc n. Q k) \<longleftrightarrow> Q 0 \<or> (\<exists>k\<le>n. Q (Suc k))"
  by (metis Suc_le_mono le0 not0_implies_Suc)

lemma glob_star: "glob (CHR ''*'' # P) H \<longleftrightarrow> (\<exists>k\<le>length H. glob P (drop k H))"
proof (induction H)
  case (Cons h H)
  have "(\<exists>k\<le>length (h # H). glob P (drop k (h # H))) \<longleftrightarrow>
        glob P (h # H) \<or> (\<exists>k\<le>length H. glob P (drop k H))"
    by (simp add: ex_le_Suc)
  with Cons show ?case by simp
qed simp

lemma glob_literal_prefix:
  assumes "glob (xs @ P) H" "CHR ''*'' \<notin> set xs"
  shows "length xs \<le> length H \<and> glob P (drop (length xs) H)"
  using assms
proof (induction xs arbitrary: H)
  case (Cons x xs)
  then show ?case by (cases H) auto
qed simp

text \<open>\<open>seg P H s a n\<close>: the \<open>n\<close> pattern characters from \<open>s\<close> contain no star and match the host
  from \<open>a\<close>.\<close>

definition seg :: "string \<Rightarrow> string \<Rightarrow> nat \<Rightarrow> nat \<Rightarrow> nat \<Rightarrow> bool" where
  "seg P H s a n \<longleftrightarrow>
     s + n \<le> length P \<and> a + n \<le> length H \<and>
     (\<forall>i<n. P ! (s + i) \<noteq> CHR ''*'' \<and> (P ! (s + i) = CHR ''?'' \<or> P ! (s + i) = H ! (a + i)))"

lemma seg_0 [simp]: "seg P H s a 0 \<longleftrightarrow> s \<le> length P \<and> a \<le> length H"
  by (simp add: seg_def)

lemma seg_Suc:
  "seg P H s a (Suc n) \<longleftrightarrow>
     seg P H s a n \<and> s + n < length P \<and> a + n < length H \<and> P ! (s + n) \<noteq> CHR ''*'' \<and>
     (P ! (s + n) = CHR ''?'' \<or> P ! (s + n) = H ! (a + n))"
  by (auto simp: seg_def less_Suc_eq)

lemma glob_nth_step:
  assumes "p < length P" "h < length H" "P ! p \<noteq> CHR ''*''"
  shows "glob (drop p P) (drop h H) \<longleftrightarrow>
           (P ! p = CHR ''?'' \<or> P ! p = H ! h) \<and> glob (drop (Suc p) P) (drop (Suc h) H)"
  using assms by (simp add: Cons_nth_drop_Suc [symmetric])

lemma glob_seg: "seg P H s a n \<Longrightarrow> glob (drop s P) (drop a H) \<longleftrightarrow> glob (drop (s + n) P) (drop (a + n) H)"
  by (induction n) (auto simp: seg_Suc glob_nth_step)

lemma glob_after_seg:
  assumes "seg P H s a n" "k \<le> length H" "glob (drop s P) (drop k H)"
  shows "k + n \<le> length H \<and> glob (drop (s + n) P) (drop (k + n) H)"
proof -
  have "drop s P = take n (drop s P) @ drop (s + n) P"
    by (metis add.commute append_take_drop_id drop_drop)
  moreover have "CHR ''*'' \<notin> set (take n (drop s P))"
    using assms(1) by (auto simp: seg_def in_set_conv_nth)
  moreover have "length (take n (drop s P)) = n"
    using assms(1) by (auto simp: seg_def min_def)
  ultimately show ?thesis
    using glob_literal_prefix [of "take n (drop s P)" "drop (s + n) P" "drop k H"] assms(2,3)
    by (auto simp: add.commute)
qed

text \<open>The loop invariant.  Without a star the two suffixes decide; with a star at \<open>s\<close> the text it
  covers ends at \<open>a\<close> or later, and what follows the star has matched from \<open>a\<close> up to \<open>h\<close>.\<close>

definition glob_inv :: "string \<Rightarrow> string \<Rightarrow> nat \<Rightarrow> nat \<Rightarrow> nat option \<Rightarrow> nat \<Rightarrow> bool" where
  "glob_inv P H p h star a \<longleftrightarrow>
     p \<le> length P \<and> h \<le> length H \<and>
     (case star of
        None \<Rightarrow> glob P H = glob (drop p P) (drop h H)
      | Some s \<Rightarrow>
          p = s + 1 + (h - a) \<and> a \<le> h \<and> seg P H (s + 1) a (h - a) \<and>
          glob P H = (\<exists>k. a \<le> k \<and> k \<le> length H \<and> glob (drop (s + 1) P) (drop k H)))"

text \<open>What the loop leaves for the caller, for any continuation \<open>r\<close> of the result.\<close>

definition loop_measure :: "string \<Rightarrow> string \<Rightarrow> nat \<Rightarrow> nat \<Rightarrow> nat option \<Rightarrow> nat \<Rightarrow> nat \<times> nat \<times> nat" where
  "loop_measure P H p h star a =
     (length P - (case star of None \<Rightarrow> 0 | Some s \<Rightarrow> s + 1), length H - a, length H - h)"

definition loop_bounds :: "string \<Rightarrow> string \<Rightarrow> nat \<Rightarrow> nat \<Rightarrow> nat option \<Rightarrow> nat \<Rightarrow> bool" where
  "loop_bounds P H p h star a \<longleftrightarrow>
     p \<le> length P \<and> h \<le> length H \<and> a \<le> h \<and> (case star of None \<Rightarrow> True | Some s \<Rightarrow> s < p)"

abbreviation loop_rel :: "((nat \<times> nat \<times> nat) \<times> (nat \<times> nat \<times> nat)) set" where
  "loop_rel \<equiv> less_than <*lex*> less_than <*lex*> less_than"

lemma wf_loop_rel: "wf loop_rel"
  by (simp add: wf_lex_prod)

text \<open>An invariant kept by the three kinds of iteration holds when the loop ends, and the loop ends.\<close>

lemma host_pattern_loop_rule:
  assumes "loop_bounds P H p h star a" "I p h star a"
    and match: "\<And>p h star a. I p h star a \<Longrightarrow> loop_bounds P H p h star a \<Longrightarrow> h < length H \<Longrightarrow>
        p < length P \<Longrightarrow> P ! p = CHR ''?'' \<or> P ! p = H ! h \<Longrightarrow> I (p + 1) (h + 1) star a"
    and at_star: "\<And>p h star a. I p h star a \<Longrightarrow> loop_bounds P H p h star a \<Longrightarrow> h < length H \<Longrightarrow>
        p < length P \<Longrightarrow> P ! p = CHR ''*'' \<Longrightarrow> P ! p \<noteq> H ! h \<Longrightarrow> I (p + 1) h (Some p) h"
    and retry: "\<And>p h s a. I p h (Some s) a \<Longrightarrow> loop_bounds P H p h (Some s) a \<Longrightarrow> h < length H \<Longrightarrow>
        p = length P \<or> P ! p \<noteq> CHR ''?'' \<and> P ! p \<noteq> H ! h \<and> P ! p \<noteq> CHR ''*'' \<Longrightarrow>
        I (s + 1) (a + 1) (Some s) (a + 1)"
    and fail: "\<And>p h a. I p h None a \<Longrightarrow> loop_bounds P H p h None a \<Longrightarrow> h < length H \<Longrightarrow>
        p = length P \<or> P ! p \<noteq> CHR ''?'' \<and> P ! p \<noteq> H ! h \<and> P ! p \<noteq> CHR ''*'' \<Longrightarrow> Q None"
    and finish: "\<And>p star a. I p (length H) star a \<Longrightarrow> loop_bounds P H p (length H) star a \<Longrightarrow> Q (Some p)"
  shows "\<exists>r. host_pattern_loop P H p h star a = Some r \<and> Q r"
  using assms(1,2)
proof (induction "loop_measure P H p h star a" arbitrary: p h star a
         rule: wf_induct_rule [OF wf_loop_rel])
  case (1 p h star a)
  note IH = 1(1) and b = 1(2) and i = 1(3)
  note unfold = host_pattern_loop.simps [of P H p h star a]
  consider (finished) "h = length H"
    | (match) "h < length H" "p < length P" "P ! p = CHR ''?'' \<or> P ! p = H ! h"
    | (star) "h < length H" "p < length P" "P ! p \<noteq> H ! h" "P ! p = CHR ''*''"
    | (stuck) "h < length H"
        "p = length P \<or> P ! p \<noteq> CHR ''?'' \<and> P ! p \<noteq> H ! h \<and> P ! p \<noteq> CHR ''*''"
    using b by (fastforce simp: loop_bounds_def)
  then show ?case
  proof cases
    case finished
    then show ?thesis using unfold finish i b by auto
  next
    case match
    have "\<exists>r. host_pattern_loop P H (p + 1) (h + 1) star a = Some r \<and> Q r"
      using match b by (intro IH assms(3) i)
        (auto simp: loop_bounds_def loop_measure_def split: option.splits)
    with match unfold show ?thesis by simp
  next
    case star
    have "\<exists>r. host_pattern_loop P H (p + 1) h (Some p) h = Some r \<and> Q r"
      using star b i by (intro IH at_star [of p h star a])
        (auto simp: loop_bounds_def loop_measure_def split: option.splits)
    with star unfold show ?thesis by simp
  next
    case stuck
    show ?thesis
    proof (cases star)
      case None
      with stuck unfold fail i b show ?thesis by auto
    next
      case (Some s)
      have "\<exists>r. host_pattern_loop P H (s + 1) (a + 1) (Some s) (a + 1) = Some r \<and> Q r"
        using stuck b i Some by (intro IH retry)
          (auto simp: loop_bounds_def loop_measure_def)
      with stuck unfold Some show ?thesis by auto
    qed
  qed
qed

lemma host_pattern_loop_returns: "\<exists>r. host_pattern_loop P H 0 0 None 0 = Some r"
  using host_pattern_loop_rule
    [of P H 0 0 None 0 "\<lambda>_ _ _ _. True" "\<lambda>_. True"] by (simp add: loop_bounds_def)

lemma skip_stars_end:
  assumes "p \<le> length P"
  shows "skip_stars P p = length P \<longleftrightarrow> glob (drop p P) []"
  using assms
proof (induction "length P - p" arbitrary: p)
  case 0
  then show ?case by (simp add: skip_stars.simps)
next
  case (Suc n)
  then have lt: "p < length P" by linarith
  have d: "drop p P = P ! p # drop (Suc p) P"
    using lt by (simp add: Cons_nth_drop_Suc)
  show ?case
  proof (cases "P ! p = CHR ''*''")
    case True
    then have "skip_stars P p = skip_stars P (Suc p)"
      using lt by (simp add: skip_stars.simps [of P p])
    moreover have "skip_stars P (Suc p) = length P \<longleftrightarrow> glob (drop (Suc p) P) []"
      by (rule Suc.hyps) (use Suc.hyps(2) lt in auto)
    ultimately show ?thesis using True d by simp
  next
    case False
    then show ?thesis using lt d by (simp add: skip_stars.simps [of P p])
  qed
qed

lemma glob_inv_match:
  assumes "glob_inv P H p h star a" "h < length H" "p < length P"
    "P ! p = CHR ''?'' \<or> P ! p = H ! h" "CHR ''*'' \<notin> set H"
  shows "glob_inv P H (p + 1) (h + 1) star a"
proof -
  have ns: "P ! p \<noteq> CHR ''*''" using assms by (auto dest: nth_mem)
  show ?thesis
  proof (cases star)
    case None
    with assms ns show ?thesis by (auto simp: glob_inv_def glob_nth_step)
  next
    case (Some s)
    with assms have "p = s + 1 + (h - a)" "a \<le> h" by (auto simp: glob_inv_def)
    then have "h + 1 - a = Suc (h - a)" "P ! (s + 1 + (h - a)) = P ! p" "a + (h - a) = h" by auto
    with Some assms ns show ?thesis by (auto simp: glob_inv_def seg_Suc)
  qed
qed

lemma ex_shift:
  assumes "k \<le> (n::nat)"
  shows "(\<exists>i\<le>n - k. Q (i + k)) \<longleftrightarrow> (\<exists>j. k \<le> j \<and> j \<le> n \<and> Q j)"
proof
  assume "\<exists>i\<le>n - k. Q (i + k)"
  then obtain i where "i \<le> n - k" "Q (i + k)" by blast
  with assms show "\<exists>j. k \<le> j \<and> j \<le> n \<and> Q j" by (intro exI [of _ "i + k"]) simp
next
  assume "\<exists>j. k \<le> j \<and> j \<le> n \<and> Q j"
  then obtain j where "k \<le> j" "j \<le> n" "Q j" by blast
  then show "\<exists>i\<le>n - k. Q (i + k)" by (intro exI [of _ "j - k"]) simp
qed

lemma glob_inv_star:
  assumes "glob_inv P H p h star a" "h < length H" "p < length P" "P ! p = CHR ''*''"
  shows "glob_inv P H (p + 1) h (Some p) h"
proof -
  have step: "glob (drop p P) (drop k H) \<longleftrightarrow>
      (\<exists>j. k \<le> j \<and> j \<le> length H \<and> glob (drop (p + 1) P) (drop j H))" if "k \<le> length H" for k
  proof -
    have "glob (drop p P) (drop k H) \<longleftrightarrow> (\<exists>i\<le>length H - k. glob (drop (p + 1) P) (drop (i + k) H))"
      using assms(3,4) glob_star [of "drop (p + 1) P" "drop k H"]
      by (simp add: Cons_nth_drop_Suc [symmetric] add.commute)
    also have "\<dots> \<longleftrightarrow> (\<exists>j. k \<le> j \<and> j \<le> length H \<and> glob (drop (p + 1) P) (drop j H))"
      using that by (rule ex_shift)
    finally show ?thesis .
  qed
  have "glob P H \<longleftrightarrow> (\<exists>j. h \<le> j \<and> j \<le> length H \<and> glob (drop (p + 1) P) (drop j H))"
  proof (cases star)
    case None
    with assms(1,2) step show ?thesis by (simp add: glob_inv_def)
  next
    case (Some s)
    then have I: "p = s + 1 + (h - a)" "a \<le> h" "seg P H (s + 1) a (h - a)"
        "glob P H \<longleftrightarrow> (\<exists>k. a \<le> k \<and> k \<le> length H \<and> glob (drop (s + 1) P) (drop k H))"
      using assms(1) by (auto simp: glob_inv_def)
    have here: "glob (drop (s + 1) P) (drop a H) \<longleftrightarrow> glob (drop p P) (drop h H)"
      using glob_seg [OF I(3)] I(1,2) by simp
    show ?thesis
    proof
      assume "glob P H"
      then obtain k where k: "a \<le> k" "k \<le> length H" "glob (drop (s + 1) P) (drop k H)"
        using I(4) by blast
      then have "k + (h - a) \<le> length H" "glob (drop p P) (drop (k + (h - a)) H)"
        using glob_after_seg [OF I(3)] I(1) by auto
      then obtain j where "k + (h - a) \<le> j" "j \<le> length H" "glob (drop (p + 1) P) (drop j H)"
        using step by blast
      then show "\<exists>j. h \<le> j \<and> j \<le> length H \<and> glob (drop (p + 1) P) (drop j H)"
        using k(1) I(2) by (intro exI [of _ j]) auto
    next
      assume "\<exists>j. h \<le> j \<and> j \<le> length H \<and> glob (drop (p + 1) P) (drop j H)"
      then have "glob (drop (s + 1) P) (drop a H)"
        using here step [of h] assms(2) by simp
      then show "glob P H"
        using I(2,4) assms(2) by (intro I(4) [THEN iffD2] exI [of _ a]) simp
    qed
  qed
  with assms show ?thesis by (simp add: glob_inv_def)
qed

lemma glob_mismatch:
  assumes "p \<le> length P" "h < length H"
    "p = length P \<or> P ! p \<noteq> CHR ''?'' \<and> P ! p \<noteq> H ! h \<and> P ! p \<noteq> CHR ''*''"
  shows "\<not> glob (drop p P) (drop h H)"
proof (cases "p = length P")
  case True
  with assms(2) show ?thesis by (simp add: Cons_nth_drop_Suc [symmetric])
next
  case False
  with assms show ?thesis by (simp add: glob_nth_step)
qed

lemma glob_inv_retry:
  assumes "glob_inv P H p h (Some s) a" "h < length H"
    "p = length P \<or> P ! p \<noteq> CHR ''?'' \<and> P ! p \<noteq> H ! h \<and> P ! p \<noteq> CHR ''*''"
  shows "glob_inv P H (s + 1) (a + 1) (Some s) (a + 1)"
proof -
  have I: "p \<le> length P" "p = s + 1 + (h - a)" "a \<le> h" "seg P H (s + 1) a (h - a)"
      "glob P H \<longleftrightarrow> (\<exists>k. a \<le> k \<and> k \<le> length H \<and> glob (drop (s + 1) P) (drop k H))"
    using assms(1) by (auto simp: glob_inv_def)
  have "\<not> glob (drop (s + 1) P) (drop a H)"
    using glob_seg [OF I(4)] glob_mismatch [OF I(1) assms(2,3)] I(2,3) by simp
  then have "glob P H \<longleftrightarrow> (\<exists>k. a + 1 \<le> k \<and> k \<le> length H \<and> glob (drop (s + 1) P) (drop k H))"
    using I(5) by (auto simp: Suc_le_eq order.order_iff_strict [of a])
  with I assms(2) show ?thesis by (simp add: glob_inv_def seg_def)
qed

lemma glob_inv_end:
  assumes "glob_inv P H p (length H) star a"
  shows "glob P H \<longleftrightarrow> glob (drop p P) []"
proof (cases star)
  case None
  with assms show ?thesis by (simp add: glob_inv_def)
next
  case (Some s)
  then have I: "p = s + 1 + (length H - a)" "a \<le> length H" "seg P H (s + 1) a (length H - a)"
      "glob P H \<longleftrightarrow> (\<exists>k. a \<le> k \<and> k \<le> length H \<and> glob (drop (s + 1) P) (drop k H))"
    using assms by (auto simp: glob_inv_def)
  have here: "glob (drop (s + 1) P) (drop a H) \<longleftrightarrow> glob (drop p P) []"
    using glob_seg [OF I(3)] I(1,2) by simp
  have "k = a" if "a \<le> k" "k \<le> length H" "glob (drop (s + 1) P) (drop k H)" for k
    using glob_after_seg [OF I(3) that(2,3)] that(1,2) by linarith
  with I(2,4) here show ?thesis by blast
qed

lemma host_pattern_loop_correct:
  assumes "CHR ''*'' \<notin> set H"
  shows "\<exists>r. host_pattern_loop P H 0 0 None 0 = Some r \<and>
           (case r of None \<Rightarrow> \<not> glob P H | Some p \<Rightarrow> p \<le> length P \<and> (glob P H \<longleftrightarrow> glob (drop p P) []))"
proof (rule host_pattern_loop_rule [where I = "glob_inv P H"])
  show "loop_bounds P H 0 0 None 0" "glob_inv P H 0 0 None 0"
    by (simp_all add: loop_bounds_def glob_inv_def)
next
  fix p h star a
  assume "glob_inv P H p h star a" "h < length H" "p < length P" "P ! p = CHR ''?'' \<or> P ! p = H ! h"
  then show "glob_inv P H (p + 1) (h + 1) star a" using assms by (rule glob_inv_match)
next
  fix p h star a
  assume "glob_inv P H p h star a" "h < length H" "p < length P" "P ! p = CHR ''*''"
  then show "glob_inv P H (p + 1) h (Some p) h" by (rule glob_inv_star)
next
  fix p h s a
  assume "glob_inv P H p h (Some s) a" "h < length H"
    "p = length P \<or> P ! p \<noteq> CHR ''?'' \<and> P ! p \<noteq> H ! h \<and> P ! p \<noteq> CHR ''*''"
  then show "glob_inv P H (s + 1) (a + 1) (Some s) (a + 1)" by (rule glob_inv_retry)
next
  fix p h a
  assume "glob_inv P H p h None a" "h < length H"
    "p = length P \<or> P ! p \<noteq> CHR ''?'' \<and> P ! p \<noteq> H ! h \<and> P ! p \<noteq> CHR ''*''"
  then show "case None of None \<Rightarrow> \<not> glob P H
      | Some p \<Rightarrow> p \<le> length P \<and> (glob P H \<longleftrightarrow> glob (drop p P) [])"
    using glob_mismatch [of p P h H] by (simp add: glob_inv_def)
next
  fix p star a
  assume "glob_inv P H p (length H) star a"
  then show "case Some p of None \<Rightarrow> \<not> glob P H
      | Some p \<Rightarrow> p \<le> length P \<and> (glob P H \<longleftrightarrow> glob (drop p P) [])"
    using glob_inv_end [of P H p star a] by (simp add: glob_inv_def)
qed

lemma host_pattern_matches_total: "\<exists>b. host_pattern_matches pattern host = Some b"
  using host_pattern_loop_returns [of "to_ascii_lowercase pattern" "to_ascii_lowercase host"]
  by (auto simp: host_pattern_matches_def Let_def split: option.splits)

lemma ascii_lower_other:
  assumes "ascii_lower c = d" "code d < 97"
  shows "c = d"
proof (cases "65 \<le> code c \<and> code c \<le> 90")
  case True
  then have "code (ascii_lower c) = code c + 32" by (simp add: ascii_lower_def)
  with True assms show ?thesis by simp
next
  case False
  with assms show ?thesis by (auto simp: ascii_lower_def)
qed

lemma star_not_lower: "CHR ''*'' \<notin> set s \<Longrightarrow> CHR ''*'' \<notin> set (to_ascii_lowercase s)"
proof -
  have "ascii_lower c = CHR ''*'' \<Longrightarrow> c = CHR ''*''" for c
    by (rule ascii_lower_other) (simp_all add: code_def)
  then show "CHR ''*'' \<notin> set s \<Longrightarrow> CHR ''*'' \<notin> set (to_ascii_lowercase s)"
    by (fastforce simp: to_ascii_lowercase_def)
qed

lemma host_pattern_matches_glob:
  assumes "CHR ''*'' \<notin> set host"
  shows "host_pattern_matches pattern host =
           Some (glob (to_ascii_lowercase pattern) (to_ascii_lowercase host))"
  using host_pattern_loop_correct
      [OF star_not_lower [OF assms], of "to_ascii_lowercase pattern"]
  by (auto simp: host_pattern_matches_def Let_def skip_stars_end
      simp del: to_ascii_lowercase_length split: option.splits)

section \<open>Host blocks\<close>

text \<open>The positive and the negated patterns of a \<open>Host\<close> line.\<close>

definition positive_patterns :: "string \<Rightarrow> string list" where
  "positive_patterns ps = filter (\<lambda>q. q \<noteq> [] \<and> \<not> starts_with ''!'' q) (split_whitespace ps)"

definition negated_patterns :: "string \<Rightarrow> string list" where
  "negated_patterns ps =
     filter (\<lambda>q. q \<noteq> []) (List.map_filter (strip_prefix ''!'') (split_whitespace ps))"

definition glob_ci :: "string \<Rightarrow> string \<Rightarrow> bool" where
  "glob_ci pattern host = glob (to_ascii_lowercase pattern) (to_ascii_lowercase host)"

lemma host_block_loop_glob:
  assumes "CHR ''*'' \<notin> set host"
  shows "host_block_loop pats host positive =
     Some ((positive \<or> (\<exists>q\<in>set pats. q \<noteq> [] \<and> \<not> starts_with ''!'' q \<and> glob_ci q host)) \<and>
           \<not> (\<exists>q\<in>set (List.map_filter (strip_prefix ''!'') pats). q \<noteq> [] \<and> glob_ci q host))"
proof (induction pats arbitrary: positive)
  case (Cons pat pats)
  note m = host_pattern_matches_glob [OF assms, folded glob_ci_def]
  show ?case
  proof (cases "strip_prefix ''!'' pat")
    case None
    then have "\<not> starts_with ''!'' pat" by (simp add: starts_with_def)
    with None Cons show ?thesis by (auto simp: m List.map_filter_simps)
  next
    case (Some q)
    then have "starts_with ''!'' pat" by (simp add: starts_with_def)
    with Some Cons show ?thesis by (auto simp: m List.map_filter_simps)
  qed
qed (simp add: List.map_filter_simps)

lemma host_block_loop_total: "\<exists>b. host_block_loop pats host positive = Some b"
proof (induction pats arbitrary: positive)
  case (Cons pat pats)
  define q where "q = (case strip_prefix ''!'' pat of Some q \<Rightarrow> q | None \<Rightarrow> pat)"
  obtain m where "host_pattern_matches q host = Some m"
    using host_pattern_matches_total by blast
  with Cons show ?case by (cases "strip_prefix ''!'' pat") (auto simp: q_def)
qed simp

section \<open>The directives that apply to a host\<close>

text \<open>The keyword/value lines of the blocks whose \<open>Host\<close> line matches, in file order: what the
  parser should see.\<close>

fun active_directives :: "string \<Rightarrow> bool \<Rightarrow> string list \<Rightarrow> (string \<times> string) list" where
  "active_directives alias active [] = []"
| "active_directives alias active (raw # rest) =
     (case config_line raw of
        None \<Rightarrow> active_directives alias active rest
      | Some (key, val) \<Rightarrow>
          if key = ''host'' then active_directives alias (host_matches val alias) rest
          else if active then (key, val) # active_directives alias active rest
          else active_directives alias active rest)"

definition directives_for :: "string \<Rightarrow> string \<Rightarrow> (string \<times> string) list" where
  "directives_for alias data = active_directives alias False (lines data)"

definition vals :: "string \<Rightarrow> (string \<times> string) list \<Rightarrow> string list" where
  "vals key ds = map snd (filter (\<lambda>d. fst d = key) ds)"

fun first_some :: "('a \<Rightarrow> 'b option) \<Rightarrow> 'a list \<Rightarrow> 'b option" where
  "first_some f [] = None"
| "first_some f (x # xs) = (case f x of None \<Rightarrow> first_some f xs | Some y \<Rightarrow> Some y)"

fun apply_directives ::
  "ssh_config_env \<Rightarrow> SshHostConfig \<Rightarrow> (string \<times> string) list \<Rightarrow> SshHostConfig res" where
  "apply_directives E cfg [] = Inr cfg"
| "apply_directives E cfg (d # ds) =
     and_then (apply_directive E cfg (fst d) (snd d)) (\<lambda>cfg'. apply_directives E cfg' ds)"

lemma parse_ssh_config_lines_directives:
  "parse_ssh_config_lines E alias active cfg ls =
     apply_directives E cfg (active_directives alias active ls)"
proof (induction ls arbitrary: active cfg)
  case (Cons raw ls)
  then show ?case
    by (cases "apply_directive E cfg (fst (the (config_line raw))) (snd (the (config_line raw)))")
      (auto split: option.splits)
qed simp

lemma parse_ssh_config_directives:
  "parse_ssh_config E alias data = apply_directives E default_ssh_host_config (directives_for alias data)"
  by (simp add: parse_ssh_config_def directives_for_def parse_ssh_config_lines_directives)

lemma vals_simps [simp]:
  "vals key [] = []"
  "vals key (d # ds) = (if fst d = key then snd d # vals key ds else vals key ds)"
  by (simp_all add: vals_def)

abbreviation env_pairs :: "EnvVar list \<Rightarrow> (string \<times> string) list" where
  "env_pairs env \<equiv> map (\<lambda>v. (ev_key v, ev_value v)) env"

lemma parse_set_env_args_Cons:
  assumes "parse_set_env_args (arg # args) env = Inr env'"
  obtains k v where "split_once (CHR ''='') arg = Some (k, v)" "k \<noteq> []"
    "parse_set_env_args args
       (if k \<in> ev_key ` set env then env else env @ [\<lparr>ev_key = k, ev_value = v\<rparr>]) = Inr env'"
proof -
  obtain k v where kv: "split_once (CHR ''='') arg = Some (k, v)" "k \<noteq> []"
    using assms by (auto split: option.splits if_splits)
  moreover have "list_ex (\<lambda>v. ev_key v = k) env \<longleftrightarrow> k \<in> ev_key ` set env"
    by (auto simp: list_ex_iff)
  ultimately show ?thesis using assms by (intro that [OF kv]) (simp split: if_splits)
qed

lemma parse_set_env_args_distinct:
  assumes "parse_set_env_args args env = Inr env'" "distinct (map ev_key env)"
  shows "distinct (map ev_key env')"
  using assms
proof (induction args arbitrary: env)
  case (Cons arg args)
  from Cons.prems(1) obtain k v where
    "parse_set_env_args args
       (if k \<in> ev_key ` set env then env else env @ [\<lparr>ev_key = k, ev_value = v\<rparr>]) = Inr env'"
    by (rule parse_set_env_args_Cons)
  then show ?case by (rule Cons.IH) (use Cons.prems(2) in auto)
qed simp

lemma parse_set_env_args_lookup:
  assumes "parse_set_env_args args env = Inr env'"
  shows "map_of (env_pairs env') = map_of (env_pairs env @ map (the \<circ> split_once (CHR ''='')) args)"
  using assms
proof (induction args arbitrary: env)
  case (Cons arg args)
  from Cons.prems obtain k v where kv: "split_once (CHR ''='') arg = Some (k, v)"
    "parse_set_env_args args
       (if k \<in> ev_key ` set env then env else env @ [\<lparr>ev_key = k, ev_value = v\<rparr>]) = Inr env'"
    by (rule parse_set_env_args_Cons)
  have "map_of (env_pairs env @ (k, v) # zs) = map_of (env_pairs env @ zs)"
    if "k \<in> ev_key ` set env" for zs
  proof -
    have "k \<in> dom (map_of (env_pairs env))"
      using that by (simp add: dom_map_of_conv_image_fst image_image)
    then show ?thesis by (auto simp: map_add_def fun_eq_iff split: option.splits)
  qed
  with Cons.IH [OF kv(2)] kv(1) show ?case by (auto split: if_splits)
qed simp

lemma parse_set_env_nonempty: 
  assumes "parse_set_env sw val = Inr env"
  shows "env \<noteq> []"
proof
  assume "env = []"
  with assms obtain args where a: "args \<noteq> []" "parse_set_env_args args [] = Inr []"
    by (auto simp: parse_set_env_def and_then_eq_Inr split: if_splits)
  then have "map_of (map (the \<circ> split_once (CHR ''='')) args) = Map.empty"
    using parse_set_env_args_lookup [of args "[]" "[]"] by simp
  with a(1) show False by (simp add: map_of_eq_empty_iff)
qed

text \<open>One directive, field by field.\<close>

lemma directive_cases:
  obtains "key = ''user''" | "key = ''hostname''" | "key = ''port''" | "key = ''identityfile''"
  | "key = ''identityagent''" | "key = ''forwardagent''" | "key = ''setenv''"
  | "key = ''localforward''" | "key = ''remoteforward''"
  | "key \<notin> {''user'', ''hostname'', ''port'', ''identityfile'', ''identityagent'', ''forwardagent'',
             ''setenv'', ''localforward'', ''remoteforward''}"
proof (cases "key \<in> {''user'', ''hostname'', ''port'', ''identityfile'', ''identityagent'',
             ''forwardagent'', ''setenv'', ''localforward'', ''remoteforward''}")
  case True
  then show ?thesis unfolding insert_iff empty_iff by (elim disjE FalseE) (fact that)+
next
  case False
  then show ?thesis by (fact that(10))
qed

lemma apply_directive_fields:
  assumes "apply_directive E cfg key val = Inr c"
  shows "shc_user c = (if key = ''user'' \<and> shc_user cfg = None then Some val else shc_user cfg)"
    and "shc_hostname c =
      (if key = ''hostname'' \<and> shc_hostname cfg = None then Some val else shc_hostname cfg)"
    and "shc_port c = (if key = ''port'' \<and> shc_port cfg = None then parse_u16 val else shc_port cfg)"
    and "shc_identity_file c =
      (if key = ''identityfile'' \<and> shc_identity_file cfg = None
       then Some (expand_home (sce_home_dir E) val) else shc_identity_file cfg)"
    and "shc_identity_agent c =
      (if key = ''identityagent'' \<and> shc_identity_agent cfg = None
       then parse_identity_agent (sce_env E) (sce_home_dir E) val else shc_identity_agent cfg)"
    and "shc_forward_agent c =
      (if key = ''forwardagent'' \<and> shc_forward_agent cfg = None
       then parse_forward_agent (sce_env E) (sce_home_dir E) val else shc_forward_agent cfg)"
  using assms
  by (cases key rule: directive_cases;
      simp add: apply_directive_def and_then_eq_Inr split: if_splits; fastforce)+

lemma apply_directive_lists:
  assumes "apply_directive E cfg key val = Inr c"
  shows "if key = ''setenv'' \<and> shc_set_env cfg = []
         then parse_set_env (sce_shell_words E) val = Inr (shc_set_env c)
         else shc_set_env c = shc_set_env cfg"
    and "if key = ''localforward''
         then \<exists>f. parse_ssh_forward (sce_shell_words E) val = Inr f \<and>
                  shc_local_forwards c = shc_local_forwards cfg @ [f]
         else shc_local_forwards c = shc_local_forwards cfg"
    and "if key = ''remoteforward''
         then \<exists>f. parse_ssh_forward (sce_shell_words E) val = Inr f \<and>
                  shc_remote_forwards c = shc_remote_forwards cfg @ [f]
         else shc_remote_forwards c = shc_remote_forwards cfg"
  using assms
  by (cases key rule: directive_cases;
      simp add: apply_directive_def and_then_eq_Inr split: if_splits; fastforce)+

lemma apply_directive_ok:
  "is_ok (apply_directive E cfg key val) \<longleftrightarrow>
     (key = ''setenv'' \<and> shc_set_env cfg = [] \<longrightarrow> is_ok (parse_set_env (sce_shell_words E) val)) \<and>
     (key = ''localforward'' \<or> key = ''remoteforward'' \<longrightarrow>
        is_ok (parse_ssh_forward (sce_shell_words E) val))"
  by (cases key rule: directive_cases) (auto simp: apply_directive_def is_ok_iff and_then_eq_Inr)

text \<open>Fields that keep the first usable value, and fields that collect every value.\<close>

lemma apply_directives_first:
  assumes step: "\<And>cfg k v c. apply_directive E cfg k v = Inr c \<Longrightarrow>
      fld c = (if k = key \<and> fld cfg = None then f v else fld cfg)"
    and "apply_directives E cfg ds = Inr c"
  shows "fld c = (case fld cfg of Some u \<Rightarrow> Some u | None \<Rightarrow> first_some f (vals key ds))"
  using assms(2)
proof (induction ds arbitrary: cfg)
  case (Cons d ds)
  then obtain c' where c': "apply_directive E cfg (fst d) (snd d) = Inr c'"
      "apply_directives E c' ds = Inr c" by (auto simp: and_then_eq_Inr)
  show ?case using Cons.IH [OF c'(2)] step [OF c'(1)] by (auto split: option.splits)
qed (simp split: option.split)

lemma apply_directives_collect:
  assumes step: "\<And>cfg k v c. apply_directive E cfg k v = Inr c \<Longrightarrow>
      if k = key then \<exists>x. f v = Inr x \<and> fld c = fld cfg @ [x] else fld c = fld cfg"
    and "apply_directives E cfg ds = Inr c"
  shows "\<exists>xs. collect_results f (vals key ds) = Inr xs \<and> fld c = fld cfg @ xs"
  using assms(2)
proof (induction ds arbitrary: cfg)
  case (Cons d ds)
  then obtain c' where c': "apply_directive E cfg (fst d) (snd d) = Inr c'"
      "apply_directives E c' ds = Inr c" by (auto simp: and_then_eq_Inr)
  show ?case using Cons.IH [OF c'(2)] step [OF c'(1)] by (auto split: if_splits)
qed simp

lemma first_some_map_of: "first_some (\<lambda>v. Some (f v)) (vals key ds) = map_option f (map_of ds key)"
  by (induction ds) auto

lemma first_some_Some: "first_some Some (vals key ds) = map_of ds key"
  by (induction ds) auto

lemma apply_directives_set_env:
  assumes "apply_directives E cfg ds = Inr c"
  shows "if shc_set_env cfg = [] \<and> vals ''setenv'' ds \<noteq> []
         then parse_set_env (sce_shell_words E) (hd (vals ''setenv'' ds)) = Inr (shc_set_env c)
         else shc_set_env c = shc_set_env cfg"
  using assms
proof (induction ds arbitrary: cfg)
  case (Cons d ds)
  then obtain c' where c': "apply_directive E cfg (fst d) (snd d) = Inr c'"
      "apply_directives E c' ds = Inr c" by (auto simp: and_then_eq_Inr)
  show ?case
    using Cons.IH [OF c'(2)] apply_directive_lists(1) [OF c'(1)] parse_set_env_nonempty
    by (auto split: if_splits)
qed simp

lemma is_ok_and_then: "is_ok (and_then r f) \<longleftrightarrow> (\<exists>x. r = Inr x \<and> is_ok (f x))"
  by (cases r) auto

lemma apply_directives_ok:
  "is_ok (apply_directives E cfg ds) \<longleftrightarrow>
     (shc_set_env cfg = [] \<and> vals ''setenv'' ds \<noteq> [] \<longrightarrow>
        is_ok (parse_set_env (sce_shell_words E) (hd (vals ''setenv'' ds)))) \<and>
     (\<forall>v\<in>set (vals ''localforward'' ds @ vals ''remoteforward'' ds).
        is_ok (parse_ssh_forward (sce_shell_words E) v))"
proof (induction ds arbitrary: cfg)
  case (Cons d ds)
  show ?case
  proof (cases "apply_directive E cfg (fst d) (snd d)")
    case (Inl e)
    then show ?thesis using apply_directive_ok [of E cfg "fst d" "snd d"] by auto
  next
    case (Inr c)
    then show ?thesis
      using apply_directive_ok [of E cfg "fst d" "snd d"] Cons [of c]
        apply_directive_lists(1) [OF Inr] parse_set_env_nonempty
      by (auto split: if_splits)
  qed
qed simp

section \<open>Colon-separated forwards\<close>

text \<open>\<open>closed_from d s\<close>: from bracket depth \<open>d\<close> the text \<open>s\<close> returns to depth 0 and has no colon
  at depth 0.\<close>

fun closed_from :: "nat \<Rightarrow> string \<Rightarrow> bool" where
  "closed_from d [] = (d = 0)"
| "closed_from d (c # cs) =
     (if c = CHR ''['' then closed_from (d + 1) cs
      else if c = CHR '']'' then closed_from (d - 1) cs
      else \<not> (c = CHR '':'' \<and> d = 0) \<and> closed_from d cs)"

lemma split_colon_step_closed:
  "closed_from d p \<Longrightarrow> foldl split_colon_step (parts, cur, d) p = (parts, cur @ p, 0)"
  by (induction p arbitrary: cur d) (auto simp: split_colon_step_def)

lemma split_colon_parts:
  assumes "ps \<noteq> []" "list_all (closed_from 0) ps"
  shows "foldl split_colon_step (parts, [], 0) (join_pieces (CHR '':'') ps) =
           (parts @ butlast ps, last ps, 0)"
  using assms
proof (induction "CHR '':''" ps arbitrary: parts rule: join_pieces.induct)
  case (3 p q qs)
  have "foldl split_colon_step (parts, [], 0) (join_pieces (CHR '':'') (p # q # qs)) =
        foldl split_colon_step (parts @ [p], [], 0) (join_pieces (CHR '':'') (q # qs))"
    using 3(3) by (simp add: split_colon_step_closed) (simp add: split_colon_step_def)
  with 3 show ?case by simp
qed (auto simp: split_colon_step_closed)

lemma split_colon_join:
  assumes "ps \<noteq> []" "list_all (closed_from 0) ps"
  shows "split_colon_bracketed (join_pieces (CHR '':'') ps) = ps"
  using assms by (simp add: split_colon_bracketed_def split_colon_parts)

lemma join_pieces_snoc: "ps \<noteq> [] \<Longrightarrow> join_pieces d (ps @ [p]) = join_pieces d ps @ d # p"
  by (induction d ps rule: join_pieces.induct) auto

lemma join_pieces_extend: "join_pieces d (ps @ [p @ q]) = join_pieces d (ps @ [p]) @ q"
  by (cases "ps = []") (simp_all add: join_pieces_snoc)

lemma split_colon_step_join:
  "split_colon_step (parts, cur, d) c = (parts', cur', d') \<Longrightarrow>
     join_pieces (CHR '':'') (parts' @ [cur']) = join_pieces (CHR '':'') (parts @ [cur]) @ [c]"
  by (auto simp: split_colon_step_def join_pieces_extend join_pieces_snoc [of "parts @ [cur]", simplified]
      split: if_splits)

lemma split_colon_fold_join:
  "foldl split_colon_step (parts, cur, d) s = (parts', cur', d') \<Longrightarrow>
     join_pieces (CHR '':'') (parts' @ [cur']) = join_pieces (CHR '':'') (parts @ [cur]) @ s"
proof (induction s arbitrary: parts cur d)
  case (Cons c cs)
  obtain p1 c1 d1 where st: "split_colon_step (parts, cur, d) c = (p1, c1, d1)"
    by (metis prod_cases3)
  with Cons.prems have "foldl split_colon_step (p1, c1, d1) cs = (parts', cur', d')" by simp
  from Cons.IH [OF this] split_colon_step_join [OF st] show ?case by simp
qed simp

definition show_host :: "string \<Rightarrow> string" where
  "show_host h = (if CHR '':'' \<in> set h then ''['' @ h @ '']'' else h)"

abbreviation no_brackets :: "string \<Rightarrow> bool" where
  "no_brackets h \<equiv> CHR ''['' \<notin> set h \<and> CHR '']'' \<notin> set h"

lemma closed_from_plain: "no_brackets h \<Longrightarrow> CHR '':'' \<notin> set h \<Longrightarrow> closed_from 0 h"
  by (induction h) auto

lemma closed_from_inside: "no_brackets h \<Longrightarrow> closed_from (Suc d) (h @ '']'') \<longleftrightarrow> d = 0"
  by (induction h) auto

lemma closed_from_show_host: "no_brackets h \<Longrightarrow> closed_from 0 (show_host h)"
  by (auto simp: show_host_def closed_from_plain closed_from_inside)

lemma unbracket_bracketed: "unbracket_host (''['' @ h @ '']'') = h"
proof -
  have "strip_prefix ''['' (''['' @ h @ '']'') = Some (h @ '']'')" "strip_suffix '']'' (h @ '']'') = Some h"
    by (simp_all only: strip_prefix_iff strip_suffix_iff)
  then show ?thesis by (simp only: unbracket_host_def option.case)
qed

lemma unbracket_plain: "CHR ''['' \<notin> set h \<Longrightarrow> unbracket_host h = h"
  by (cases h) (auto simp: unbracket_host_def)

lemma unbracket_show_host: "no_brackets h \<Longrightarrow> unbracket_host (show_host h) = h"
  using unbracket_bracketed [of h] by (simp add: show_host_def unbracket_plain del: append.simps)

lemma digit_not_special:
  assumes "is_digit c"
  shows "c \<noteq> CHR '':''" "c \<noteq> CHR ''[''" "c \<noteq> CHR '']''"
  using assms by (auto simp: is_digit_def code_def)

lemma closed_from_show_nat: "closed_from 0 (show_nat n)"
  using show_nat_digits [of n]
  by (intro closed_from_plain) (auto simp: list_all_iff dest: digit_not_special)

lemma parse_port_show [simp]: "parse_port m (show_nat (unat p)) = Inr p"
  by (simp add: parse_port_def)

section \<open>Properties\<close>



text \<open>Matching a \<open>Host\<close> line ends for every line and every host name, also one that contains
  pattern characters: the backtracking loop cannot run forever.\<close>

theorem host_block_returns: "\<exists>b. host_block_matches patterns host = Some b"
  by (simp add: host_block_matches_def host_block_loop_total)

text \<open>A \<open>*\<close> in the name itself is taken for a literal match of the pattern's \<open>*\<close>, and the
  pattern \<open>*\<close>, which stands for every name, then fails on it.\<close>

theorem star_in_host_name: "host_pattern_matches ''*'' ''*a'' = Some False \<and> glob_ci ''*'' ''*a''"
proof -
  have "host_pattern_loop ''*'' ''*a'' 0 0 None 0 = Some None"
    by (simp add: host_pattern_loop.simps)
  moreover have "to_ascii_lowercase ''*'' = ''*''" "to_ascii_lowercase ''*a'' = ''*a''"
    by code_simp+
  ultimately show ?thesis by (simp add: host_pattern_matches_def glob_ci_def)
qed

text \<open>C11. The parsed configuration is that of the blocks that match the host, in file order, with
  the first value winning: user, host name and identity file take the first value, port and agents
  the first usable one, \<open>SetEnv\<close> the first directive, and forwards are all collected in order.\<close>

theorem parse_ssh_config_first_wins:
  assumes "parse_ssh_config E alias data = Inr cfg"
  defines "ds \<equiv> directives_for alias data"
  shows "shc_user cfg = map_of ds ''user'' \<and>
    shc_hostname cfg = map_of ds ''hostname'' \<and>
    shc_port cfg = first_some parse_u16 (vals ''port'' ds) \<and>
    shc_identity_file cfg = map_option (expand_home (sce_home_dir E)) (map_of ds ''identityfile'') \<and>
    shc_identity_agent cfg =
      first_some (parse_identity_agent (sce_env E) (sce_home_dir E)) (vals ''identityagent'' ds) \<and>
    shc_forward_agent cfg =
      first_some (parse_forward_agent (sce_env E) (sce_home_dir E)) (vals ''forwardagent'' ds) \<and>
    (case vals ''setenv'' ds of
       [] \<Rightarrow> shc_set_env cfg = []
     | v # _ \<Rightarrow> parse_set_env (sce_shell_words E) v = Inr (shc_set_env cfg)) \<and>
    collect_results (parse_ssh_forward (sce_shell_words E)) (vals ''localforward'' ds) =
      Inr (shc_local_forwards cfg) \<and>
    collect_results (parse_ssh_forward (sce_shell_words E)) (vals ''remoteforward'' ds) =
      Inr (shc_remote_forwards cfg)"
proof -
  have a: "apply_directives E default_ssh_host_config ds = Inr cfg"
    using assms by (simp add: parse_ssh_config_directives)
  note first = apply_directives_first [OF _ a] and all = apply_directives_collect [OF _ a]
  note start = default_ssh_host_config_def
  have "shc_user cfg = map_of ds ''user''"
    using first [where fld = shc_user and key = "''user''" and f = Some, OF apply_directive_fields(1)]
    by (simp add: start first_some_Some)
  moreover have "shc_hostname cfg = map_of ds ''hostname''"
    using first [where fld = shc_hostname and key = "''hostname''" and f = Some, OF apply_directive_fields(2)]
    by (simp add: start first_some_Some)
  moreover have "shc_port cfg = first_some parse_u16 (vals ''port'' ds)"
    using first [where fld = shc_port and key = "''port''" and f = parse_u16, OF apply_directive_fields(3)]
    by (simp add: start)
  moreover have "shc_identity_file cfg =
      map_option (expand_home (sce_home_dir E)) (map_of ds ''identityfile'')"
    using first [where fld = shc_identity_file and key = "''identityfile''"
        and f = "\<lambda>v. Some (expand_home (sce_home_dir E) v)", OF apply_directive_fields(4)]
    by (simp add: start first_some_map_of)
  moreover have "shc_identity_agent cfg =
      first_some (parse_identity_agent (sce_env E) (sce_home_dir E)) (vals ''identityagent'' ds)"
    using first [where fld = shc_identity_agent and key = "''identityagent''"
        and f = "parse_identity_agent (sce_env E) (sce_home_dir E)", OF apply_directive_fields(5)]
    by (simp add: start)
  moreover have "shc_forward_agent cfg =
      first_some (parse_forward_agent (sce_env E) (sce_home_dir E)) (vals ''forwardagent'' ds)"
    using first [where fld = shc_forward_agent and key = "''forwardagent''"
        and f = "parse_forward_agent (sce_env E) (sce_home_dir E)", OF apply_directive_fields(6)]
    by (simp add: start)
  moreover have "case vals ''setenv'' ds of [] \<Rightarrow> shc_set_env cfg = []
      | v # _ \<Rightarrow> parse_set_env (sce_shell_words E) v = Inr (shc_set_env cfg)"
    using apply_directives_set_env [OF a] by (cases "vals ''setenv'' ds") (simp_all add: start)
  moreover have "collect_results (parse_ssh_forward (sce_shell_words E)) (vals ''localforward'' ds) =
      Inr (shc_local_forwards cfg)"
    using all [where fld = shc_local_forwards and key = "''localforward''"
        and f = "parse_ssh_forward (sce_shell_words E)", OF apply_directive_lists(2)]
    by (simp add: start)
  moreover have "collect_results (parse_ssh_forward (sce_shell_words E)) (vals ''remoteforward'' ds) =
      Inr (shc_remote_forwards cfg)"
    using all [where fld = shc_remote_forwards and key = "''remoteforward''"
        and f = "parse_ssh_forward (sce_shell_words E)", OF apply_directive_lists(3)]
    by (simp add: start)
  ultimately show ?thesis by blast
qed

definition example_env :: ssh_config_env where
  "example_env = \<lparr>sce_env = (\<lambda>_. None), sce_home_dir = Some ''/home/me'',
     sce_shell_words = (\<lambda>s. Some (split_whitespace s))\<rparr>"

definition example_config :: string where
  "example_config = ''User early'' @ [CHR 0x0A] @ ''Host web*'' @ [CHR 0x0A] @ ''  User first'' @ [CHR 0x0A] @
     ''Host db'' @ [CHR 0x0A] @ ''  User other'' @ [CHR 0x0A] @ ''Host *'' @ [CHR 0x0A] @
     ''  User last'' @ [CHR 0x0A] @ ''  LocalForward 8080:[fe80::1]:80''"

lemma example_config_directives:
  "directives_for ''web1'' example_config =
     [(''user'', ''first''), (''user'', ''last''), (''localforward'', ''8080:[fe80::1]:80'')]"
  by code_simp

theorem parse_ssh_config_first_wins_witness:
  "\<exists>cfg. parse_ssh_config example_env ''web1'' example_config = Inr cfg \<and>
     shc_user cfg = Some ''first'' \<and> shc_port cfg = None \<and>
     shc_local_forwards cfg =
       [\<lparr>listen_host = ''127.0.0.1'', listen_port = 8080, target_host = ''fe80::1'', target_port = 80\<rparr>]"
proof -
  let ?ds = "directives_for ''web1'' example_config"
  have f: "collect_results (parse_ssh_forward (sce_shell_words example_env)) (vals ''localforward'' ?ds) =
      Inr [\<lparr>listen_host = ''127.0.0.1'', listen_port = 8080, target_host = ''fe80::1'', target_port = 80\<rparr>]"
    unfolding example_config_directives by code_simp
  have "is_ok (parse_ssh_config example_env ''web1'' example_config)"
    unfolding parse_ssh_config_directives example_config_directives by code_simp
  then obtain cfg where c: "parse_ssh_config example_env ''web1'' example_config = Inr cfg"
    by (auto simp: is_ok_iff)
  show ?thesis
    using parse_ssh_config_first_wins [OF c] c f by (simp add: example_config_directives)
qed

text \<open>Parsing fails exactly when a forward of a matching block, or the first \<open>SetEnv\<close> of the
  matching blocks, is malformed: nothing in a block for another host can make it fail.\<close>

theorem parse_ssh_config_error_iff:
  "is_ok (parse_ssh_config E alias data) \<longleftrightarrow>
     (case vals ''setenv'' (directives_for alias data) of
        [] \<Rightarrow> True | v # _ \<Rightarrow> is_ok (parse_set_env (sce_shell_words E) v)) \<and>
     list_all (\<lambda>v. is_ok (parse_ssh_forward (sce_shell_words E) v))
       (vals ''localforward'' (directives_for alias data) @
        vals ''remoteforward'' (directives_for alias data))"
  by (simp add: parse_ssh_config_directives apply_directives_ok default_ssh_host_config_def
      list_all_iff split: list.splits)

text \<open>\<open>SetEnv\<close> yields no name twice, and gives every name the value of its first assignment.\<close>

theorem parse_set_env_first_wins:
  assumes "parse_set_env sw val = Inr env" "sw val = Some args"
  shows "distinct (map ev_key env) \<and>
     (\<forall>k. map_of (env_pairs env) k = map_of (map (the \<circ> split_once (CHR ''='')) args) k)"
proof -
  have a: "parse_set_env_args args [] = Inr env"
    using assms by (auto simp: parse_set_env_def split: if_splits)
  show ?thesis
    using parse_set_env_args_distinct [OF a] parse_set_env_args_lookup [OF a] by simp
qed

theorem parse_set_env_first_wins_witness:
  "\<exists>env. parse_set_env (\<lambda>s. Some (split_whitespace s)) ''A=1 B=2 A=3'' = Inr env \<and>
     distinct (map ev_key env) \<and> map_of (env_pairs env) ''A'' = Some ''1''"
proof -
  have sw: "split_whitespace ''A=1 B=2 A=3'' = [''A=1'', ''B=2'', ''A=3'']" by code_simp
  have "is_ok (parse_set_env (\<lambda>s. Some (split_whitespace s)) ''A=1 B=2 A=3'')" by code_simp
  then obtain env where e: "parse_set_env (\<lambda>s. Some (split_whitespace s)) ''A=1 B=2 A=3'' = Inr env"
    by (auto simp: is_ok_iff)
  show ?thesis
    using parse_set_env_first_wins [OF e, of "[''A=1'', ''B=2'', ''A=3'']"] e by (simp add: sw)
qed

text \<open>Splitting a forward at its colons loses nothing: joining the parts with colons gives
  the text back, whatever brackets it has.\<close>

theorem split_colon_bracketed_join:
  "join_pieces (CHR '':'') (split_colon_bracketed s) = s"
  using split_colon_fold_join [of "[]" "[]" 0 s]
  by (auto simp: split_colon_bracketed_def split: prod.splits)

text \<open>A forward written out parses back to itself, with IPv6 addresses in brackets, in the
  four-part form and in the three-part form, which listens on the loopback address.\<close>

theorem colon_forward_roundtrip:
  assumes "no_brackets lh" "no_brackets th"
  shows "parse_colon_forward
      (join_pieces (CHR '':'') [show_host lh, show_nat (unat lp), show_host th, show_nat (unat tp)]) =
      Inr \<lparr>listen_host = lh, listen_port = lp, target_host = th, target_port = tp\<rparr> \<and>
    parse_colon_forward
      (join_pieces (CHR '':'') [show_nat (unat lp), show_host th, show_nat (unat tp)]) =
      Inr \<lparr>listen_host = ''127.0.0.1'', listen_port = lp, target_host = th, target_port = tp\<rparr>"
  using assms
  by (simp add: parse_colon_forward_def split_colon_join closed_from_show_host closed_from_show_nat
      unbracket_show_host del: join_pieces.simps)

theorem colon_forward_roundtrip_witness:
  "parse_colon_forward ''[::1]:8080:[fe80::2]:22'' =
     Inr \<lparr>listen_host = ''::1'', listen_port = 8080, target_host = ''fe80::2'', target_port = 22\<rparr>"
proof -
  have "join_pieces (CHR '':'') [show_host ''::1'', show_nat (unat (8080 :: u16)),
      show_host ''fe80::2'', show_nat (unat (22 :: u16))] = ''[::1]:8080:[fe80::2]:22''"
    by code_simp
  then show ?thesis
    using colon_forward_roundtrip [of "''::1''" "''fe80::2''" 8080 22] by simp
qed

end
