(* ===== verification/Permits.thy ===== *)
theory Permits
  imports Prelude
begin

text \<open>
  The semaphores of the server (\<open>tokio::sync::Semaphore\<close> as it is used for connections, forwards and
  their streams): the contract every user of one keeps, and what follows from it in every state that
  can be reached.  The users are the accept loop (\<open>Runtime\<close>), the listeners of remote forwards
  (\<open>Forwarding\<close>) and the streams of a session (\<open>ServerSession\<close>).
\<close>

locale step_invariant =
  fixes step :: "'s \<Rightarrow> 's \<Rightarrow> bool" and inv :: "'s \<Rightarrow> bool"
  assumes step_inv: "step s s' \<Longrightarrow> inv s \<Longrightarrow> inv s'"
begin

lemma reachable_inv: "step\<^sup>*\<^sup>* s s' \<Longrightarrow> inv s \<Longrightarrow> inv s'"
  by (induction rule: rtranclp_induct) (auto intro: step_inv)

end

locale permit_pool = step_invariant step inv for step :: "'s \<Rightarrow> 's \<Rightarrow> bool" and inv :: "'s \<Rightarrow> bool" +
  fixes free :: "'s \<Rightarrow> nat" and used :: "'s \<Rightarrow> nat" and limit :: nat
  assumes balance: "inv s \<Longrightarrow> free s + used s = limit"
begin

lemma used_bounded: "step\<^sup>*\<^sup>* s s' \<Longrightarrow> inv s \<Longrightarrow> used s' \<le> limit"
  using balance reachable_inv by (metis le_add2)

lemma exhausted: "step\<^sup>*\<^sup>* s s' \<Longrightarrow> inv s \<Longrightarrow> free s' = 0 \<longleftrightarrow> used s' = limit"
  using balance reachable_inv by (metis add_0 add_cancel_left_left)

end

end
