(* ===== verification/ServerSession.thy ===== *)
theory ServerSession
  imports Os Config Permits
begin

text \<open>
  \<open>hush-core/src/session.rs\<close>: what the server runs for a session of an authenticated user.  The
  environment and the command line of the process, the wait for it and its end when the client goes
  away, the two kinds of session, and the tasks that serve the other streams of the connection
  meanwhile.

  Everything outside the program is read from two records: the machine (who the server runs as, the
  users' shells, which files exist, the quoting of the package \<open>shell_words\<close>) and the script of one
  session (the results of its writes, of starting the process, and the events of the wait in the
  order they are taken).  A script that ends before the process does leaves the session waiting.
\<close>

section \<open>Environment\<close>

record ConnectionEnv =
  ssh_client :: string
  ssh_connection :: string
  auth_sock :: "string option"

definition from_connection :: "socket_addr \<Rightarrow> ip_addr option \<Rightarrow> socket_addr \<Rightarrow> ConnectionEnv" where
  "from_connection remote local_ip server_addr =
     (let local_ip = (case local_ip of Some ip \<Rightarrow> ip | None \<Rightarrow> sa_ip server_addr);
          remote_ip = show_ip (sa_ip remote);
          remote_port = show_nat (unat (sa_port remote));
          local_port = show_nat (unat (sa_port server_addr))
      in \<lparr>ssh_client = remote_ip @ '' '' @ remote_port @ '' '' @ local_port,
          ssh_connection = remote_ip @ '' '' @ remote_port @ '' '' @ show_ip local_ip @ '' '' @ local_port,
          auth_sock = None\<rparr>)"

definition allowed_env_key :: "string \<Rightarrow> bool" where
  "allowed_env_key key \<longleftrightarrow> key = ''TERM'' \<or> key = ''LANG'' \<or> starts_with ''LC_'' key"

definition valid_env_key :: "string \<Rightarrow> bool" where
  "valid_env_key key \<longleftrightarrow> key \<noteq> [] \<and> CHR ''='' \<notin> set key"

definition push_or_replace_env :: "EnvVar list \<Rightarrow> EnvVar \<Rightarrow> EnvVar list" where
  "push_or_replace_env env var = filter (\<lambda>existing. ev_key existing \<noteq> ev_key var) env @ [var]"

definition session_env ::
  "EnvVar list \<Rightarrow> EnvVar list \<Rightarrow> ConnectionEnv \<Rightarrow> string option \<Rightarrow> bool \<Rightarrow> EnvVar list" where
  "session_env client_env set_env connection_env ssh_tty privileged_switch =
     (let env = filter (\<lambda>var. allowed_env_key (ev_key var)) client_env;
          env = foldl push_or_replace_env env
                  (filter (\<lambda>var. valid_env_key (ev_key var)
                                 \<and> (\<not> privileged_switch \<or> allowed_env_key (ev_key var))) set_env);
          env = env @ [\<lparr>ev_key = ''SSH_CLIENT'', ev_value = ssh_client connection_env\<rparr>,
                       \<lparr>ev_key = ''SSH_CONNECTION'', ev_value = ssh_connection connection_env\<rparr>];
          env = (case ssh_tty of None \<Rightarrow> env | Some tty \<Rightarrow> env @ [\<lparr>ev_key = ''SSH_TTY'', ev_value = tty\<rparr>])
      in case auth_sock connection_env of
           None \<Rightarrow> env
         | Some sock \<Rightarrow> push_or_replace_env env \<lparr>ev_key = ''SSH_AUTH_SOCK'', ev_value = sock\<rparr>)"

section \<open>Commands\<close>

text \<open>A \<open>Command\<close>: the calls of \<open>env\<close> on it in order, the last for a key being the one that counts, and
  the argument of \<open>configure_child_pre_exec\<close>, whether the child gets a controlling terminal.\<close>

record Command =
  cmd_program :: string
  cmd_arg0 :: "string option"
  cmd_args :: "string list"
  cmd_env :: "EnvVar list"
  cmd_controlling_tty :: "bool option"

definition command_new :: "string \<Rightarrow> Command" where
  "command_new program =
     \<lparr>cmd_program = program, cmd_arg0 = None, cmd_args = [], cmd_env = [], cmd_controlling_tty = None\<rparr>"

definition env_value :: "Command \<Rightarrow> string \<Rightarrow> string option" where
  "env_value cmd key = map_option ev_value (find (\<lambda>var. ev_key var = key) (rev (cmd_env cmd)))"

record machine =
  m_is_root :: bool
  m_current_username :: string
  m_shell_for_user :: "string \<Rightarrow> string option"
  m_env :: "string \<Rightarrow> string option"
  m_is_file :: "string \<Rightarrow> bool"
  m_words_join :: "string list \<Rightarrow> string"
  m_words_quote :: "string \<Rightarrow> string"

definition no_nul :: "EnvVar \<Rightarrow> bool" where
  "no_nul var \<longleftrightarrow> CHR 0x00 \<notin> set (ev_key var) \<and> CHR 0x00 \<notin> set (ev_value var)"

definition apply_session_env :: "Command \<Rightarrow> EnvVar list \<Rightarrow> Command" where
  "apply_session_env cmd env = cmd\<lparr>cmd_env := cmd_env cmd @ filter no_nul env\<rparr>"

definition trusted_system_program :: "machine \<Rightarrow> string \<Rightarrow> string" where
  "trusted_system_program M name =
     (case find (m_is_file M) (map (\<lambda>dir. join dir name) [''/usr/bin'', ''/bin'', ''/usr/sbin'', ''/sbin'']) of
        Some candidate \<Rightarrow> candidate
      | None \<Rightarrow> join ''/usr/bin'' name)"

definition exec_argv_command :: "machine \<Rightarrow> string list \<Rightarrow> string" where
  "exec_argv_command M command = ''exec'' @ concat (map (\<lambda>arg. '' '' @ m_words_quote M arg) command)"

definition user_shell :: "machine \<Rightarrow> string \<Rightarrow> string" where
  "user_shell M user =
     (case m_shell_for_user M user of
        Some shell \<Rightarrow> shell
      | None \<Rightarrow> (case m_env M ''SHELL'' of Some shell \<Rightarrow> shell | None \<Rightarrow> ''/bin/sh''))"

definition root_switch :: "machine \<Rightarrow> string \<Rightarrow> bool" where
  "root_switch M user \<longleftrightarrow> m_is_root M \<and> user \<noteq> m_current_username M"

definition command_for_user ::
  "machine \<Rightarrow> string \<Rightarrow> string list \<Rightarrow> bool \<Rightarrow> bool \<Rightarrow> EnvVar list \<Rightarrow> Command" where
  "command_for_user M user command login_shell use_shell env =
     (let finish_command = (\<lambda>cmd. (apply_session_env cmd env)\<lparr>cmd_controlling_tty := Some False\<rparr>)
      in if root_switch M user then
           finish_command ((command_new (trusted_system_program M ''su''))\<lparr>cmd_args :=
             [''-l'', user] @
             (if command = [] then []
              else [''-c'', if use_shell then m_words_join M command else exec_argv_command M command])\<rparr>)
         else if \<not> use_shell \<and> command \<noteq> [] then
           finish_command ((command_new (hd command))\<lparr>cmd_args := tl command\<rparr>)
         else
           let shell = user_shell M user
           in finish_command
                (if command = [] then
                   (if login_shell
                    then (command_new shell)\<lparr>cmd_arg0 :=
                           Some (''-'' @ to_string_lossy (case file_name shell of Some f \<Rightarrow> f | None \<Rightarrow> []))\<rparr>
                    else command_new shell)
                 else (command_new shell)\<lparr>cmd_args := [''-lc'', m_words_join M command]\<rparr>))"

definition pty_argv_strings ::
  "machine \<Rightarrow> bool \<Rightarrow> string \<Rightarrow> string \<Rightarrow> string list \<Rightarrow> bool \<Rightarrow> string list res" where
  "pty_argv_strings M is_root_user current_user user command use_shell =
     (if is_root_user \<and> command = []
      then Inr [to_string_lossy (trusted_system_program M ''login''), ''-p'', ''-f'', user]
      else if is_root_user \<and> user \<noteq> current_user
      then Inr [to_string_lossy (trusted_system_program M ''su''), ''-l'', user, ''-c'',
                if use_shell then m_words_join M command else exec_argv_command M command]
      else
        let shell = user_shell M user
        in if command = [] then Inr [shell]
           else if \<not> use_shell then Inr command
           else Inr [shell, ''-lc'', m_words_join M command])"

definition pty_argv :: "machine \<Rightarrow> string \<Rightarrow> string list \<Rightarrow> bool \<Rightarrow> string list res" where
  "pty_argv M user command use_shell =
     and_then (pty_argv_strings M (m_is_root M) (m_current_username M) user command use_shell)
       (collect_results (\<lambda>s. if CHR 0x00 \<in> set s then Inl (Ctx ''argument contains NUL'' (Foreign ''NulError''))
                              else Inr s))"

definition command_from_argv :: "string list \<Rightarrow> Command res" where
  "command_from_argv argv =
     (case argv of
        [] \<Rightarrow> Inl (Bail ''empty argv'')
      | program # args \<Rightarrow>
          Inr ((command_new (to_string_lossy program))\<lparr>cmd_args := map to_string_lossy args\<rparr>))"

section \<open>Waiting for the process\<close>

text \<open>
  The state of a session: the kernel, and what the session has done so far.  A program over it is
  one over the kernel whose calls are recorded.
\<close>

datatype session_event =
    WroteResponse StreamResponse
  | OpenedStderr
  | AgentStarted "(u32 \<times> u32) option"
  | Spawned Command
  | OutputDrained bool
  | SentEnd StreamOpen

record 'k session =
  ss_kernel :: 'k
  ss_events :: "session_event list"

definition on_kernel :: "('k, 'a) os \<Rightarrow> ('k session, 'a) os" where
  "on_kernel m s = (case m (ss_kernel s) of (k, r) \<Rightarrow> (s\<lparr>ss_kernel := k\<rparr>, r))"

definition emit :: "session_event \<Rightarrow> ('k session, unit) os" where
  "emit e s = (s\<lparr>ss_events := ss_events s @ [e]\<rparr>, Inr ())"

definition given :: "'a res \<Rightarrow> ('s, 'a) os" where
  "given r s = (s, r)"

text \<open>\<open>let _ = ...\<close>: the result is dropped.\<close>

definition ignoring :: "('s, 'a) os \<Rightarrow> ('s, unit) os" where
  "ignoring m s = (fst (m s), Inr ())"

datatype child_event =
    ChildExits "io_error + u32"
  | SignalArrives RemoteSignal
  | SignalsClose
  | TwoSecondsPass

text \<open>None while the child is still waited for.\<close>

fun reap_child :: "string \<Rightarrow> child_event list \<Rightarrow> u32 res option" where
  "reap_child msg [] = None"
| "reap_child msg (ChildExits status # evs) = Some (with_context msg (io_res status))"
| "reap_child msg (_ # evs) = reap_child msg evs"

fun wait_hangup :: "'k kernel \<Rightarrow> int \<Rightarrow> child_event list \<Rightarrow> ('k session, u32 option) os" where
  "wait_hangup K pid [] = os_return None"
| "wait_hangup K pid (ChildExits status # evs) =
     given (map_sum id Some (with_context ''wait for disconnected remote command'' (io_res status)))"
| "wait_hangup K pid (TwoSecondsPass # evs) =
     os_bind (ignoring (on_kernel (send_process_group_signal K pid SIGKILL))) (\<lambda>_.
       given (case reap_child ''reap remote command'' evs of None \<Rightarrow> Inr None | Some r \<Rightarrow> map_sum id Some r))"
| "wait_hangup K pid (_ # evs) = wait_hangup K pid evs"

definition terminate_child_group :: "'k kernel \<Rightarrow> int \<Rightarrow> child_event list \<Rightarrow> ('k session, u32 option) os" where
  "terminate_child_group K pid evs =
     os_bind (ignoring (on_kernel (send_process_group_signal K pid SIGHUP))) (\<lambda>_. wait_hangup K pid evs)"

fun wait_for_child :: "'k kernel \<Rightarrow> int \<Rightarrow> child_event list \<Rightarrow> ('k session, u32 option) os" where
  "wait_for_child K pid [] = os_return None"
| "wait_for_child K pid (ChildExits status # evs) =
     given (map_sum id Some (with_context ''wait for remote command'' (io_res status)))"
| "wait_for_child K pid (SignalArrives signal # evs) =
     os_bind (on_kernel (send_process_group_signal K pid signal)) (\<lambda>_. wait_for_child K pid evs)"
| "wait_for_child K pid (SignalsClose # evs) = terminate_child_group K pid evs"
| "wait_for_child K pid (TwoSecondsPass # evs) = wait_for_child K pid evs"

section \<open>Sessions\<close>

record script =
  sc_remote :: socket_addr
  sc_local_ip :: "ip_addr option"
  sc_uid_gid :: "(u32 \<times> u32) option res"
  sc_agent :: "string res"
  sc_ready :: "unit res"
  sc_open_stderr :: "unit res"
  sc_stderr_header :: "unit res"
  sc_tty_name :: "string option"
  sc_async_pty :: "io_error + unit"
  sc_spawn :: "io_error + int option"
  sc_child :: "child_event list"
  sc_drained :: bool
  sc_end :: "unit res"
  sc_show_error :: "error \<Rightarrow> string"

text \<open>From the spawn of a command to its exit; the result is None while it runs.\<close>

definition spawn_and_wait ::
  "'k kernel \<Rightarrow> script \<Rightarrow> string \<Rightarrow> Command \<Rightarrow> ('k session, ProcessExit option) os" where
  "spawn_and_wait K sc msg cmd =
     os_bind (emit (Spawned cmd)) (\<lambda>_.
     os_bind (given (with_context msg (io_res (sc_spawn sc)))) (\<lambda>id_opt.
     os_bind (given (ok_or (Bail ''child pid missing'') id_opt)) (\<lambda>child_pid.
     os_bind (wait_for_child K child_pid (sc_child sc)) (\<lambda>status.
       case status of
         None \<Rightarrow> os_return None
       | Some status \<Rightarrow>
           os_bind (emit (OutputDrained (sc_drained sc))) (\<lambda>_.
             os_return (Some (process_exit_from_status status)))))))"

definition run_pipes ::
  "'k kernel \<Rightarrow> machine \<Rightarrow> script \<Rightarrow> string \<Rightarrow> string list \<Rightarrow> bool \<Rightarrow> EnvVar list \<Rightarrow> EnvVar list \<Rightarrow> ConnectionEnv
     \<Rightarrow> ('k session, ProcessExit option) os" where
  "run_pipes K M sc user command use_shell env set_env connection_env =
     (let env = session_env env set_env connection_env None (root_switch M user)
      in spawn_and_wait K sc ''spawn remote command'' (command_for_user M user command False use_shell env))"

definition run_pty ::
  "'k kernel \<Rightarrow> machine \<Rightarrow> script \<Rightarrow> string \<Rightarrow> string list \<Rightarrow> string \<Rightarrow> TermSize \<Rightarrow> bool \<Rightarrow> EnvVar list \<Rightarrow> EnvVar list
     \<Rightarrow> ConnectionEnv \<Rightarrow> ('k session, ProcessExit option) os" where
  "run_pty K M sc user command term_name sz use_shell env set_env connection_env =
     os_bind (given (pty_argv M user command use_shell)) (\<lambda>argv.
     os_bind (on_kernel (open_pty K sz)) (\<lambda>pty.
     let env = session_env env set_env connection_env (sc_tty_name sc) (root_switch M user) in
     os_bind (on_kernel (set_nonblocking K (pty_master pty))) (\<lambda>_.
     os_bind (given (io_res (sc_async_pty sc))) (\<lambda>_.
     os_bind (given (command_from_argv argv)) (\<lambda>cmd.
     let cmd = apply_session_env cmd env;
         cmd = cmd\<lparr>cmd_env := cmd_env cmd @ [\<lparr>ev_key = ''TERM'', ev_value = term_name\<rparr>]\<rparr> in
     os_bind (on_kernel (dup_fd K (pty_slave pty))) (\<lambda>_.
     os_bind (on_kernel (dup_fd K (pty_slave pty))) (\<lambda>_.
       spawn_and_wait K sc ''spawn remote pty command'' (cmd\<lparr>cmd_controlling_tty := Some True\<rparr>))))))))"

text \<open>The result is the path of the agent's socket, if forwarding could be set up.\<close>

definition start_session_agent_forward ::
  "machine \<Rightarrow> script \<Rightarrow> 's ServerRuntimeConfig \<Rightarrow> string \<Rightarrow> ('k session, string option) os" where
  "start_session_agent_forward M sc config user =
     (let start = (\<lambda>owner. os_bind (emit (AgentStarted owner)) (\<lambda>_. os_return (result_ok (sc_agent sc))))
      in if \<not> allow_agent_forwarding config then os_return None
         else if root_switch M user then
           (case sc_uid_gid sc of
              Inr (Some ids) \<Rightarrow> start (Some ids)
            | _ \<Rightarrow> os_return None)
         else start None)"

definition send_session_end :: "script \<Rightarrow> StreamOpen \<Rightarrow> ('k session, unit) os" where
  "send_session_end sc header = os_bind (given (sc_end sc)) (\<lambda>_. emit (SentEnd header))"

text \<open>\<open>write_frame\<close> of a response to the session's own stream.\<close>

definition respond :: "script \<Rightarrow> StreamResponse \<Rightarrow> ('k session, unit) os" where
  "respond sc r = os_bind (given (sc_ready sc)) (\<lambda>_. emit (WroteResponse r))"

definition session_status ::
  "'k kernel \<Rightarrow> machine \<Rightarrow> script \<Rightarrow> string \<Rightarrow> OpenSession \<Rightarrow> ConnectionEnv \<Rightarrow> ('k session, ProcessExit option) os" where
  "session_status K M sc user request connection_env =
     (case os_mode request of
        Pty term_name sz \<Rightarrow>
          run_pty K M sc user (os_command request) term_name sz (os_use_shell request) (os_env request)
            (os_set_env request) connection_env
      | Pipes \<Rightarrow>
          run_pipes K M sc user (os_command request) (os_use_shell request) (os_env request)
            (os_set_env request) connection_env)"

definition finish_session ::
  "script \<Rightarrow> ('k session, ProcessExit option) os \<Rightarrow> ('k session, ProcessExit option) os" where
  "finish_session sc run s =
     (case run s of
        (s, Inr None) \<Rightarrow> (s, Inr None)
      | (s, Inr (Some status)) \<Rightarrow>
          os_bind (send_session_end sc (SessionExitStatus status)) (\<lambda>_. os_return (Some status)) s
      | (s, Inl err) \<Rightarrow>
          os_bind (ignoring (send_session_end sc (SessionError (sc_show_error sc err)))) (\<lambda>_. given (Inl err)) s)"

text \<open>What follows the set-up of agent forwarding.\<close>

definition session_body ::
  "'k kernel \<Rightarrow> machine \<Rightarrow> script \<Rightarrow> string \<Rightarrow> OpenSession \<Rightarrow> ConnectionEnv \<Rightarrow> ('k session, ProcessExit option) os" where
  "session_body K M sc user request connection_env =
     os_bind (respond sc SessionReady) (\<lambda>_.
     os_bind (case os_mode request of
                Pty _ _ \<Rightarrow> os_return ()
              | Pipes \<Rightarrow>
                  os_bind (given (sc_open_stderr sc)) (\<lambda>_.
                  os_bind (given (sc_stderr_header sc)) (\<lambda>_. emit OpenedStderr))) (\<lambda>_.
       finish_session sc (session_status K M sc user request connection_env)))"

definition run_server_session ::
  "'k kernel \<Rightarrow> machine \<Rightarrow> script \<Rightarrow> 's ServerRuntimeConfig \<Rightarrow> socket_addr \<Rightarrow> string \<Rightarrow> OpenSession
     \<Rightarrow> ('k session, ProcessExit option) os" where
  "run_server_session K M sc config server_addr user request =
     (let connection_env = from_connection (sc_remote sc) (sc_local_ip sc) server_addr in
      os_bind (if os_forward_agent request then start_session_agent_forward M sc config user else os_return None)
        (\<lambda>sock. session_body K M sc user request
                   (connection_env\<lparr>auth_sock := map_option to_string_lossy sock\<rparr>)))"

section \<open>The other streams of a session\<close>

text \<open>
  The task that accepts bidirectional streams.  \<open>fs_free\<close> is the number of permits left in the
  semaphore it shares with the agent's listener; a stream that is served, of either kind, holds one
  until it ends.  Streams are numbered in the order they are served.
\<close>

record forward_slots =
  fs_free :: nat
  fs_serving :: "nat list"
  fs_next :: nat

datatype slot_event = BiStream "StreamOpen res" | AgentConnects | ServiceEnds nat

datatype slot_action = ServeTarget nat TcpTarget | ServeAgent nat | Rejected | Released

definition take_slot :: "(nat \<Rightarrow> slot_action) \<Rightarrow> forward_slots \<Rightarrow> forward_slots \<times> slot_action" where
  "take_slot act fs =
     (if fs_free fs = 0 then (fs, Rejected)
      else (fs\<lparr>fs_free := fs_free fs - 1, fs_serving := fs_serving fs @ [fs_next fs], fs_next := fs_next fs + 1\<rparr>,
            act (fs_next fs)))"

definition slot_step :: "'s ServerRuntimeConfig \<Rightarrow> forward_slots \<Rightarrow> slot_event \<Rightarrow> forward_slots \<times> slot_action" where
  "slot_step config fs ev =
     (case ev of
        BiStream (Inr (LocalTcpForward target)) \<Rightarrow>
          if allow_tcp_forwarding config then take_slot (\<lambda>n. ServeTarget n target) fs else (fs, Rejected)
      | BiStream _ \<Rightarrow> (fs, Rejected)
      | AgentConnects \<Rightarrow> take_slot ServeAgent fs
      | ServiceEnds n \<Rightarrow>
          (if n \<in> set (fs_serving fs)
           then (fs\<lparr>fs_free := fs_free fs + 1, fs_serving := remove1 n (fs_serving fs)\<rparr>, Released)
           else (fs, Released)))"

text \<open>The task that accepts unidirectional streams: what it passes to the session.\<close>

datatype side_delivery = ToResize TermSize | ToSignal RemoteSignal | Dropped

definition side_stream :: "StreamOpen res \<Rightarrow> side_delivery" where
  "side_stream header =
     (case header of Inr (Resize sz) \<Rightarrow> ToResize sz | Inr (SignalMsg sig) \<Rightarrow> ToSignal sig | _ \<Rightarrow> Dropped)"

section \<open>Facts about the environment\<close>

definition last_var :: "EnvVar list \<Rightarrow> string \<Rightarrow> EnvVar option" where
  "last_var env key = find (\<lambda>var. ev_key var = key) (rev env)"

lemma find_append: "find P (xs @ ys) = (case find P xs of None \<Rightarrow> find P ys | Some x \<Rightarrow> Some x)"
  by (induction xs) auto

lemma find_rev_filter_none: "find P (rev (filter (\<lambda>x. \<not> P x) xs)) = None"
  by (auto simp: find_None_iff)

lemma last_var_snoc: "last_var (env @ [v]) k = (if ev_key v = k then Some v else last_var env k)"
  by (simp add: last_var_def)

lemma last_var_Nil [simp]: "last_var [] k = None"
  by (simp add: last_var_def)

lemma last_var_append: "last_var (a @ b) k = (case last_var b k of None \<Rightarrow> last_var a k | Some v \<Rightarrow> Some v)"
  by (simp add: last_var_def find_append split: option.split)

lemma last_var_drop_key:
  "last_var (filter (\<lambda>e. ev_key e \<noteq> key \<and> no_nul e) env) k
     = (if k = key then None else last_var (filter no_nul env) k)"
  by (induction env rule: rev_induct) (auto simp: last_var_snoc)

lemma last_var_push_or_replace:
  "last_var (filter no_nul (push_or_replace_env env v)) k
     = (if ev_key v = k then (if no_nul v then Some v else None) else last_var (filter no_nul env) k)"
  by (auto simp: push_or_replace_env_def last_var_snoc last_var_drop_key)

lemma last_var_replaced:
  "last_var (filter no_nul (foldl push_or_replace_env env vs)) k
     = (case last_var vs k of
          Some v \<Rightarrow> if no_nul v then Some v else None
        | None \<Rightarrow> last_var (filter no_nul env) k)"
proof (induction vs rule: rev_induct)
  case (snoc v vs)
  then show ?case
    by (simp add: last_var_push_or_replace last_var_snoc)
qed simp

text \<open>What the process should find for a name: the server's own variables first, then the client's
  \<open>SetEnv\<close>, then the variables it sent.\<close>

definition environment_spec ::
  "EnvVar list \<Rightarrow> EnvVar list \<Rightarrow> ConnectionEnv \<Rightarrow> string option \<Rightarrow> bool \<Rightarrow> string \<Rightarrow> string option" where
  "environment_spec client_env set_env conn ssh_tty privileged key =
     (if key = ''SSH_AUTH_SOCK'' \<and> auth_sock conn \<noteq> None then auth_sock conn
      else if key = ''SSH_TTY'' \<and> ssh_tty \<noteq> None then ssh_tty
      else if key = ''SSH_CONNECTION'' then Some (ssh_connection conn)
      else if key = ''SSH_CLIENT'' then Some (ssh_client conn)
      else
        (case (if valid_env_key key \<and> (privileged \<longrightarrow> allowed_env_key key) then last_var set_env key else None) of
           Some v \<Rightarrow> if no_nul v then Some (ev_value v) else None
         | None \<Rightarrow> if allowed_env_key key then map_option ev_value (last_var (filter no_nul client_env) key) else None))"

lemma last_var_filter_key:
  "last_var (filter (\<lambda>v. P (ev_key v)) env) k = (if P k then last_var env k else None)"
  by (induction env rule: rev_induct) (auto simp: last_var_snoc)

lemma filter_swap: "filter P (filter Q xs) = filter Q (filter P xs)"
  by (simp add: conj_commute)

lemma last_var_key: "last_var env k = Some v \<Longrightarrow> ev_key v = k"
  by (induction env rule: rev_induct) (auto simp: last_var_snoc split: if_splits)

abbreviation server_env_clean :: "ConnectionEnv \<Rightarrow> string option \<Rightarrow> bool" where
  "server_env_clean conn ssh_tty \<equiv>
     CHR 0x00 \<notin> set (ssh_client conn) \<and> CHR 0x00 \<notin> set (ssh_connection conn) \<and>
     (case ssh_tty of None \<Rightarrow> True | Some t \<Rightarrow> CHR 0x00 \<notin> set t) \<and>
     (case auth_sock conn of None \<Rightarrow> True | Some t \<Rightarrow> CHR 0x00 \<notin> set t)"

definition server_vars :: "EnvVar list \<Rightarrow> ConnectionEnv \<Rightarrow> string option \<Rightarrow> EnvVar list" where
  "server_vars env conn ssh_tty =
     (let env = env @ [\<lparr>ev_key = ''SSH_CLIENT'', ev_value = ssh_client conn\<rparr>,
                       \<lparr>ev_key = ''SSH_CONNECTION'', ev_value = ssh_connection conn\<rparr>];
          env = (case ssh_tty of None \<Rightarrow> env | Some tty \<Rightarrow> env @ [\<lparr>ev_key = ''SSH_TTY'', ev_value = tty\<rparr>])
      in case auth_sock conn of
           None \<Rightarrow> env
         | Some sock \<Rightarrow> push_or_replace_env env \<lparr>ev_key = ''SSH_AUTH_SOCK'', ev_value = sock\<rparr>)"

definition requested_vars :: "EnvVar list \<Rightarrow> EnvVar list \<Rightarrow> bool \<Rightarrow> EnvVar list" where
  "requested_vars client_env set_env privileged =
     foldl push_or_replace_env (filter (\<lambda>var. allowed_env_key (ev_key var)) client_env)
       (filter (\<lambda>var. valid_env_key (ev_key var) \<and> (\<not> privileged \<or> allowed_env_key (ev_key var))) set_env)"

lemma session_env_split:
  "session_env client_env set_env conn ssh_tty privileged
     = server_vars (requested_vars client_env set_env privileged) conn ssh_tty"
  by (simp only: session_env_def server_vars_def requested_vars_def Let_def)

lemma last_var_requested:
  "map_option ev_value (last_var (filter no_nul (requested_vars client_env set_env privileged)) key)
     = (case (if valid_env_key key \<and> (privileged \<longrightarrow> allowed_env_key key) then last_var set_env key else None) of
           Some v \<Rightarrow> if no_nul v then Some (ev_value v) else None
         | None \<Rightarrow> if allowed_env_key key then map_option ev_value (last_var (filter no_nul client_env) key) else None)"
  unfolding requested_vars_def last_var_replaced filter_swap[of no_nul] last_var_filter_key[of allowed_env_key]
    last_var_filter_key[of "\<lambda>k. valid_env_key k \<and> (\<not> privileged \<or> allowed_env_key k)"]
  by (simp split: option.split)

lemma last_var_two: "last_var (env @ [u, v]) k = (if ev_key v = k then Some v else if ev_key u = k then Some u else last_var env k)"
  by (simp add: last_var_def)

lemma last_var_three:
  "last_var (env @ [t, u, v]) k =
     (if ev_key v = k then Some v else if ev_key u = k then Some u else if ev_key t = k then Some t else last_var env k)"
  by (simp add: last_var_def)

lemmas last_var_few = last_var_snoc last_var_two last_var_three

lemma last_var_server_vars:
  assumes "server_env_clean conn ssh_tty"
  shows "map_option ev_value (last_var (filter no_nul (server_vars env conn ssh_tty)) key)
         = (if key = ''SSH_AUTH_SOCK'' \<and> auth_sock conn \<noteq> None then auth_sock conn
            else if key = ''SSH_TTY'' \<and> ssh_tty \<noteq> None then ssh_tty
            else if key = ''SSH_CONNECTION'' then Some (ssh_connection conn)
            else if key = ''SSH_CLIENT'' then Some (ssh_client conn)
            else map_option ev_value (last_var (filter no_nul env) key))"
proof -
  have nn: "no_nul \<lparr>ev_key = k, ev_value = v\<rparr> \<longleftrightarrow> CHR 0x00 \<notin> set v"
    if "k \<in> {''SSH_CLIENT'', ''SSH_CONNECTION'', ''SSH_TTY'', ''SSH_AUTH_SOCK''}" for k v
    using that by (auto simp: no_nul_def)

  show ?thesis
    using assms
    by (cases "auth_sock conn"; cases ssh_tty)
      (simp_all add: server_vars_def last_var_push_or_replace nn last_var_few
        eq_commute[of _ key])
qed

lemma session_env_last_var:
  assumes "server_env_clean conn ssh_tty"
  shows "map_option ev_value (last_var (filter no_nul (session_env client_env set_env conn ssh_tty privileged)) key)
         = environment_spec client_env set_env conn ssh_tty privileged key"
  unfolding session_env_split last_var_server_vars[OF assms] last_var_requested environment_spec_def
  by (rule refl)

lemma env_value_applied:
  "env_value (apply_session_env cmd env) key =
     (case last_var (filter no_nul env) key of None \<Rightarrow> env_value cmd key | Some v \<Rightarrow> Some (ev_value v))"
  unfolding env_value_def apply_session_env_def last_var_def
  by (cases "find (\<lambda>var. ev_key var = key) (rev (filter no_nul env))") (simp_all add: find_append)


lemma show_nat_no_nul [simp]: "CHR 0x00 \<notin> set (show_nat n)"
  using show_nat_digits[of n] by (auto simp: list_all_iff is_digit_def code_def)

lemma show_hex_no_nul [simp]: "CHR 0x00 \<notin> set (show_hex n)"
proof (induction n rule: show_hex.induct)
  case (1 n)
  have "char_of k \<noteq> CHR 0x00" if "48 \<le> k" "k < 103" for k :: nat
  proof
    assume "char_of k = CHR 0x00"
    then have "of_char (char_of k :: char) = (of_char (CHR 0x00) :: nat)"
      by simp
    with that show False
      by simp
  qed
  note this[THEN not_sym, simp]
  have nz: "CHR 0x00 \<noteq> char_of (48 + d)" "CHR 0x00 \<noteq> char_of (87 + d)" if "d < 16" for d :: nat
    using that by (simp_all add: not_sym)
  show ?case
    using 1 nz[of n] nz[of "n mod 16"] by (subst show_hex.simps) simp
qed

lemma join_pieces_set: "set (join_pieces c ps) \<subseteq> insert c (\<Union> (set ` set ps))"
  by (induction c ps rule: join_pieces.induct) auto

lemma show_ip_no_nul [simp]: "CHR 0x00 \<notin> set (show_ip ip)"
proof -
  have v4: "CHR 0x00 \<notin> set (show_v4 os)" for os
    using join_pieces_set[of "CHR ''.''" "map show_nat os"] by (auto simp: show_v4_def)
  have gs: "CHR 0x00 \<notin> set (show_groups gs)" for gs
    using join_pieces_set[of "CHR '':''" "map show_hex gs"] by (auto simp: show_groups_def)
  show ?thesis
    by (cases ip) (auto simp: show_ip_def v4 show_v6_def gs split: prod.splits)
qed

lemma from_connection_clean:
  "CHR 0x00 \<notin> set (ssh_client (from_connection r l a))" "CHR 0x00 \<notin> set (ssh_connection (from_connection r l a))"
  by (simp_all add: from_connection_def Let_def)

section \<open>Facts about sessions\<close>

text \<open>A program only records events that satisfy \<open>P\<close>.\<close>

definition emits :: "(session_event \<Rightarrow> bool) \<Rightarrow> ('k session, 'a) os \<Rightarrow> bool" where
  "emits P m \<longleftrightarrow> (\<forall>s. \<exists>evs. ss_events (fst (m s)) = ss_events s @ evs \<and> list_all P evs)"

lemma emitsD:
  assumes "emits P m"
  obtains evs where "ss_events (fst (m s)) = ss_events s @ evs" "list_all P evs"
  using assms unfolding emits_def by blast

named_theorems emits_rules

lemma emits_bind [emits_rules]:
  assumes "emits P m" "\<And>x. emits P (f x)"
  shows "emits P (os_bind m f)"
  unfolding emits_def
proof
  fix s
  obtain evs where 1: "ss_events (fst (m s)) = ss_events s @ evs" "list_all P evs"
    using assms(1) unfolding emits_def by blast
  show "\<exists>evs. ss_events (fst (os_bind m f s)) = ss_events s @ evs \<and> list_all P evs"
  proof (cases "snd (m s)")
    case (Inl e)
    with 1 show ?thesis
      by (auto simp: os_bind_def split: prod.splits)
  next
    case (Inr x)
    obtain evs' where "ss_events (fst (f x (fst (m s)))) = ss_events (fst (m s)) @ evs'" "list_all P evs'"
      using assms(2) unfolding emits_def by blast
    with 1 Inr show ?thesis
      by (intro exI[of _ "evs @ evs'"]) (auto simp: os_bind_def split: prod.splits)
  qed
qed

lemma emits_bind_given:
  assumes "\<And>x. r = Inr x \<Longrightarrow> emits P (f x)"
  shows "emits P (os_bind (given r) f)"
  using assms by (cases r) (auto simp: emits_def os_bind_def given_def)

lemma emits_simple [emits_rules]:
  "emits P (os_return x)" "emits P (given r)" "emits P (on_kernel m)" "P e \<Longrightarrow> emits P (emit e)"
  by (auto simp: emits_def os_return_def given_def on_kernel_def emit_def split: prod.splits)

lemma emits_ignoring [emits_rules]: "emits P m \<Longrightarrow> emits P (ignoring m)"
  by (simp add: emits_def ignoring_def)

lemma emits_if [emits_rules]: "(b \<Longrightarrow> emits P m) \<Longrightarrow> (\<not> b \<Longrightarrow> emits P n) \<Longrightarrow> emits P (if b then m else n)"
  by simp

lemma emits_option [emits_rules]:
  "(x = None \<Longrightarrow> emits P m) \<Longrightarrow> (\<And>y. x = Some y \<Longrightarrow> emits P (n y)) \<Longrightarrow> emits P (case x of None \<Rightarrow> m | Some y \<Rightarrow> n y)"
  by (cases x) auto

lemma emits_mode [emits_rules]:
  "(\<And>t z. x = Pty t z \<Longrightarrow> emits P (m t z)) \<Longrightarrow> (x = Pipes \<Longrightarrow> emits P n)
     \<Longrightarrow> emits P (case x of Pty t z \<Rightarrow> m t z | Pipes \<Rightarrow> n)"
  by (cases x) auto

lemma emits_wait_hangup [emits_rules]: "emits P (wait_hangup K pid evs)"
  by (induction evs rule: wait_hangup.induct) (auto intro!: emits_rules)

lemma emits_wait_for_child [emits_rules]: "emits P (wait_for_child K pid evs)"
  by (induction evs rule: wait_for_child.induct) (auto intro!: emits_rules simp: terminate_child_group_def)

text \<open>The command a session spawns, if it comes to that.\<close>

definition session_command ::
  "machine \<Rightarrow> script \<Rightarrow> string \<Rightarrow> OpenSession \<Rightarrow> ConnectionEnv \<Rightarrow> Command res" where
  "session_command M sc user request conn =
     (case os_mode request of
        Pipes \<Rightarrow>
          Inr (command_for_user M user (os_command request) False (os_use_shell request)
                 (session_env (os_env request) (os_set_env request) conn None (root_switch M user)))
      | Pty term_name sz \<Rightarrow>
          and_then (pty_argv M user (os_command request) (os_use_shell request)) (\<lambda>argv.
          and_then (command_from_argv argv) (\<lambda>cmd.
            let cmd = apply_session_env cmd
                        (session_env (os_env request) (os_set_env request) conn (sc_tty_name sc) (root_switch M user))
            in Inr (cmd\<lparr>cmd_env := cmd_env cmd @ [\<lparr>ev_key = ''TERM'', ev_value = term_name\<rparr>],
                        cmd_controlling_tty := Some True\<rparr>))))"

abbreviation only_spawns :: "Command res \<Rightarrow> session_event \<Rightarrow> bool" where
  "only_spawns c e \<equiv> (\<forall>cmd. e = Spawned cmd \<longrightarrow> c = Inr cmd)"

lemma spawn_and_wait_spawns: "emits (only_spawns (Inr cmd)) (spawn_and_wait K sc msg cmd)"
  unfolding spawn_and_wait_def by (auto intro!: emits_rules)

lemma session_status_spawns:
  "emits (only_spawns (session_command M sc user request conn)) (session_status K M sc user request conn)"
proof (cases "os_mode request")
  case Pipes
  show ?thesis
    unfolding session_status_def run_pipes_def session_command_def Pipes SessionMode.case Let_def
    by (rule spawn_and_wait_spawns)
next
  case (Pty term_name sz)
  show ?thesis
    unfolding session_status_def run_pty_def Let_def Pty SessionMode.case
    by (intro emits_bind_given emits_rules emits_bind)
      (auto simp: session_command_def Pty Let_def spawn_and_wait_spawns[simplified])
qed


lemma emits_finish_session:
  assumes "emits P run" "\<And>h. P (SentEnd h)"
  shows "emits P (finish_session sc run)"
  unfolding emits_def
proof
  fix s
  obtain evs where 1: "ss_events (fst (run s)) = ss_events s @ evs" "list_all P evs"
    using assms(1) unfolding emits_def by blast
  have ends: "emits P (os_bind (send_session_end sc h) (\<lambda>_. os_return y))"
    "emits P (os_bind (ignoring (send_session_end sc h)) (\<lambda>_. given r))" for h and r :: "ProcessExit option res" and y :: "ProcessExit option"
    unfolding send_session_end_def by (auto intro!: emits_rules assms(2))
  show "\<exists>evs. ss_events (fst (finish_session sc run s)) = ss_events s @ evs \<and> list_all P evs"
  proof (cases "run s")
    case (Pair s1 r)
    consider "r = Inr None" | st where "r = Inr (Some st)" | e where "r = Inl e"
      by (cases r) (auto split: option.splits)
    then show ?thesis
    proof cases
      case 2
      obtain evs' where "ss_events (fst (os_bind (send_session_end sc (SessionExitStatus st)) (\<lambda>_. os_return (Some st)) s1))
          = ss_events s1 @ evs'" "list_all P evs'"
        using ends(1) unfolding emits_def by blast
      with 1 2 Pair show ?thesis
        by (intro exI[of _ "evs @ evs'"]) (simp add: finish_session_def)
    next
      case 3
      obtain evs' where "ss_events (fst (os_bind (ignoring (send_session_end sc (SessionError (sc_show_error sc e))))
          (\<lambda>_. given (Inl e :: ProcessExit option res)) s1)) = ss_events s1 @ evs'" "list_all P evs'"
        using ends(2) unfolding emits_def by blast
      with 1 3 Pair show ?thesis
        by (intro exI[of _ "evs @ evs'"]) (simp add: finish_session_def)
    qed (use 1 Pair in \<open>auto simp: finish_session_def\<close>)
  qed
qed

text \<open>The socket the agent gets in a session, and what it tells the process about the connection.\<close>

definition session_sock :: "machine \<Rightarrow> script \<Rightarrow> 's ServerRuntimeConfig \<Rightarrow> string \<Rightarrow> OpenSession \<Rightarrow> string option" where
  "session_sock M sc config user request =
     (if os_forward_agent request \<and> allow_agent_forwarding config
         \<and> (root_switch M user \<longrightarrow> (\<exists>ids. sc_uid_gid sc = Inr (Some ids)))
      then result_ok (sc_agent sc) else None)"

definition session_connection ::
  "machine \<Rightarrow> script \<Rightarrow> 's ServerRuntimeConfig \<Rightarrow> socket_addr \<Rightarrow> string \<Rightarrow> OpenSession \<Rightarrow> ConnectionEnv" where
  "session_connection M sc config server_addr user request =
     (from_connection (sc_remote sc) (sc_local_ip sc) server_addr)
       \<lparr>auth_sock := map_option to_string_lossy (session_sock M sc config user request)\<rparr>"

lemma start_session_agent_forward_runs:
  "\<exists>evs. (if os_forward_agent request then start_session_agent_forward M sc config user else os_return None) s
     = (s\<lparr>ss_events := ss_events s @ evs\<rparr>, Inr (session_sock M sc config user request))
   \<and> (\<forall>e\<in>set evs. \<exists>ids. e = AgentStarted ids)"
  by (auto simp: start_session_agent_forward_def session_sock_def os_return_def os_bind_def emit_def
      intro: exI[of _ "[]"] exI[of _ "[AgentStarted _]"] split: sum.splits option.splits)

lemma run_server_session_body:
  "\<exists>evs. run_server_session K M sc config server_addr user request s =
     session_body K M sc user request (session_connection M sc config server_addr user request)
       (s\<lparr>ss_events := ss_events s @ evs\<rparr>)
   \<and> (\<forall>e\<in>set evs. \<exists>ids. e = AgentStarted ids)"
proof -
  obtain evs where "(if os_forward_agent request then start_session_agent_forward M sc config user else os_return None) s
     = (s\<lparr>ss_events := ss_events s @ evs\<rparr>, Inr (session_sock M sc config user request))"
    "\<forall>e\<in>set evs. \<exists>ids. e = AgentStarted ids"
    using start_session_agent_forward_runs by blast
  then show ?thesis
    by (intro exI[of _ evs]) (simp add: run_server_session_def session_connection_def os_bind_def)
qed

lemma session_spawns:
  assumes "Spawned cmd \<in> set (ss_events (fst (run_server_session K M sc config server_addr user request s)))"
    "ss_events s = []"
  shows "session_command M sc user request (session_connection M sc config server_addr user request) = Inr cmd"
proof -
  let ?conn = "session_connection M sc config server_addr user request"
  let ?c = "session_command M sc user request ?conn"
  obtain evs where evs: "run_server_session K M sc config server_addr user request s =
      session_body K M sc user request ?conn (s\<lparr>ss_events := ss_events s @ evs\<rparr>)"
    "\<forall>e\<in>set evs. \<exists>ids. e = AgentStarted ids"
    using run_server_session_body by blast
  have "emits (only_spawns ?c) (session_body K M sc user request ?conn)"
    unfolding session_body_def respond_def
    by (intro emits_rules emits_finish_session session_status_spawns) auto
  from emitsD[OF this, of "s\<lparr>ss_events := ss_events s @ evs\<rparr>"] obtain evs' where
    "ss_events (fst (session_body K M sc user request ?conn (s\<lparr>ss_events := ss_events s @ evs\<rparr>))) = ss_events s @ evs @ evs'"
    "list_all (only_spawns ?c) evs'"
    by auto
  with assms evs show ?thesis
    by (auto simp: list_all_iff)
qed


text \<open>The names the system hands over hold no NUL: a terminal's name is a C string, and a socket was
  bound at the agent's path.\<close>

definition script_clean :: "script \<Rightarrow> bool" where
  "script_clean sc \<longleftrightarrow>
     (case sc_tty_name sc of None \<Rightarrow> True | Some t \<Rightarrow> CHR 0x00 \<notin> set t) \<and>
     (case sc_agent sc of Inl _ \<Rightarrow> True | Inr p \<Rightarrow> CHR 0x00 \<notin> set (to_string_lossy p))"

lemma session_connection_clean:
  assumes "script_clean sc"
  shows "server_env_clean (session_connection M sc config server_addr user request) (sc_tty_name sc)"
    "server_env_clean (session_connection M sc config server_addr user request) None"
  using assms
  by (auto simp: session_connection_def from_connection_clean script_clean_def session_sock_def
      split: option.splits sum.splits)

lemma env_value_new [simp]: "env_value (command_new p) k = None" "env_value (command_new p\<lparr>cmd_args := a\<rparr>) k = None"
  "env_value (command_new p\<lparr>cmd_arg0 := z\<rparr>) k = None" "env_value (c\<lparr>cmd_controlling_tty := b\<rparr>) k = env_value c k"
  by (simp_all add: env_value_def command_new_def)

lemma env_value_push:
  "env_value (c\<lparr>cmd_env := cmd_env c @ [v]\<rparr>) k = (if ev_key v = k then Some (ev_value v) else env_value c k)"
  by (simp add: env_value_def)

lemma env_value_applied_new:
  assumes "env_value cmd key = None"
  shows "env_value (apply_session_env cmd env) key = map_option ev_value (last_var (filter no_nul env) key)"
  using assms by (simp add: env_value_applied split: option.split)

lemma env_value_command_for_user:
  "env_value (command_for_user M user command login use_shell env) key
     = map_option ev_value (last_var (filter no_nul env) key)"
  by (simp add: command_for_user_def Let_def env_value_applied_new)

lemma command_from_argv_Inr:
  "command_from_argv argv = Inr cmd \<longleftrightarrow>
     argv \<noteq> [] \<and> cmd = (command_new (to_string_lossy (hd argv)))\<lparr>cmd_args := map to_string_lossy (tl argv)\<rparr>"
  by (auto simp: command_from_argv_def split: list.splits)

text \<open>C13. The environment of every process a session starts is exactly the one intended, for every
  variable name: the server's own \<open>SSH_AUTH_SOCK\<close> (when the agent is forwarded, which the client must
  have asked for and the configuration allow), \<open>SSH_TTY\<close>, \<open>SSH_CONNECTION\<close> and \<open>SSH_CLIENT\<close> win over
  anything the client sends; then comes the last \<open>SetEnv\<close> of the client for a valid name (when root
  starts a process of another user only \<open>TERM\<close>, \<open>LANG\<close> and \<open>LC_*\<close>); then the last value the client
  sent for one of those three.  On a terminal \<open>TERM\<close> is the terminal the client named.
\<close>

theorem session_environment:
  assumes "Spawned cmd \<in> set (ss_events (fst (run_server_session K M sc config server_addr user request s)))"
    and "ss_events s = []" and "script_clean sc"
  shows "env_value cmd key =
     (let conn = session_connection M sc config server_addr user request
      in case os_mode request of
           Pipes \<Rightarrow> environment_spec (os_env request) (os_set_env request) conn None (root_switch M user) key
         | Pty term_name _ \<Rightarrow>
             if key = ''TERM'' then Some term_name
             else environment_spec (os_env request) (os_set_env request) conn (sc_tty_name sc) (root_switch M user) key)"
proof (cases "os_mode request")
  case Pipes
  with session_spawns[OF assms(1,2)] show ?thesis
    by (auto simp: session_command_def env_value_command_for_user session_env_last_var session_connection_clean[OF assms(3)])
next
  case (Pty term_name sz)
  with session_spawns[OF assms(1,2)] show ?thesis
    by (auto simp: session_command_def and_then_eq_Inr Let_def env_value_push env_value_applied_new
        command_from_argv_Inr session_env_last_var session_connection_clean[OF assms(3)])
qed


definition example_machine :: machine where
  "example_machine =
     \<lparr>m_is_root = True, m_current_username = ''root'', m_shell_for_user = (\<lambda>u. Some ''/bin/bash''),
      m_env = (\<lambda>k. None), m_is_file = (\<lambda>p. p \<in> {''/bin/su'', ''/usr/bin/login''}),
      m_words_join = join_pieces (CHR '' ''), m_words_quote = (\<lambda>s. s)\<rparr>"

definition example_script :: script where
  "example_script =
     \<lparr>sc_remote = SocketAddr (V4 0x0a000002) 40000, sc_local_ip = None, sc_uid_gid = Inr (Some (1000, 100)),
      sc_agent = Inr ''/tmp/hush-1/agent.7'', sc_ready = Inr (), sc_open_stderr = Inr (), sc_stderr_header = Inr (),
      sc_tty_name = Some ''/dev/pts/3'', sc_async_pty = Inr (), sc_spawn = Inr (Some 77),
      sc_child = [SignalArrives SIGINT, ChildExits (Inr 0x300)], sc_drained = True, sc_end = Inr (),
      sc_show_error = (\<lambda>e. ''error'')\<rparr>"

definition example_open :: OpenSession where
  "example_open =
     \<lparr>os_command = [''ls'', ''-l''], os_use_shell = True, os_mode = Pipes, os_env = [],
      os_set_env = [\<lparr>ev_key = ''LD_PRELOAD'', ev_value = ''evil.so''\<rparr>, \<lparr>ev_key = ''LANG'', ev_value = ''C''\<rparr>,
                    \<lparr>ev_key = ''SSH_CLIENT'', ev_value = ''spoof''\<rparr>],
      os_forward_agent = False\<rparr>"

definition example_server_addr :: socket_addr where
  "example_server_addr = SocketAddr (V4 0x0a000001) 22022"

definition example_start :: "cred session" where
  "example_start = \<lparr>ss_kernel = root_cred, ss_events = []\<rparr>"

definition example_run :: "cred session \<times> ProcessExit option res" where
  "example_run =
     run_server_session example_kernel example_machine example_script (default_runtime_config :: unit ServerRuntimeConfig)
       example_server_addr ''ada'' example_open example_start"

lemma example_events:
  "\<exists>cmd. ss_events (fst example_run)
     = [WroteResponse SessionReady, OpenedStderr, Spawned cmd, OutputDrained True, SentEnd (SessionExitStatus (ExitCode 3))]
   \<and> snd example_run = Inr (Some (ExitCode 3))"
  unfolding example_run_def run_server_session_def session_body_def finish_session_def session_status_def run_pipes_def
    spawn_and_wait_def respond_def send_session_end_def
  by (simp add: example_open_def example_script_def example_start_def os_bind_def os_return_def given_def emit_def
      on_kernel_def send_process_group_signal_def or_bail_def example_kernel_def Let_def
      process_exit_from_status_def status_code_def)

lemma example_script_clean: "script_clean example_script"
  by code_simp

theorem session_environment_witness:
  "\<exists>cmd. Spawned cmd \<in> set (ss_events (fst example_run)) \<and> env_value cmd ''LD_PRELOAD'' = None \<and>
         env_value cmd ''LANG'' = Some ''C'' \<and> env_value cmd ''SSH_CLIENT'' = Some ''10.0.0.2 40000 22022''"
proof -
  obtain cmd where sp: "Spawned cmd \<in> set (ss_events (fst example_run))"
    using example_events by auto
  have env: "env_value cmd key = environment_spec (os_env example_open) (os_set_env example_open)
      (session_connection example_machine example_script (default_runtime_config :: unit ServerRuntimeConfig)
         example_server_addr ''ada'' example_open) None (root_switch example_machine ''ada'') key" for key
    using session_environment[OF sp[unfolded example_run_def] _ example_script_clean, of key]
    by (simp add: example_start_def example_open_def)
  have "env_value cmd ''LD_PRELOAD'' = None" "env_value cmd ''LANG'' = Some ''C''"
    "env_value cmd ''SSH_CLIENT'' = Some ''10.0.0.2 40000 22022''"
    unfolding env by code_simp+
  with sp show ?thesis
    by blast
qed


lemma to_string_lossy_valid: "utf8_valid (as_bytes s) \<Longrightarrow> to_string_lossy s = s"
  by (simp add: to_string_lossy_def utf8_lossy_valid)

lemma trusted_lossy:
  "to_string_lossy (trusted_system_program M ''su'') = trusted_system_program M ''su''"
  "to_string_lossy (trusted_system_program M ''login'') = trusted_system_program M ''login''"
proof -
  have "trusted_system_program M n \<in> {join ''/usr/bin'' n, join ''/bin'' n, join ''/usr/sbin'' n, join ''/sbin'' n}" for n
    unfolding trusted_system_program_def by simp
  moreover have "\<forall>p \<in> {join ''/usr/bin'' n, join ''/bin'' n, join ''/usr/sbin'' n, join ''/sbin'' n}. to_string_lossy p = p"
    if "n = ''su'' \<or> n = ''login''" for n
    using that by (elim disjE; hypsubst; code_simp)
  ultimately show "to_string_lossy (trusted_system_program M ''su'') = trusted_system_program M ''su''"
    "to_string_lossy (trusted_system_program M ''login'') = trusted_system_program M ''login''"
    by blast+
qed

lemma option_words_lossy: "to_string_lossy ''-l'' = ''-l''" "to_string_lossy ''-p'' = ''-p''" "to_string_lossy ''-f'' = ''-f''"
  by code_simp+

lemma collect_check: "collect_results (\<lambda>s. if bad s then Inl e else Inr s) xs = Inr ys \<Longrightarrow> ys = xs"
  by (induction xs arbitrary: ys) (auto simp: and_then_eq_Inr split: if_splits)

lemma pty_argv_Inr: "pty_argv M user command use_shell = Inr argv \<Longrightarrow>
    pty_argv_strings M (m_is_root M) (m_current_username M) user command use_shell = Inr argv"
  by (auto simp: pty_argv_def and_then_eq_Inr dest: collect_check)

lemma replaced_subset: "set (foldl push_or_replace_env env vs) \<subseteq> set env \<union> set vs"
  by (induction vs rule: rev_induct) (auto simp: push_or_replace_env_def)

abbreviation server_keys :: "string set" where
  "server_keys \<equiv> {''SSH_CLIENT'', ''SSH_CONNECTION'', ''SSH_TTY'', ''SSH_AUTH_SOCK''}"

lemma session_env_privileged_keys:
  assumes "v \<in> set (session_env client_env set_env conn ssh_tty True)"
  shows "allowed_env_key (ev_key v) \<or> ev_key v \<in> server_keys"
proof -
  have "allowed_env_key (ev_key v)" if "v \<in> set (requested_vars client_env set_env True)"
    using that replaced_subset unfolding requested_vars_def by fastforce
  with assms show ?thesis
    unfolding session_env_split server_vars_def Let_def push_or_replace_env_def
    by (auto split: option.splits)
qed

text \<open>C4. When a server of root runs a session of another user, the client chooses neither the program
  that runs with root's privileges nor its environment: what is started is the system's own \<open>su\<close> for
  that user, or its \<open>login\<close> for that user, and the only variables set for it are \<open>TERM\<close>, \<open>LANG\<close>,
  \<open>LC_*\<close> and the server's own \<open>SSH_*\<close>, whatever the request holds.
\<close>

theorem privileged_session_confined:
  assumes "root_switch M user" and "utf8_valid (as_bytes user)"
    and "Spawned cmd \<in> set (ss_events (fst (run_server_session K M sc config server_addr user request s)))"
    and "ss_events s = []"
  shows "(cmd_program cmd = trusted_system_program M ''su'' \<and> take 2 (cmd_args cmd) = [''-l'', user] \<or>
          cmd_program cmd = trusted_system_program M ''login'' \<and> cmd_args cmd = [''-p'', ''-f'', user]) \<and>
         (\<forall>var \<in> set (cmd_env cmd). allowed_env_key (ev_key var) \<or>
            ev_key var \<in> {''SSH_CLIENT'', ''SSH_CONNECTION'', ''SSH_TTY'', ''SSH_AUTH_SOCK''})"
proof (cases "os_mode request")
  case Pipes
  with session_spawns[OF assms(3,4)] assms(1) show ?thesis
    by (auto simp: session_command_def command_for_user_def Let_def apply_session_env_def command_new_def
        dest!: session_env_privileged_keys)
next
  case (Pty term_name sz)
  with session_spawns[OF assms(3,4)] obtain argv where
    argv: "pty_argv_strings M (m_is_root M) (m_current_username M) user (os_command request) (os_use_shell request) = Inr argv"
    and cmd: "cmd_program cmd = to_string_lossy (hd argv)" "cmd_args cmd = map to_string_lossy (tl argv)"
      "cmd_env cmd = filter no_nul (session_env (os_env request) (os_set_env request)
          (session_connection M sc config server_addr user request) (sc_tty_name sc) (root_switch M user))
        @ [\<lparr>ev_key = ''TERM'', ev_value = term_name\<rparr>]"
    by (auto simp: session_command_def and_then_eq_Inr Let_def apply_session_env_def command_new_def
        command_from_argv_Inr dest!: pty_argv_Inr)
  have "\<forall>var \<in> set (cmd_env cmd). allowed_env_key (ev_key var) \<or> ev_key var \<in> server_keys"
    using cmd(3) assms(1) by (auto simp: allowed_env_key_def[of "''TERM''"] dest!: session_env_privileged_keys)
  moreover have "cmd_program cmd = trusted_system_program M ''su'' \<and> take 2 (cmd_args cmd) = [''-l'', user] \<or>
          cmd_program cmd = trusted_system_program M ''login'' \<and> cmd_args cmd = [''-p'', ''-f'', user]"
    using argv cmd(1,2) assms(1) to_string_lossy_valid[OF assms(2)]
    by (auto simp: pty_argv_strings_def root_switch_def trusted_lossy option_words_lossy split: if_splits)
  ultimately show ?thesis
    by blast
qed

theorem privileged_session_confined_witness:
  "\<exists>cmd. Spawned cmd \<in> set (ss_events (fst example_run)) \<and>
     (cmd_program cmd = ''/bin/su'' \<and> take 2 (cmd_args cmd) = [''-l'', ''ada''] \<or>
      cmd_program cmd = ''/usr/bin/login'' \<and> cmd_args cmd = [''-p'', ''-f'', ''ada'']) \<and>
     ''LD_PRELOAD'' \<notin> ev_key ` set (cmd_env cmd)"
proof -
  obtain cmd where sp: "Spawned cmd \<in> set (ss_events (fst example_run))"
    using example_events by auto
  have "root_switch example_machine ''ada''" "utf8_valid (as_bytes ''ada'')"
    "trusted_system_program example_machine ''su'' = ''/bin/su''"
    "trusted_system_program example_machine ''login'' = ''/usr/bin/login''"
    by code_simp+
  with privileged_session_confined[OF _ _ sp[unfolded example_run_def]] sp show ?thesis
    by (force simp: example_start_def allowed_env_key_def starts_with_def)
qed


section \<open>Facts about the end of a session\<close>

text \<open>The kernel after the process group has been sent these signals.\<close>

definition signalled :: "'k kernel \<Rightarrow> int \<Rightarrow> RemoteSignal list \<Rightarrow> 'k \<Rightarrow> 'k" where
  "signalled K pid sigs k = foldl (\<lambda>k sig. fst (k_kill K (- pid) (remote_signal_as_raw sig) k)) k sigs"

lemma signalled_Cons: "signalled K pid (x # sigs) k = signalled K pid sigs (fst (k_kill K (- pid) (remote_signal_as_raw x) k))"
  by (simp add: signalled_def)

lemma signalled_snoc: "signalled K pid (sigs @ [x]) k = fst (k_kill K (- pid) (remote_signal_as_raw x) (signalled K pid sigs k))"
  by (simp add: signalled_def)

abbreviation kill_works :: "'k kernel \<Rightarrow> int \<Rightarrow> bool" where
  "kill_works K pid \<equiv> (\<forall>sig k. snd (k_kill K (- pid) (remote_signal_as_raw sig) k) = Inr ())"

lemma send_signal_works:
  assumes "kill_works K pid"
  shows "on_kernel (send_process_group_signal K pid sig) s
         = (s\<lparr>ss_kernel := fst (k_kill K (- pid) (remote_signal_as_raw sig) (ss_kernel s))\<rparr>, Inr ())"
proof -
  obtain k' where "k_kill K (- pid) (remote_signal_as_raw sig) (ss_kernel s) = (k', Inr ())"
    using assms by (metis prod.collapse)
  then show ?thesis
    by (simp add: on_kernel_def send_process_group_signal_def or_bail_def)
qed

lemma wait_for_child_forwards:
  assumes "kill_works K pid"
  shows "wait_for_child K pid (map SignalArrives sigs @ evs) s
         = wait_for_child K pid evs (s\<lparr>ss_kernel := signalled K pid sigs (ss_kernel s)\<rparr>)"
proof (induction sigs arbitrary: s)
  case (Cons x sigs)
  then show ?case
    by (simp add: os_bind_def send_signal_works[OF assms] signalled_Cons)
qed (simp add: signalled_def)



lemma spawn_and_wait_status:
  assumes "spawn_and_wait K sc msg cmd s = (s', Inr (Some st))"
  shows "ss_events s' = ss_events s @ [Spawned cmd, OutputDrained (sc_drained sc)]"
proof -
  have quiet: "ss_events (fst (wait_for_child K pid evs s)) = ss_events s" for pid evs and s :: "'a session"
  proof -
    obtain es where "ss_events (fst (wait_for_child K pid evs s)) = ss_events s @ es" "list_all (\<lambda>_. False) es"
      by (rule emitsD[OF emits_wait_for_child])
    then show ?thesis
      by (cases es) auto
  qed
  from assms obtain pid s1 w where
    "wait_for_child K pid (sc_child sc) (s\<lparr>ss_events := ss_events s @ [Spawned cmd]\<rparr>) = (s1, Inr (Some w))"
    "s' = s1\<lparr>ss_events := ss_events s1 @ [OutputDrained (sc_drained sc)]\<rparr>"
    by (auto simp: spawn_and_wait_def os_bind_Inr emit_def given_def os_return_def with_context_def io_res_def
        split: option.splits)
  with quiet[of pid "sc_child sc" "s\<lparr>ss_events := ss_events s @ [Spawned cmd]\<rparr>"] show ?thesis
    by simp
qed

lemma on_kernel_events: "on_kernel m s = (s', r) \<Longrightarrow> ss_events s' = ss_events s"
  by (auto simp: on_kernel_def split: prod.splits)

lemma session_status_events:
  assumes "session_status K M sc user request conn s = (s', Inr (Some st))"
  shows "\<exists>cmd. ss_events s' = ss_events s @ [Spawned cmd, OutputDrained (sc_drained sc)]"
proof (cases "os_mode request")
  case Pipes
  with assms show ?thesis
    by (auto simp: session_status_def run_pipes_def Let_def dest: spawn_and_wait_status)
next
  case (Pty term_name sz)
  with assms show ?thesis
    by (auto simp: session_status_def run_pty_def Let_def os_bind_Inr given_def dest!: spawn_and_wait_status on_kernel_events)
qed




section \<open>Facts about the other streams\<close>

definition initial_slots :: "'s ServerRuntimeConfig \<Rightarrow> forward_slots" where
  "initial_slots config = \<lparr>fs_free = max_forward_streams_per_connection config, fs_serving = [], fs_next = 0\<rparr>"

fun run_slots :: "'s ServerRuntimeConfig \<Rightarrow> forward_slots \<Rightarrow> slot_event list \<Rightarrow> forward_slots \<times> slot_action list" where
  "run_slots config fs [] = (fs, [])"
| "run_slots config fs (ev # evs) =
     (case slot_step config fs ev of (fs, act) \<Rightarrow> (case run_slots config fs evs of (fs, acts) \<Rightarrow> (fs, act # acts)))"

definition slots_ok :: "nat \<Rightarrow> forward_slots \<Rightarrow> bool" where
  "slots_ok limit fs \<longleftrightarrow> fs_free fs + length (fs_serving fs) = limit \<and> distinct (fs_serving fs)
     \<and> (\<forall>n\<in>set (fs_serving fs). n < fs_next fs)"

lemma take_slot_ok: "slots_ok limit fs \<Longrightarrow> slots_ok limit (fst (take_slot act fs))"
  by (force simp: slots_ok_def take_slot_def)

lemma release_slot_ok:
  "slots_ok limit fs \<Longrightarrow> n \<in> set (fs_serving fs) \<Longrightarrow>
   slots_ok limit (fs\<lparr>fs_free := Suc (fs_free fs), fs_serving := remove1 n (fs_serving fs)\<rparr>)"
  by (auto simp: slots_ok_def length_remove1 dest: length_pos_if_in_set notin_set_remove1)

lemma slot_step_ok: "slots_ok limit fs \<Longrightarrow> slots_ok limit (fst (slot_step config fs ev))"
  by (auto simp: slot_step_def take_slot_ok release_slot_ok split: slot_event.splits sum.splits StreamOpen.splits)

interpretation session_slots: permit_pool "\<lambda>fs fs'. \<exists>ev. fs' = fst (slot_step config fs ev)" "slots_ok limit" fs_free
    "\<lambda>fs. length (fs_serving fs)" limit for config :: "'s ServerRuntimeConfig" and limit
proof
  show "slots_ok limit fs'" if "\<exists>ev. fs' = fst (slot_step config fs ev)" "slots_ok limit fs" for fs fs'
    using that slot_step_ok by blast
  show "fs_free fs + length (fs_serving fs) = limit" if "slots_ok limit fs" for fs
    using that by (simp add: slots_ok_def)
qed

lemma run_slots_reaches:
  "(\<lambda>fs fs'. \<exists>ev. fs' = fst (slot_step config fs ev))\<^sup>*\<^sup>* fs (fst (run_slots config fs evs))"
proof (induction evs arbitrary: fs)
  case (Cons ev evs)
  have "\<exists>e. fst (slot_step config fs ev) = fst (slot_step config fs e)" by blast
  with Cons [of "fst (slot_step config fs ev)"] show ?case
    by (auto simp: case_prod_unfold intro: converse_rtranclp_into_rtranclp)
qed simp

lemma slot_step_disabled:
  "\<not> allow_tcp_forwarding config \<Longrightarrow> snd (slot_step config fs ev) \<noteq> ServeTarget n t"
  by (auto simp: slot_step_def take_slot_def split: slot_event.splits sum.splits StreamOpen.splits)

text \<open>C27. However the streams of a session come and go, forwarded connections and agent connections
  together never hold more than \<open>max_forward_streams_per_connection\<close> slots, none is lost or given
  twice, and with TCP forwarding disabled no connection to a target is ever made.
\<close>

theorem forward_streams_bounded:
  "slots_ok (max_forward_streams_per_connection config) (fst (run_slots config (initial_slots config) evs)) \<and>
   (allow_tcp_forwarding config \<or> (\<forall>n t. ServeTarget n t \<notin> set (snd (run_slots config (initial_slots config) evs))))"
proof -
  have "slots_ok limit (initial_slots config) \<Longrightarrow> slots_ok limit (fst (run_slots config (initial_slots config) evs))" for limit
    using session_slots.reachable_inv [OF run_slots_reaches] .
  moreover have "slots_ok (max_forward_streams_per_connection config) (initial_slots config)"
    by (simp add: slots_ok_def initial_slots_def)
  moreover have "\<not> allow_tcp_forwarding config \<Longrightarrow> ServeTarget n t \<notin> set (snd (run_slots config fs evs))" for n t fs
    by (induction evs arbitrary: fs) (auto split: prod.splits simp: slot_step_disabled[THEN not_sym] prod_eq_iff)
  ultimately show ?thesis
    by blast
qed

theorem forward_streams_bounded_witness:
  "snd (run_slots (default_runtime_config\<lparr>allow_tcp_forwarding := False\<rparr> :: unit ServerRuntimeConfig)
     (initial_slots default_runtime_config)
     [BiStream (Inr (LocalTcpForward \<lparr>tt_host = ''db'', tt_port = 5432\<rparr>)), AgentConnects])
   = [Rejected, ServeAgent 0] \<and>
   slots_ok (max_forward_streams_per_connection (default_runtime_config :: unit ServerRuntimeConfig))
     (fst (run_slots (default_runtime_config :: unit ServerRuntimeConfig) (initial_slots default_runtime_config) [AgentConnects]))"
  using forward_streams_bounded[of "default_runtime_config :: unit ServerRuntimeConfig" "[AgentConnects]"]
  by (simp add: slot_step_def take_slot_def initial_slots_def default_runtime_config_def
      DEFAULT_MAX_FORWARD_STREAMS_PER_CONNECTION_def)

end
