(* ===== verification/Filecopy.thy ===== *)
theory Filecopy
  imports Config "HOL-Library.List_Lexorder" "HOL-Library.Multiset"
begin

text \<open>
  \<open>hush-core/src/filecopy.rs\<close>: the limits of a copy, the plan a server makes for an upload and
  the client's check of it, the walk over the source tree, the extraction of an archive, the
  resolution of remote paths, and the byte-limited writer.

  Parameters.  The source file system is given by \<open>stat\<close> (\<open>symlink_metadata\<close>) and \<open>read_dir\<close>;
  the tar builder by \<open>tar_sink\<close>, whose state \<open>'a\<close> is the archive under construction; the tar
  reader by the list of its entries, each an error or an opaque entry \<open>'e\<close>; unpacking an entry
  changes a file-system state \<open>'f\<close>.  The inner writer of \<open>LimitedWriter\<close> is a function from its
  state and the bytes offered to its new state and a poll result.

  The walk is a loop over a stack that in general need not end; it is proved to end for every
  file system as soon as the entry limit is below the largest \<open>u64\<close>.
\<close>

section \<open>Limits\<close>

definition STREAM_BUFFER :: u64 where "STREAM_BUFFER = 2 ^ 20"

definition WORKER_FRAME_LIMIT :: nat where "WORKER_FRAME_LIMIT = 2 ^ 20"

definition WORKER_ARG :: string where "WORKER_ARG = ''--hush-file-copy-worker''"

record CopyBudget =
  cb_limits :: FileCopyLimits
  cb_bytes :: u64
  cb_entries :: u64

definition budget_new :: "FileCopyLimits \<Rightarrow> CopyBudget" where
  "budget_new limits = \<lparr>cb_limits = limits, cb_bytes = 0, cb_entries = 0\<rparr>"

text \<open>\<open>CopyBudget::add\<close> updates the counters also when it then fails.\<close>

definition budget_add :: "CopyBudget \<Rightarrow> u64 \<Rightarrow> CopyBudget \<times> unit res" where
  "budget_add b n =
     (let b = b\<lparr>cb_entries := sat_add (cb_entries b) 1, cb_bytes := sat_add (cb_bytes b) n\<rparr>
      in if max_entries (cb_limits b) < cb_entries b
         then (b, Inl (Bail (''file copy exceeds the '' @ show_nat (unat (max_entries (cb_limits b))) @ '' entry limit'')))
         else if max_bytes (cb_limits b) < cb_bytes b
         then (b, Inl (Bail (''file copy exceeds the '' @ show_nat (unat (max_bytes (cb_limits b))) @ '' byte limit'')))
         else (b, Inr ()))"

definition archive_byte_limit :: "FileCopyLimits \<Rightarrow> u64" where
  "archive_byte_limit limits =
     sat_add (sat_add (max_bytes limits) (sat_mul (max_entries limits) 1024)) STREAM_BUFFER"

definition wire_byte_limit :: "FileCopyLimits \<Rightarrow> u64" where
  "wire_byte_limit limits =
     sat_add (sat_add (archive_byte_limit limits) (archive_byte_limit limits div 100)) STREAM_BUFFER"

definition max_wire_bytes :: "FileCopyLimits \<Rightarrow> u64" where
  "max_wire_bytes limits = wire_byte_limit limits"

section \<open>Plans\<close>

definition entry_for_path :: "string \<Rightarrow> FileCopyEntry res" where
  "entry_for_path path =
     and_then (ok_or (Bail ''source path has no file name'') (file_name path)) (\<lambda>name.
       Inr \<lparr>fe_path = to_string_lossy path, fe_archive_name = to_string_lossy name\<rparr>)"

text \<open>One iteration of \<open>validate_upload_plan\<close>, and the loop over the zipped entries.\<close>

definition single_normal :: "string \<Rightarrow> bool" where
  "single_normal name = (case components name of [Normal _] \<Rightarrow> True | _ \<Rightarrow> False)"

fun validate_entries :: "(FileCopyEntry \<times> FileCopyEntry) list \<Rightarrow> unit res" where
  "validate_entries [] = Inr ()"
| "validate_entries ((requested, returned) # rest) =
     (if fe_path requested \<noteq> fe_path returned then Inl (Bail ''server changed an upload source path'')
      else if \<not> single_normal (fe_archive_name returned)
      then Inl (Bail ''server returned an unsafe archive name'')
      else validate_entries rest)"

definition validate_upload_plan :: "FileCopyEntry list \<Rightarrow> FileCopyPlan \<Rightarrow> unit res" where
  "validate_upload_plan requested plan =
     (if length requested \<noteq> length (fp_entries plan)
      then Inl (Bail ''server changed the number of upload sources'')
      else validate_entries (zip requested (fp_entries plan)))"

definition destination_looks_like_dir :: "string \<Rightarrow> bool" where
  "destination_looks_like_dir path = ends_with ''/'' (to_string_lossy path)"

definition plan_for_destination ::
  "(string \<Rightarrow> bool) \<Rightarrow> string \<Rightarrow> FileCopyEntry list \<Rightarrow> FileCopyPlan res" where
  "plan_for_destination is_dir destination entries =
     (if entries = [] then Inl (Bail ''no sources to copy'')
      else
        let destination_is_dir = destination_looks_like_dir destination \<or> is_dir destination
        in if length entries = 1 \<and> \<not> destination_is_dir
           then and_then (ok_or (Bail ''destination path has no file name'') (file_name destination)) (\<lambda>name.
                  let extract_dir = (case parent destination of
                        Some p \<Rightarrow> if p = [] then ''.'' else p
                      | None \<Rightarrow> ''.'')
                  in Inr \<lparr>fp_extract_dir = to_string_lossy extract_dir,
                          fp_entries = [(hd entries)\<lparr>fe_archive_name := to_string_lossy name\<rparr>]\<rparr>)
           else Inr \<lparr>fp_extract_dir = to_string_lossy destination, fp_entries = entries\<rparr>)"

section \<open>Sending\<close>

record metadata =
  md_is_file :: bool
  md_is_dir :: bool
  md_len :: u64

record 'a tar_sink =
  append_dir :: "string \<Rightarrow> string \<Rightarrow> 'a \<Rightarrow> 'a res"
  append_path_with_name :: "string \<Rightarrow> string \<Rightarrow> 'a \<Rightarrow> 'a res"

record source_fs =
  stat :: "string \<Rightarrow> io_error + metadata"
  read_dir :: "string \<Rightarrow> io_error + (io_error + string) list"

text \<open>Reading a directory pushes its children on the stack until an entry fails.\<close>

fun push_children ::
  "string \<Rightarrow> string \<Rightarrow> (io_error + string) list \<Rightarrow> (string \<times> string) list \<Rightarrow> (string \<times> string) list res" where
  "push_children source name [] pending = Inr pending"
| "push_children source name (Inl e # cs) pending = Inl (Io e)"
| "push_children source name (Inr c # cs) pending =
     push_children source name cs (pending @ [(join source c, join name c)])"

text \<open>One iteration for the popped entry: the rest of the stack, the archive and the budget.\<close>

definition append_step ::
  "source_fs \<Rightarrow> 'a tar_sink \<Rightarrow> string \<times> string \<Rightarrow> (string \<times> string) list \<Rightarrow> 'a \<Rightarrow> CopyBudget \<Rightarrow>
   ((string \<times> string) list \<times> 'a \<times> CopyBudget) res" where
  "append_step F T item pending archive budget =
     (case item of (source, name) \<Rightarrow>
        and_then (with_context (''stat source `'' @ source @ ''`'') (io_res (stat F source))) (\<lambda>metadata.
        case budget_add budget (if md_is_file metadata then md_len metadata else 0) of
          (budget, added) \<Rightarrow>
            and_then added (\<lambda>_.
              if md_is_dir metadata then
                and_then (with_context (''archive directory `'' @ source @ ''`'') (append_dir T name source archive)) (\<lambda>archive.
                and_then (with_context (''read directory `'' @ source @ ''`'') (io_res (read_dir F source))) (\<lambda>children.
                and_then (push_children source name children pending) (\<lambda>pending.
                  Inr (pending, archive, budget))))
              else
                and_then (with_context (''archive path `'' @ source @ ''`'') (append_path_with_name T source name archive))
                  (\<lambda>archive. Inr (pending, archive, budget)))))"

partial_function (option) append_loop ::
  "source_fs \<Rightarrow> 'a tar_sink \<Rightarrow> (string \<times> string) list \<Rightarrow> 'a \<Rightarrow> CopyBudget \<Rightarrow> ('a \<times> CopyBudget) res option" where
  "append_loop F T pending archive budget =
     (if pending = [] then Some (Inr (archive, budget))
      else case append_step F T (last pending) (butlast pending) archive budget of
             Inl e \<Rightarrow> Some (Inl e)
           | Inr (pending, archive, budget) \<Rightarrow> append_loop F T pending archive budget)"

declare append_loop.simps [code]

definition append_path_limited ::
  "source_fs \<Rightarrow> 'a tar_sink \<Rightarrow> string \<Rightarrow> string \<Rightarrow> 'a \<Rightarrow> CopyBudget \<Rightarrow> ('a \<times> CopyBudget) res option" where
  "append_path_limited F T source name archive budget =
     append_loop F T [(source, name)] archive budget"

fun append_entries ::
  "source_fs \<Rightarrow> 'a tar_sink \<Rightarrow> FileCopyEntry list \<Rightarrow> 'a \<Rightarrow> CopyBudget \<Rightarrow> ('a \<times> CopyBudget) res option" where
  "append_entries F T [] archive budget = Some (Inr (archive, budget))"
| "append_entries F T (entry # rest) archive budget =
     (case append_path_limited F T (fe_path entry) (fe_archive_name entry) archive budget of
        None \<Rightarrow> None
      | Some (Inl e) \<Rightarrow> Some (Inl e)
      | Some (Inr (archive, budget)) \<Rightarrow> append_entries F T rest archive budget)"

text \<open>\<open>new_archive\<close> stands for the tar builder over the compressing, counting and limited writer,
  \<open>into_inner\<close> and \<open>shutdown\<close> for closing it.\<close>

definition send_archive_to ::
  "source_fs \<Rightarrow> 'a tar_sink \<Rightarrow> (FileCopyCompression \<Rightarrow> u64 \<Rightarrow> 'a) \<Rightarrow> ('a \<Rightarrow> 'a res) \<Rightarrow> ('a \<Rightarrow> 'a res) \<Rightarrow>
   FileCopyEntry list \<Rightarrow> FileCopyCompression \<Rightarrow> FileCopyLimits \<Rightarrow> 'a res option" where
  "send_archive_to F T new_archive into_inner shutdown entries compression limits =
     (if entries = [] then Some (Inl (Bail ''no sources to copy''))
      else if max_bytes limits = 0 \<or> max_entries limits = 0
      then Some (Inl (Bail ''file copy is disabled by its configured limit''))
      else (case append_entries F T entries (new_archive compression (archive_byte_limit limits)) (budget_new limits) of
              None \<Rightarrow> None
            | Some (Inl e) \<Rightarrow> Some (Inl e)
            | Some (Inr (archive, _)) \<Rightarrow>
                Some (and_then (with_context ''finish tar archive'' (into_inner archive)) (\<lambda>w.
                      with_context ''finish copy stream'' (shutdown w)))))"

section \<open>Receiving\<close>

record ('e, 'f) untar =
  effective_size :: "'e \<Rightarrow> u64"
  is_directory :: "'e \<Rightarrow> bool"
  path_bytes :: "'e \<Rightarrow> io_error + byte list"
  unpack_in_raw :: "string \<Rightarrow> 'e \<Rightarrow> 'f \<Rightarrow> 'f \<times> (io_error + unit)"

text \<open>The first loop: files are unpacked as they come, directories are kept for later.\<close>

fun unpack_entries ::
  "('e, 'f) untar \<Rightarrow> string \<Rightarrow> (error + 'e) list \<Rightarrow> CopyBudget \<Rightarrow> 'e list \<Rightarrow> 'f \<Rightarrow> 'f \<times> 'e list res" where
  "unpack_entries U destination [] budget directories fs = (fs, Inr directories)"
| "unpack_entries U destination (Inl e # rest) budget directories fs =
     (fs, Inl (Ctx ''iterate over archive'' e))"
| "unpack_entries U destination (Inr entry # rest) budget directories fs =
     (case budget_add budget (effective_size U entry) of
        (_, Inl e) \<Rightarrow> (fs, Inl e)
      | (budget, Inr _) \<Rightarrow>
          if is_directory U entry
          then unpack_entries U destination rest budget (directories @ [entry]) fs
          else (case unpack_in_raw U destination entry fs of
                  (fs, Inl e) \<Rightarrow> (fs, Inl (Io e))
                | (fs, Inr _) \<Rightarrow> unpack_entries U destination rest budget directories fs))"

text \<open>\<open>sort_by(|a, b| b.1.cmp(&a.1))\<close>: stable, largest path first.\<close>

fun insert_desc :: "('e \<times> byte list) \<Rightarrow> ('e \<times> byte list) list \<Rightarrow> ('e \<times> byte list) list" where
  "insert_desc x [] = [x]"
| "insert_desc x (y # ys) = (if snd y \<le> snd x then x # y # ys else y # insert_desc x ys)"

definition sort_desc :: "('e \<times> byte list) list \<Rightarrow> ('e \<times> byte list) list" where
  "sort_desc xs = foldr insert_desc xs []"

fun unpack_all :: "('e, 'f) untar \<Rightarrow> string \<Rightarrow> 'e list \<Rightarrow> 'f \<Rightarrow> 'f \<times> unit res" where
  "unpack_all U destination [] fs = (fs, Inr ())"
| "unpack_all U destination (entry # rest) fs =
     (case unpack_in_raw U destination entry fs of
        (fs, Inl e) \<Rightarrow> (fs, Inl (Io e))
      | (fs, Inr _) \<Rightarrow> unpack_all U destination rest fs)"

definition directory_paths :: "('e, 'f) untar \<Rightarrow> 'e list \<Rightarrow> ('e \<times> byte list) list res" where
  "directory_paths U directories =
     collect_results (\<lambda>entry. case path_bytes U entry of
        Inl e \<Rightarrow> Inl (Io e) | Inr path \<Rightarrow> Inr (entry, path)) directories"

text \<open>\<open>ensure_dir\<close> stands for the check that the destination exists and its creation if not,
  \<open>canonicalize\<close> for its canonical path.\<close>

definition unpack_archive_limited ::
  "('e, 'f) untar \<Rightarrow> (string \<Rightarrow> 'f \<Rightarrow> bool) \<Rightarrow> (string \<Rightarrow> 'f \<Rightarrow> 'f \<times> (io_error + unit)) \<Rightarrow>
   (string \<Rightarrow> 'f \<Rightarrow> io_error + string) \<Rightarrow> io_error + (error + 'e) list \<Rightarrow> string \<Rightarrow> FileCopyLimits \<Rightarrow> 'f \<Rightarrow>
   'f \<times> unit res" where
  "unpack_archive_limited U exists_path create_dir_all canonicalize entries destination limits fs =
     (case (if exists_path destination fs then (fs, Inr ()) else create_dir_all destination fs) of
        (fs, Inl e) \<Rightarrow> (fs, Inl (Io e))
      | (fs, Inr _) \<Rightarrow>
          (case canonicalize destination fs of
             Inl e \<Rightarrow> (fs, Inl (Io e))
           | Inr destination \<Rightarrow>
               (case entries of
                  Inl e \<Rightarrow> (fs, Inl (Io e))
                | Inr entries \<Rightarrow>
                    (case unpack_entries U destination entries (budget_new limits) [] fs of
                       (fs, Inl e) \<Rightarrow> (fs, Inl e)
                     | (fs, Inr directories) \<Rightarrow>
                         (case directory_paths U directories of
                            Inl e \<Rightarrow> (fs, Inl e)
                          | Inr dirs \<Rightarrow> unpack_all U destination (map fst (sort_desc dirs)) fs)))))"

text \<open>\<open>tar_entries\<close> stands for the decompressing reader and the tar reader: the entries found in
  the wire bytes when at most the given number of archive bytes may be decoded.\<close>

definition receive_archive_from ::
  "('e, 'f) untar \<Rightarrow> (string \<Rightarrow> 'f \<Rightarrow> bool) \<Rightarrow> (string \<Rightarrow> 'f \<Rightarrow> 'f \<times> (io_error + unit)) \<Rightarrow>
   (string \<Rightarrow> 'f \<Rightarrow> io_error + string) \<Rightarrow>
   (FileCopyCompression \<Rightarrow> nat \<Rightarrow> byte list \<Rightarrow> io_error + (error + 'e) list) \<Rightarrow>
   byte list \<Rightarrow> string \<Rightarrow> FileCopyCompression \<Rightarrow> FileCopyLimits \<Rightarrow> 'f \<Rightarrow> 'f \<times> unit res" where
  "receive_archive_from U exists_path create_dir_all canonicalize tar_entries recv destination compression limits fs =
     (if max_bytes limits = 0 \<or> max_entries limits = 0
      then (fs, Inl (Bail ''file copy is disabled by its configured limit''))
      else
        let wire = take (unat (wire_byte_limit limits)) recv;
            entries = tar_entries compression (unat (archive_byte_limit limits)) wire
        in case unpack_archive_limited U exists_path create_dir_all canonicalize entries destination limits fs of
             (fs, r) \<Rightarrow> (fs, with_context (''extract archive into `'' @ destination @ ''`'') r))"

section \<open>Remote paths\<close>

definition switching_user :: "bool \<Rightarrow> string \<Rightarrow> string \<Rightarrow> bool" where
  "switching_user is_root current_username user = (is_root \<and> user \<noteq> current_username)"

definition home_dir_for_user ::
  "bool \<Rightarrow> string \<Rightarrow> string option \<Rightarrow> (string \<Rightarrow> string option res) \<Rightarrow> string \<Rightarrow> string" where
  "home_dir_for_user is_root current_username home_var home_for_user user =
     (let fallback = (case home_for_user user of
            Inr (Some home) \<Rightarrow> home | Inr None \<Rightarrow> ''/'' | Inl _ \<Rightarrow> ''/'')
      in if switching_user is_root current_username user then fallback
         else (case home_var of
                 Some home \<Rightarrow> if home \<noteq> [] then home else fallback
               | None \<Rightarrow> fallback))"

definition resolve_remote_path :: "string \<Rightarrow> string \<Rightarrow> string" where
  "resolve_remote_path home path =
     (if starts_with ''/'' path then path
      else case strip_prefix ''~'' path of
             Some rest \<Rightarrow>
               if rest = [] then join home []
               else if starts_with ''/'' rest then join home (tl rest)
               else join home path
           | None \<Rightarrow> join home path)"

definition needs_privileged_worker :: "bool \<Rightarrow> string \<Rightarrow> string \<Rightarrow> bool" where
  "needs_privileged_worker is_root current_username user = (is_root \<and> user \<noteq> current_username)"

section \<open>Limited and counting streams\<close>

datatype 'r poll = Pending | Ready 'r

record 'w LimitedWriter =
  lw_inner :: 'w
  lw_written :: u64
  lw_limit :: u64

definition limited_new :: "'w \<Rightarrow> u64 \<Rightarrow> 'w LimitedWriter" where
  "limited_new inner limit = \<lparr>lw_inner = inner, lw_written = 0, lw_limit = limit\<rparr>"

type_synonym 'w poll_write = "'w \<Rightarrow> byte list \<Rightarrow> 'w \<times> (io_error + nat) poll"

definition limited_poll_write :: "'w poll_write \<Rightarrow> 'w LimitedWriter poll_write" where
  "limited_poll_write inner_write w buf =
     (if lw_limit w \<le> lw_written w then (w, Ready (Inl (IoError OtherKind None)))
      else
        let available = min (unat (lw_limit w - lw_written w)) (length buf)
        in case inner_write (lw_inner w) (take available buf) of
             (i, Pending) \<Rightarrow> (w\<lparr>lw_inner := i\<rparr>, Pending)
           | (i, Ready (Inl e)) \<Rightarrow> (w\<lparr>lw_inner := i\<rparr>, Ready (Inl e))
           | (i, Ready (Inr n)) \<Rightarrow>
               (w\<lparr>lw_inner := i, lw_written := lw_written w + word_of_nat n\<rparr>, Ready (Inr n)))"

text \<open>The progress callback is represented by the list of the counts reported to it.\<close>

record 'w ProgressWriter =
  pw_inner :: 'w
  pw_reported :: "u64 list"

definition progress_poll_write :: "'w poll_write \<Rightarrow> 'w ProgressWriter poll_write" where
  "progress_poll_write inner_write w buf =
     (case inner_write (pw_inner w) buf of
        (i, Pending) \<Rightarrow> (w\<lparr>pw_inner := i\<rparr>, Pending)
      | (i, Ready (Inl e)) \<Rightarrow> (w\<lparr>pw_inner := i\<rparr>, Ready (Inl e))
      | (i, Ready (Inr n)) \<Rightarrow>
          (w\<lparr>pw_inner := i, pw_reported := pw_reported w @ (if 0 < n then [word_of_nat n] else [])\<rparr>,
           Ready (Inr n)))"

section \<open>Facts: budgets\<close>

text \<open>Adding the sizes of a list of entries, stopping at the first refusal.\<close>

fun budget_adds :: "CopyBudget \<Rightarrow> u64 list \<Rightarrow> CopyBudget \<times> unit res" where
  "budget_adds b [] = (b, Inr ())"
| "budget_adds b (n # ns) =
     (case budget_add b n of (b, Inl e) \<Rightarrow> (b, Inl e) | (b, Inr _) \<Rightarrow> budget_adds b ns)"

lemma unat_u64_max: "unat (- 1 :: u64) = 2 ^ 64 - 1"
  using unat_max_word [where 'a = 64] by simp

lemma below_max: "(w :: u64) \<noteq> - 1 \<Longrightarrow> unat w < 2 ^ 64 - 1"
  using unat_le_max [of w] unat_u64_max by (metis (no_types, lifting) le_neq_implies_less len_num0 len_bit0
      numeral_eq_iff word_unat_eq_iff unat_max_word)

lemma budget_add_ok:
  "budget_add b n = (b', Inr u) \<longleftrightarrow>
     b' = b\<lparr>cb_entries := sat_add (cb_entries b) 1, cb_bytes := sat_add (cb_bytes b) n\<rparr> \<and>
     cb_entries b' \<le> max_entries (cb_limits b) \<and> cb_bytes b' \<le> max_bytes (cb_limits b)"
  by (auto simp: budget_add_def Let_def)

lemma budget_add_limits: "cb_limits (fst (budget_add b n)) = cb_limits b"
  by (simp add: budget_add_def Let_def)

lemma budget_add_exact:
  assumes "max_entries (cb_limits b) \<noteq> - 1" "max_bytes (cb_limits b) \<noteq> - 1"
  shows "(\<exists>b'. budget_add b n = (b', Inr u)) \<longleftrightarrow>
      unat (cb_entries b) + 1 \<le> unat (max_entries (cb_limits b)) \<and>
      unat (cb_bytes b) + unat n \<le> unat (max_bytes (cb_limits b))"
    and "budget_add b n = (b', Inr u) \<Longrightarrow>
      cb_limits b' = cb_limits b \<and> unat (cb_entries b') = unat (cb_entries b) + 1 \<and>
      unat (cb_bytes b') = unat (cb_bytes b) + unat n"
  using below_max [OF assms(1)] below_max [OF assms(2)]
  by (auto simp: budget_add_ok word_le_nat_alt unat_sat_add min_def split: if_splits)

lemma budget_adds_exact:
  assumes "max_entries (cb_limits b) \<noteq> - 1" "max_bytes (cb_limits b) \<noteq> - 1"
    and "unat (cb_entries b) \<le> unat (max_entries (cb_limits b))"
    and "unat (cb_bytes b) \<le> unat (max_bytes (cb_limits b))"
  shows "snd (budget_adds b ns) = Inr () \<longleftrightarrow>
      unat (cb_entries b) + length ns \<le> unat (max_entries (cb_limits b)) \<and>
      unat (cb_bytes b) + sum_list (map unat ns) \<le> unat (max_bytes (cb_limits b))"
  using assms
proof (induction ns arbitrary: b)
  case (Cons n ns)
  show ?case
  proof (cases "\<exists>b'. budget_add b n = (b', Inr ())")
    case True
    then obtain b' where b': "budget_add b n = (b', Inr ())" by blast
    note e = budget_add_exact [OF Cons.prems(1,2)]
    from e(1) [of n "()"] True e(2) [OF b'] Cons.IH [of b'] Cons.prems b' show ?thesis
      by auto
  next
    case False
    then obtain e where "snd (budget_add b n) = Inl e"
      by (cases "budget_add b n"; cases "snd (budget_add b n)") auto
    moreover have "\<not> (unat (cb_entries b) + 1 \<le> unat (max_entries (cb_limits b)) \<and>
      unat (cb_bytes b) + unat n \<le> unat (max_bytes (cb_limits b)))"
      using budget_add_exact(1) [OF Cons.prems(1,2)] False by blast
    ultimately show ?thesis by (auto split: prod.splits sum.splits)
  qed
qed simp

section \<open>Facts: the walk\<close>

lemma append_step_Inr:
  "append_step F T (source, name) pending archive budget = Inr (p, a, b) \<longleftrightarrow>
     (\<exists>md. stat F source = Inr md \<and>
        budget_add budget (if md_is_file md then md_len md else 0) = (b, Inr ()) \<and>
        (if md_is_dir md
         then append_dir T name source archive = Inr a \<and>
              (\<exists>cs. read_dir F source = Inr cs \<and> push_children source name cs pending = Inr p)
         else append_path_with_name T source name archive = Inr a \<and> p = pending))"
proof (cases "stat F source")
  case (Inl e)
  then show ?thesis by (simp add: append_step_def)
next
  case (Inr md)
  obtain b1 r where b1: "budget_add budget (if md_is_file md then md_len md else 0) = (b1, r)"
    by (cases "budget_add budget (if md_is_file md then md_len md else 0)")
  show ?thesis
  proof (cases "md_is_dir md")
    case True
    with Inr b1 show ?thesis by (cases r) (simp_all add: append_step_def and_then_eq_Inr, blast)
  next
    case False
    with Inr b1 show ?thesis by (cases r) (simp_all add: append_step_def and_then_eq_Inr, blast)
  qed
qed

lemma append_step_budget:
  assumes "append_step F T item pending archive budget = Inr (p, a, b)"
  shows "\<exists>n. budget_add budget n = (b, Inr ())"
  using assms by (cases item) (auto simp: append_step_Inr)

lemma append_loop_returns:
  assumes "max_entries (cb_limits budget) \<noteq> - 1"
    and "cb_entries budget \<le> max_entries (cb_limits budget)"
  shows "\<exists>r. append_loop F T pending archive budget = Some r"
  using assms
proof (induction "unat (max_entries (cb_limits budget)) - unat (cb_entries budget)"
    arbitrary: pending archive budget rule: less_induct)
  case less
  show ?case
  proof (cases "pending = []")
    case True
    then show ?thesis by (simp add: append_loop.simps)
  next
    case False
    show ?thesis
    proof (cases "append_step F T (last pending) (butlast pending) archive budget")
      case (Inl e)
      with False show ?thesis by (simp add: append_loop.simps)
    next
      case (Inr r)
      obtain p a b where r: "r = (p, a, b)" by (cases r)
      with Inr have st: "append_step F T (last pending) (butlast pending) archive budget = Inr (p, a, b)"
        by simp
      then obtain n where n: "budget_add budget n = (b, Inr ())" using append_step_budget [OF st] by blast
      then have b: "cb_limits b = cb_limits budget" "cb_entries b = sat_add (cb_entries budget) 1"
          "cb_entries b \<le> max_entries (cb_limits budget)"
        by (auto simp: budget_add_ok)
      have "unat (cb_entries b) = unat (cb_entries budget) + 1"
        using b(2,3) below_max [OF less.prems(1)]
        by (auto simp: word_le_nat_alt unat_sat_add min_def split: if_splits)
      with b less.prems have "\<exists>r. append_loop F T p a b = Some r"
        by (intro less.hyps) (auto simp: word_le_nat_alt)
      with False st show ?thesis by (simp add: append_loop.simps [of F T pending])
    qed
  qed
qed

lemmas append_loop_induct = append_loop.raw_induct [rotated, consumes 1, case_names step]

text \<open>An invariant of the iteration holds at the end.\<close>

lemma append_loop_rule:
  assumes "append_loop F T pending archive budget = Some (Inr (a, b))" "I pending archive budget"
    and step: "\<And>item pending archive budget p a b. I (pending @ [item]) archive budget \<Longrightarrow>
      append_step F T item pending archive budget = Inr (p, a, b) \<Longrightarrow> I p a b"
  shows "I [] a b"
proof -
  have "I [] a b" if "append_loop F' T' pending archive budget = Some r"
      "F' = F" "T' = T" "r = Inr (a, b)" "I pending archive budget" for F' T' pending archive budget r
    using that
  proof (induction rule: append_loop_induct)
    case (step loop F' T' pending archive budget r)
    note h = step(3-6)
    show ?case
    proof (cases "pending = []")
      case True
      with step(2) h show ?thesis by simp
    next
      case False
      then obtain p' a' b' where s: "append_step F T (last pending) (butlast pending) archive budget = Inr (p', a', b')"
        "loop F' T' p' a' b' = Some r"
        using step(2) h by (auto split: sum.splits)
      have "I (butlast pending @ [last pending]) archive budget" using False h(4) by simp
      then have "I p' a' b'" using s(1) by (rule assms(3))
      with step(1) [OF s(2)] h(1,2,3) show ?thesis by blast
    qed
  qed
  with assms(1,2) show ?thesis by blast
qed

text \<open>A builder that records what it is given: kind, archive name and source of each entry.\<close>

definition recording :: "(bool \<times> string \<times> string) list tar_sink" where
  "recording = \<lparr>append_dir = (\<lambda>name source a. Inr (a @ [(True, name, source)])),
                append_path_with_name = (\<lambda>source name a. Inr (a @ [(False, name, source)]))\<rparr>"

definition file_size :: "source_fs \<Rightarrow> bool \<times> string \<times> string \<Rightarrow> nat" where
  "file_size F item =
     (case item of (_, _, source) \<Rightarrow>
        (case stat F source of Inr md \<Rightarrow> if md_is_file md then unat (md_len md) else 0 | Inl _ \<Rightarrow> 0))"

text \<open>What \<open>read_dir\<close> documents: an entry's name is one plain path component.\<close>

definition plain_component :: "string \<Rightarrow> bool" where
  "plain_component c \<longleftrightarrow> CHR ''/'' \<notin> set c \<and> \<not> blank_piece c \<and> c \<noteq> ''..''"

definition plain_listing :: "source_fs \<Rightarrow> bool" where
  "plain_listing F \<longleftrightarrow> (\<forall>s cs c. read_dir F s = Inr cs \<longrightarrow> Inr c \<in> set cs \<longrightarrow> plain_component c)"

definition below :: "string \<Rightarrow> string \<Rightarrow> string \<times> string \<Rightarrow> bool" where
  "below source name item \<longleftrightarrow>
     (case item of (s, n) \<Rightarrow> s \<noteq> [] \<and> n \<noteq> [] \<and>
        (\<exists>rel. components s = components source @ map Normal rel \<and>
               components n = components name @ map Normal rel))"

lemma join_not_Nil: "a \<noteq> [] \<Longrightarrow> join a c \<noteq> []"
  by (auto simp: join_def)

lemma components_join_plain:
  assumes "base \<noteq> []" "plain_component c"
  shows "components (join base c) = components base @ [Normal c]"
proof -
  have "\<not> has_root c" using assms(2) by (cases c) (auto simp: plain_component_def)
  with assms show ?thesis
    by (simp add: components_join body_components_name plain_component_def piece_component_def)
qed

lemma below_child:
  assumes "below source name (s, n)" "plain_component c"
  shows "below source name (join s c, join n c)"
proof -
  from assms(1) obtain rel where r: "s \<noteq> []" "n \<noteq> []" "components s = components source @ map Normal rel"
      "components n = components name @ map Normal rel" by (auto simp: below_def)
  then have "components (join s c) = components source @ map Normal (rel @ [c])"
      "components (join n c) = components name @ map Normal (rel @ [c])"
    using assms(2) by (simp_all add: components_join_plain)
  with r show ?thesis by (auto simp: below_def join_not_Nil intro!: exI [of _ "rel @ [c]"])
qed

lemma push_children_below:
  assumes "push_children s n cs pending = Inr p" "below source name (s, n)"
    and "\<forall>i\<in>set pending. below source name i" "\<forall>c. Inr c \<in> set cs \<longrightarrow> plain_component c"
  shows "\<forall>i\<in>set p. below source name i"
  using assms
proof (induction s n cs pending rule: push_children.induct)
  case (3 s n c cs pending)
  then show ?case using below_child by auto
qed auto

definition walk_inv ::
  "source_fs \<Rightarrow> FileCopyLimits \<Rightarrow> string \<Rightarrow> string \<Rightarrow> (string \<times> string) list \<Rightarrow>
   (bool \<times> string \<times> string) list \<Rightarrow> CopyBudget \<Rightarrow> bool" where
  "walk_inv F limits source name pending items b \<longleftrightarrow>
     cb_limits b = limits \<and> unat (cb_entries b) = length items \<and>
     unat (cb_bytes b) = sum_list (map (file_size F) items) \<and>
     cb_entries b \<le> max_entries limits \<and> cb_bytes b \<le> max_bytes limits \<and>
     (\<forall>i\<in>set pending. below source name i) \<and>
     (\<forall>(d, n, s)\<in>set items. below source name (s, n))"

lemma walk_inv_step:
  assumes "walk_inv F limits source name (pending @ [item]) items budget"
    and "append_step F recording item pending items budget = Inr (p, a, b)"
    and "max_entries limits \<noteq> - 1" "max_bytes limits \<noteq> - 1" "plain_listing F"
  shows "walk_inv F limits source name p a b"
proof -
  obtain s n where item: "item = (s, n)" by (cases item)
  from assms(2) obtain md where md: "stat F s = Inr md"
      "budget_add budget (if md_is_file md then md_len md else 0) = (b, Inr ())"
      "a = items @ [(md_is_dir md, n, s)]"
      "p = pending \<or> (\<exists>cs. read_dir F s = Inr cs \<and> push_children s n cs pending = Inr p)"
    by (auto simp: item append_step_Inr recording_def split: if_splits)
  have lim: "cb_limits budget = limits" and bel: "below source name (s, n)"
    "\<forall>i\<in>set pending. below source name i"
    using assms(1) by (auto simp: walk_inv_def item)
  have "\<forall>i\<in>set p. below source name i"
    using md(4) push_children_below [OF _ bel] assms(5) bel(2) by (auto simp: plain_listing_def)
  moreover have "file_size F (md_is_dir md, n, s) = unat (if md_is_file md then md_len md else 0)"
    using md(1) by (simp add: file_size_def)
  moreover note budget_add_exact(2) [OF _ _ md(2)] md(2) [unfolded budget_add_ok]
  ultimately show ?thesis using assms(1,3,4) lim bel md(3) by (auto simp: walk_inv_def)
qed

section \<open>Facts: plans\<close>

lemma utf8_lossy_set: "set (utf8_lossy bs) \<subseteq> set bs \<union> {0xEF, 0xBF, 0xBD}"
proof (induction bs rule: utf8_lossy.induct)
  case (1 bs)
  show ?case
  proof (cases "bs = []")
    case True
    then show ?thesis by (simp add: utf8_lossy.simps)
  next
    case False
    then have "set (utf8_lossy (drop (snd (utf8_step bs)) bs)) \<subseteq> set bs \<union> {0xEF, 0xBF, 0xBD}"
      using 1 set_drop_subset by fastforce
    with False show ?thesis
      using set_take_subset by (subst utf8_lossy.simps) (auto dest: in_set_takeD)
  qed
qed

lemma utf8_lossy_id: "0xEF \<notin> set (utf8_lossy bs) \<Longrightarrow> utf8_lossy bs = bs"
proof (induction bs rule: utf8_lossy.induct)
  case (1 bs)
  show ?case
  proof (cases "bs = []")
    case True
    then show ?thesis by (simp add: utf8_lossy.simps)
  next
    case False
    have u: "utf8_lossy bs = (if fst (utf8_step bs) then take (snd (utf8_step bs)) bs else [0xEF, 0xBF, 0xBD]) @
        utf8_lossy (drop (snd (utf8_step bs)) bs)"
      using False by (subst utf8_lossy.simps) simp
    then have "fst (utf8_step bs)" using 1(2) by (auto split: if_splits)
    with 1 False u show ?thesis by simp
  qed
qed

lemma plain_component_lossy: "plain_component n \<Longrightarrow> plain_component (to_string_lossy n)"
proof -
  assume p: "plain_component n"
  have c: "c \<in> set (to_string_lossy n) \<Longrightarrow> c \<in> set n \<or> c \<in> {CHR 0xEF, CHR 0xBF, CHR 0xBD}" for c
  proof -
    assume "c \<in> set (to_string_lossy n)"
    then obtain b where b: "b \<in> set (utf8_lossy (as_bytes n))" "c = char_of (unat b)"
      by (auto simp: to_string_lossy_def chars_of_def)
    from b(1) utf8_lossy_set consider "b \<in> set (as_bytes n)" | "b = 0xEF" | "b = 0xBF" | "b = 0xBD" by blast
    then show ?thesis using b(2) by cases (auto simp: as_bytes_def, code_simp+)
  qed
  have id: "to_string_lossy n = n" if "CHR 0xEF \<notin> set (to_string_lossy n)"
  proof -
    have "0xEF \<notin> set (utf8_lossy (as_bytes n))"
    proof
      assume "0xEF \<in> set (utf8_lossy (as_bytes n))"
      then have "char_of (unat (0xEF :: byte)) \<in> set (to_string_lossy n)"
        unfolding to_string_lossy_def chars_of_def set_map by (rule imageI)
      moreover have "char_of (unat (0xEF :: byte)) = CHR 0xEF" by code_simp
      ultimately show False using that by simp
    qed
    then have "utf8_lossy (as_bytes n) = as_bytes n" by (rule utf8_lossy_id)
    then show ?thesis by (simp only: to_string_lossy_def chars_of_as_bytes)
  qed
  show ?thesis
    using p c [of "CHR ''/''"] id by (auto simp: plain_component_def blank_piece_def)
qed

lemma single_normal_iff: "single_normal n \<longleftrightarrow> (\<exists>c. components n = [Normal c])"
  by (auto simp: single_normal_def split: list.splits component.splits)

lemma single_normal_plain: "plain_component n \<Longrightarrow> single_normal n"
  using components_plain by (auto simp: single_normal_iff plain_component_def)

lemma single_normal_join:
  assumes "single_normal n" "base \<noteq> []"
  shows "\<exists>c. components (join base n) = components base @ [Normal c]"
proof -
  from assms(1) obtain c where c: "components n = [Normal c]" by (auto simp: single_normal_iff)
  then have "\<not> has_root n" "body_components n = [Normal c]" by (auto simp: components_def split: if_splits)
  with assms(2) show ?thesis by (simp add: components_join)
qed

lemma entry_for_path_normal:
  "entry_for_path p = Inr e \<Longrightarrow> single_normal (fe_archive_name e)"
  using file_name_plain [of p] plain_component_lossy
  by (auto simp: entry_for_path_def and_then_eq_Inr plain_component_def intro!: single_normal_plain)

lemma validate_entries_ok:
  "validate_entries ps = Inr () \<longleftrightarrow>
     (\<forall>(a, b)\<in>set ps. fe_path a = fe_path b \<and> single_normal (fe_archive_name b))"
  by (induction ps rule: validate_entries.induct) auto

lemma validate_upload_plan_ok:
  "validate_upload_plan req plan = Inr () \<longleftrightarrow>
     map fe_path req = map fe_path (fp_entries plan) \<and>
     list_all (\<lambda>e. single_normal (fe_archive_name e)) (fp_entries plan)"
proof -
  have "length xs = length ys \<Longrightarrow>
      (\<forall>(a, b)\<in>set (zip xs ys). fe_path a = fe_path b \<and> single_normal (fe_archive_name b)) \<longleftrightarrow>
      map fe_path xs = map fe_path ys \<and> list_all (\<lambda>e. single_normal (fe_archive_name e)) ys"
    for xs ys :: "FileCopyEntry list"
    by (induction xs ys rule: list_induct2) auto
  then show ?thesis
    by (auto simp: validate_upload_plan_def validate_entries_ok dest: map_eq_imp_length_eq)
qed

section \<open>Facts: unpacking\<close>

lemma insert_desc_mset: "mset (insert_desc x xs) = add_mset x (mset xs)"
  by (induction xs) auto

lemma sort_desc_mset: "mset (sort_desc xs) = mset xs"
  by (induction xs) (auto simp: sort_desc_def insert_desc_mset)

lemma insert_desc_sorted:
  "sorted_wrt (\<lambda>x y. snd y \<le> snd x) xs \<Longrightarrow> sorted_wrt (\<lambda>x y. snd y \<le> snd x) (insert_desc x xs)"
proof (induction xs)
  case (Cons y ys)
  have "set (insert_desc x ys) = insert x (set ys)"
    by (metis insert_desc_mset set_mset_add_mset_insert set_mset_mset)
  with Cons show ?case by (auto intro: order_trans)
qed simp

lemma sort_desc_sorted: "sorted_wrt (\<lambda>x y. snd y \<le> snd x) (sort_desc xs)"
  by (induction xs) (auto simp: sort_desc_def insert_desc_sorted)

text \<open>A file system that records the entries unpacked into it.\<close>

definition logs :: "('e, 'e list) untar \<Rightarrow> ('e \<Rightarrow> io_error + unit) \<Rightarrow> bool" where
  "logs U outcome \<longleftrightarrow> (\<forall>d e fs. unpack_in_raw U d e fs = (fs @ [e], outcome e))"

definition sizes :: "('e, 'f) untar \<Rightarrow> 'e list \<Rightarrow> nat" where
  "sizes U es = sum_list (map (\<lambda>e. unat (effective_size U e)) es)"

lemma sizes_simps [simp]:
  "sizes U [] = 0" "sizes U (e # es) = unat (effective_size U e) + sizes U es"
  "sizes U (es @ fs) = sizes U es + sizes U fs"
  by (simp_all add: sizes_def)

lemma sizes_mset: "mset es = mset fs \<Longrightarrow> sizes U es = sizes U fs"
  unfolding sizes_def by (metis mset_map sum_mset_sum_list)

text \<open>The counters of the budget cover everything unpacked or kept so far.\<close>

definition covers :: "('e, 'f) untar \<Rightarrow> FileCopyLimits \<Rightarrow> CopyBudget \<Rightarrow> nat \<Rightarrow> nat \<Rightarrow> bool" where
  "covers U limits b n tot \<longleftrightarrow>
     cb_limits b = limits \<and> unat (cb_entries b) = n \<and> unat (cb_bytes b) = tot \<and>
     n \<le> unat (max_entries limits) \<and> tot \<le> unat (max_bytes limits)"

lemma covers_add:
  assumes "covers U limits b n tot" "budget_add b s = (b', Inr ())"
    and "max_entries limits \<noteq> - 1" "max_bytes limits \<noteq> - 1"
  shows "covers U limits b' (n + 1) (tot + unat s)"
  using assms budget_add_exact(2) [of b s b' "()"] assms(2) [unfolded budget_add_ok]
  by (auto simp: covers_def word_le_nat_alt)

lemma unpack_entries_covers:
  assumes "logs U outcome" "max_entries limits \<noteq> - 1" "max_bytes limits \<noteq> - 1"
    and "covers U limits b (length fs + length ds) (sizes U (fs @ ds))"
    and "unpack_entries U dest es b ds fs = (fs', r)"
  shows "length fs' + (case r of Inr ds' \<Rightarrow> length ds' | Inl _ \<Rightarrow> 0) \<le> unat (max_entries limits) \<and>
    sizes U fs' + (case r of Inr ds' \<Rightarrow> sizes U ds' | Inl _ \<Rightarrow> 0) \<le> unat (max_bytes limits)"
  using assms(4,5)
proof (induction es arbitrary: b ds fs)
  case Nil
  then show ?case by (auto simp: covers_def)
next
  case (Cons x es)
  show ?case
  proof (cases x)
    case (Inl e)
    with Cons.prems show ?thesis by (auto simp: covers_def)
  next
    case (Inr e)
    obtain b' a where a: "budget_add b (effective_size U e) = (b', a)" by fastforce
    show ?thesis
    proof (cases a)
      case (Inl err)
      with Cons.prems Inr a show ?thesis by (auto simp: covers_def)
    next
      case (Inr u)
      with a have c: "covers U limits b' (length fs + length ds + 1) (sizes U (fs @ ds) + unat (effective_size U e))"
        using covers_add [OF Cons.prems(1) _ assms(2,3)] by simp
      have l: "unpack_in_raw U dest e fs = (fs @ [e], outcome e)" using assms(1) by (simp add: logs_def)
      show ?thesis
      proof (cases "is_directory U e")
        case True
        then show ?thesis
          using Cons.IH [of b' fs "ds @ [e]"] Cons.prems(2) \<open>x = Inr e\<close> a Inr c
          by (simp add: add.assoc add.left_commute)
      next
        case False
        show ?thesis
        proof (cases "outcome e")
          case (Inl err)
          with False show ?thesis
            using Cons.prems(2) \<open>x = Inr e\<close> a Inr c l by (auto simp: covers_def)
        next
          case (Inr u')
          with False show ?thesis
            using Cons.IH [of b' "fs @ [e]" ds] Cons.prems(2) \<open>x = Inr e\<close> a \<open>a = Inr u\<close> c l
            by (simp add: add.assoc add.left_commute add.commute)
        qed
      qed
    qed
  qed
qed

lemma unpack_all_log:
  assumes "logs U outcome" "unpack_all U dest es fs = (fs', r)"
  shows "\<exists>k\<le>length es. fs' = fs @ take k es \<and> (r = Inr () \<longrightarrow> k = length es)"
  using assms(2)
proof (induction es arbitrary: fs)
  case (Cons e es)
  have l: "unpack_in_raw U dest e fs = (fs @ [e], outcome e)" using assms(1) by (simp add: logs_def)
  show ?case
  proof (cases "outcome e")
    case (Inl err)
    with Cons.prems l show ?thesis by (intro exI [of _ 1]) auto
  next
    case (Inr u)
    with Cons l obtain k where "k \<le> length es" "fs' = (fs @ [e]) @ take k es" "r = Inr () \<longrightarrow> k = length es"
      by fastforce
    then show ?thesis by (intro exI [of _ "Suc k"]) simp
  qed
qed simp

lemma unpack_entries_ok:
  assumes "logs U outcome" "unpack_entries U dest es b ds fs = (fs', Inr ds')"
  shows "\<exists>xs. es = map Inr xs \<and> fs' = fs @ filter (\<lambda>e. \<not> is_directory U e) xs \<and>
           ds' = ds @ filter (is_directory U) xs"
  using assms(2)
proof (induction es arbitrary: b ds fs)
  case (Cons x es)
  then obtain e where x: "x = Inr e" by (cases x) auto
  have l: "unpack_in_raw U dest e fs = (fs @ [e], outcome e)" using assms(1) by (simp add: logs_def)
  obtain b' a where a: "budget_add b (effective_size U e) = (b', a)" by fastforce
  then obtain u where u: "a = Inr u" using Cons.prems x by (cases a) auto
  show ?case
  proof (cases "is_directory U e")
    case True
    with Cons.prems x a u have "unpack_entries U dest es b' (ds @ [e]) fs = (fs', Inr ds')" by simp
    from Cons.IH [OF this] obtain xs where "es = map Inr xs" "fs' = fs @ filter (\<lambda>e. \<not> is_directory U e) xs"
      "ds' = (ds @ [e]) @ filter (is_directory U) xs" by blast
    with x True show ?thesis by (intro exI [of _ "e # xs"]) simp
  next
    case False
    with Cons.prems x a u l obtain u' where "outcome e = Inr u'" "unpack_entries U dest es b' ds (fs @ [e]) = (fs', Inr ds')"
      by (cases "outcome e") auto
    from Cons.IH [OF this(2)] obtain xs where "es = map Inr xs" "fs' = (fs @ [e]) @ filter (\<lambda>e. \<not> is_directory U e) xs"
      "ds' = ds @ filter (is_directory U) xs" by blast
    with x False show ?thesis by (intro exI [of _ "e # xs"]) simp
  qed
qed simp

lemma directory_paths_Inr:
  "directory_paths U ds = Inr dirs \<Longrightarrow> map fst dirs = ds \<and> (\<forall>(e, p)\<in>set dirs. path_bytes U e = Inr p)"
proof -
  assume "directory_paths U ds = Inr dirs"
  then have "list_all2 (\<lambda>e d. d = (e, snd d) \<and> path_bytes U e = Inr (snd d)) ds dirs"
    unfolding directory_paths_def collect_results_Inr
    by (rule list_all2_mono) (auto split: sum.splits)
  then show ?thesis by (induction rule: list_all2_induct) auto
qed

lemma append_le_self: "(p :: byte list) @ x \<le> p \<Longrightarrow> x = []"
  by (induction p) auto

lemma unpack_archive_cases:
  assumes "unpack_archive_limited U ex cr can entries dest limits fs = (fs', r)"
    and "\<And>d fs. fst (cr d fs) = fs"
  shows "(fs' = fs \<and> r \<noteq> Inr ()) \<or>
    (\<exists>d es ds fs1. entries = Inr es \<and> unpack_entries U d es (budget_new limits) [] fs = (fs1, ds) \<and>
       (case ds of
          Inl e \<Rightarrow> fs' = fs1 \<and> r = Inl e
        | Inr ds \<Rightarrow>
            (case directory_paths U ds of
               Inl e \<Rightarrow> fs' = fs1 \<and> r = Inl e
             | Inr dirs \<Rightarrow> unpack_all U d (map fst (sort_desc dirs)) fs1 = (fs', r))))"
proof -
  define q where "q = snd (if ex dest fs then (fs, Inr ()) else cr dest fs)"
  have q: "(if ex dest fs then (fs, Inr ()) else cr dest fs) = (fs, q)"
    using assms(2) [of dest fs] by (simp add: q_def prod_eq_iff)
  note unf = assms(1) [unfolded unpack_archive_limited_def q]
  show ?thesis
  proof (cases "\<exists>u d es. q = Inr u \<and> can dest fs = Inr d \<and> entries = Inr es")
    case False
    then have "fs' = fs \<and> r \<noteq> Inr ()"
      using unf by (cases q; cases "can dest fs"; cases entries) auto
    then show ?thesis ..
  next
    case True
    then obtain u d es where e: "q = Inr u" "can dest fs = Inr d" "entries = Inr es" by blast
    obtain fs1 ds where un: "unpack_entries U d es (budget_new limits) [] fs = (fs1, ds)" by fastforce
    have "case ds of
          Inl e \<Rightarrow> fs' = fs1 \<and> r = Inl e
        | Inr ds \<Rightarrow>
            (case directory_paths U ds of
               Inl e \<Rightarrow> fs' = fs1 \<and> r = Inl e
             | Inr dirs \<Rightarrow> unpack_all U d (map fst (sort_desc dirs)) fs1 = (fs', r))"
      using unf e un by (auto split: sum.splits)
    with e un show ?thesis by blast
  qed
qed

section \<open>Properties\<close>

text \<open>A copy is accepted exactly when it is within its limits: the saturating 64-bit counters
  decide as exact counters would, for every sequence of entries and any limits below the largest
  representable one.\<close>

theorem budget_exact:
  assumes "max_entries limits \<noteq> - 1" "max_bytes limits \<noteq> - 1"
  shows "snd (budget_adds (budget_new limits) ns) = Inr () \<longleftrightarrow>
      length ns \<le> unat (max_entries limits) \<and> sum_list (map unat ns) \<le> unat (max_bytes limits)"
  using budget_adds_exact [of "budget_new limits" ns] assms by (simp add: budget_new_def)

theorem budget_exact_witness:
  "snd (budget_adds (budget_new \<lparr>max_bytes = 10, max_entries = 2\<rparr>) [4, 6]) = Inr () \<and>
   snd (budget_adds (budget_new \<lparr>max_bytes = 10, max_entries = 2\<rparr>) [4, - 1]) \<noteq> Inr ()"
  using budget_exact [of "\<lparr>max_bytes = 10, max_entries = 2\<rparr>" "[4, 6]"]
    budget_exact [of "\<lparr>max_bytes = 10, max_entries = 2\<rparr>" "[4, - 1]"]
  by (simp add: unat_u64_max)


definition endless_fs :: source_fs where
  "endless_fs = \<lparr>stat = (\<lambda>_. Inr \<lparr>md_is_file = False, md_is_dir = True, md_len = 0\<rparr>),
                read_dir = (\<lambda>_. Inr [Inr ''d''])\<rparr>"


text \<open>What an archive contains stays within the limits and below the chosen source: at most
  \<open>max_entries\<close> entries and \<open>max_bytes\<close> bytes of files, each of them found by going down from the
  source, under the same relative path below the archive name.\<close>

theorem archive_contents_within:
  assumes "append_path_limited F recording source name [] (budget_new limits) = Some (Inr (items, b))"
    and "max_entries limits \<noteq> - 1" "max_bytes limits \<noteq> - 1" "plain_listing F" "source \<noteq> []" "name \<noteq> []"
  shows "length items \<le> unat (max_entries limits) \<and>
    sum_list (map (file_size F) items) \<le> unat (max_bytes limits) \<and>
    (\<forall>(d, n, s)\<in>set items. below source name (s, n))"
proof -
  have "walk_inv F limits source name [] items b"
  proof (rule append_loop_rule [OF assms(1) [unfolded append_path_limited_def]])
    show "walk_inv F limits source name [(source, name)] [] (budget_new limits)"
      using assms(5,6) by (simp add: walk_inv_def budget_new_def below_def)
  qed (rule walk_inv_step [OF _ _ assms(2-4)])
  then show ?thesis by (auto simp: walk_inv_def word_le_nat_alt)
qed

definition small_fs :: source_fs where
  "small_fs = \<lparr>stat = (\<lambda>p. if p = ''/s'' then Inr \<lparr>md_is_file = False, md_is_dir = True, md_len = 0\<rparr>
                           else Inr \<lparr>md_is_file = True, md_is_dir = False, md_len = 5\<rparr>),
               read_dir = (\<lambda>_. Inr [Inr ''a'', Inr ''b''])\<rparr>"

theorem archive_contents_within_witness:
  "\<exists>items b. append_path_limited small_fs recording ''/s'' ''s'' [] (budget_new \<lparr>max_bytes = 10, max_entries = 3\<rparr>) =
       Some (Inr (items, b)) \<and>
     (\<forall>(d, n, s)\<in>set items. below ''/s'' ''s'' (s, n)) \<and> sum_list (map (file_size small_fs) items) \<le> 10"
proof -
  let ?l = "\<lparr>max_bytes = 10, max_entries = 3\<rparr>" and ?items = "[(True, ''s'', ''/s''), (False, ''s/b'', ''/s/b''), (False, ''s/a'', ''/s/a'')]"
  have r: "append_path_limited small_fs recording ''/s'' ''s'' [] (budget_new ?l) =
      Some (Inr (?items, \<lparr>cb_limits = ?l, cb_bytes = 10, cb_entries = 3\<rparr>))"
    by code_simp
  have p: "plain_listing small_fs"
    by (auto simp: plain_listing_def small_fs_def plain_component_def blank_piece_def)
  show ?thesis using archive_contents_within [OF r _ _ p] r by simp
qed

text \<open>C29. However extraction ends, it has unpacked at most \<open>max_entries\<close> entries of at most
  \<open>max_bytes\<close> bytes: an entry is charged before it is written.\<close>

theorem unpack_within_limits:
  assumes "logs U outcome" "\<And>d fs. fst (cr d fs) = fs"
    and "max_entries limits \<noteq> - 1" "max_bytes limits \<noteq> - 1"
    and "unpack_archive_limited U ex cr can entries dest limits [] = (fs, r)"
  shows "length fs \<le> unat (max_entries limits) \<and> sizes U fs \<le> unat (max_bytes limits)"
  using unpack_archive_cases [OF assms(5,2)]
proof (elim disjE exE conjE)
  assume "fs = []"
  then show ?thesis by simp
next
  fix d es ds fs1
  assume u: "unpack_entries U d es (budget_new limits) [] [] = (fs1, ds)"
    and c: "case ds of Inl e \<Rightarrow> fs = fs1 \<and> r = Inl e
      | Inr ds \<Rightarrow> (case directory_paths U ds of Inl e \<Rightarrow> fs = fs1 \<and> r = Inl e
          | Inr dirs \<Rightarrow> unpack_all U d (map fst (sort_desc dirs)) fs1 = (fs, r))"
  have cov: "covers U limits (budget_new limits) (length ([] :: 'a list) + length ([] :: 'a list)) (sizes U ([] @ []))"
    by (simp add: covers_def budget_new_def)
  note lim = unpack_entries_covers [OF assms(1,3,4) cov u]
  show ?thesis
  proof (cases "\<exists>ds' dirs. ds = Inr ds' \<and> directory_paths U ds' = Inr dirs")
    case False
    with c have "fs = fs1" by (auto split: sum.splits)
    with lim show ?thesis by (auto split: sum.splits)
  next
    case True
    then obtain ds' dirs where d: "ds = Inr ds'" "directory_paths U ds' = Inr dirs" by blast
    with c have "unpack_all U d (map fst (sort_desc dirs)) fs1 = (fs, r)" by simp
    from unpack_all_log [OF assms(1) this] obtain k where
      k: "fs = fs1 @ take k (map fst (sort_desc dirs))" by blast
    have "mset (map fst (sort_desc dirs)) = mset ds'"
      using directory_paths_Inr [OF d(2)] by (metis mset_map sort_desc_mset)
    then have "length (map fst (sort_desc dirs)) = length ds'" "sizes U (map fst (sort_desc dirs)) = sizes U ds'"
      by (metis size_mset, rule sizes_mset)
    moreover have "sizes U (take k (map fst (sort_desc dirs))) \<le> sizes U (map fst (sort_desc dirs))"
      by (metis append_take_drop_id le_add1 sizes_simps(3))
    ultimately show ?thesis using lim d(1) k by (simp add: min_def)
  qed
qed

definition example_untar :: "(nat, nat list) untar" where
  "example_untar = \<lparr>effective_size = word_of_nat, is_directory = (\<lambda>e. e = 0),
     path_bytes = (\<lambda>e. Inr [word_of_nat e]), unpack_in_raw = (\<lambda>_ e fs. (fs @ [e], Inr ()))\<rparr>"

lemma example_untar_logs: "logs example_untar (\<lambda>_. Inr ())"
  by (simp add: logs_def example_untar_def)

theorem unpack_within_limits_witness:
  "length (fst (unpack_archive_limited example_untar (\<lambda>_ _. True) (\<lambda>_ fs. (fs, Inr ())) (\<lambda>d _. Inr d)
     (Inr [Inr 3, Inr 0, Inr 4]) ''/d'' \<lparr>max_bytes = 5, max_entries = 2\<rparr> [])) \<le> 2"
proof -
  obtain fs r where u: "unpack_archive_limited example_untar (\<lambda>_ _. True) (\<lambda>_ fs. (fs, Inr ())) (\<lambda>d _. Inr d)
     (Inr [Inr 3, Inr 0, Inr 4]) ''/d'' \<lparr>max_bytes = 5, max_entries = 2\<rparr> [] = (fs, r)" by fastforce
  show ?thesis using unpack_within_limits [OF example_untar_logs _ _ _ u] u by simp
qed

text \<open>A successful extraction unpacks every entry once: first the files in archive order, then
  the directories, and no directory before one that lies inside it, so that setting a directory's
  permissions and times cannot get in the way of its contents.\<close>

theorem unpack_order:
  assumes "logs U outcome" "\<And>d fs. fst (cr d fs) = fs"
    and "unpack_archive_limited U ex cr can entries dest limits [] = (fs, Inr ())"
  shows "\<exists>xs dirs. entries = Inr (map Inr xs) \<and> fs = filter (\<lambda>e. \<not> is_directory U e) xs @ dirs \<and>
    mset dirs = mset (filter (is_directory U) xs) \<and>
    sorted_wrt (\<lambda>a b. \<forall>p x. path_bytes U a = Inr p \<longrightarrow> path_bytes U b = Inr (p @ x) \<longrightarrow> x = []) dirs"
  using unpack_archive_cases [OF assms(3,2)]
proof (elim disjE exE conjE)
  fix d es ds fs1
  assume e: "entries = Inr es" and u: "unpack_entries U d es (budget_new limits) [] [] = (fs1, ds)"
    and c: "case ds of Inl e \<Rightarrow> fs = fs1 \<and> Inr () = Inl e
      | Inr ds \<Rightarrow> (case directory_paths U ds of Inl e \<Rightarrow> fs = fs1 \<and> Inr () = Inl e
          | Inr dirs \<Rightarrow> unpack_all U d (map fst (sort_desc dirs)) fs1 = (fs, Inr ()))"
  then obtain ds' dirs where d: "ds = Inr ds'" "directory_paths U ds' = Inr dirs"
      "unpack_all U d (map fst (sort_desc dirs)) fs1 = (fs, Inr ())"
    by (auto split: sum.splits)
  obtain xs where xs: "es = map Inr xs" "fs1 = filter (\<lambda>e. \<not> is_directory U e) xs"
      "ds' = filter (is_directory U) xs"
    using unpack_entries_ok [OF assms(1) u [unfolded d(1)]] by auto
  have fs: "fs = fs1 @ map fst (sort_desc dirs)" using unpack_all_log [OF assms(1) d(3)] by auto
  note paths = directory_paths_Inr [OF d(2)]
  have "mset (map fst (sort_desc dirs)) = mset ds'" using paths by (metis mset_map sort_desc_mset)
  moreover have pb: "path_bytes U (fst z) = Inr (snd z)" if "z \<in> set dirs" for z
    using paths that by (cases z) auto
  have "set (sort_desc dirs) = set dirs" by (metis set_mset_mset sort_desc_mset)
  then have "sorted_wrt (\<lambda>a b. \<forall>p x. path_bytes U a = Inr p \<longrightarrow> path_bytes U b = Inr (p @ x) \<longrightarrow> x = [])
      (map fst (sort_desc dirs))"
    unfolding sorted_wrt_map
    by (intro sorted_wrt_mono_rel [OF _ sort_desc_sorted]) (auto simp: pb dest: append_le_self)
  ultimately show ?thesis using e xs fs by blast
qed simp

theorem unpack_order_witness:
  "\<exists>dirs. fst (unpack_archive_limited example_untar (\<lambda>_ _. True) (\<lambda>_ fs. (fs, Inr ())) (\<lambda>d _. Inr d)
     (Inr [Inr 3, Inr 0, Inr 4]) ''/d'' \<lparr>max_bytes = 50, max_entries = 20\<rparr> []) = [3, 4] @ dirs \<and> mset dirs = {#0#}"
proof -
  have r: "unpack_archive_limited example_untar (\<lambda>_ _. True) (\<lambda>_ fs. (fs, Inr ())) (\<lambda>d _. Inr d)
     (Inr [Inr 3, Inr 0, Inr 4]) ''/d'' \<lparr>max_bytes = 50, max_entries = 20\<rparr> [] = ([3, 4, 0], Inr ())"
    by code_simp
  have "(Inr [Inr 3, Inr 0, Inr 4] :: io_error + (error + nat) list) = Inr (map Inr xs) \<Longrightarrow> xs = [3, 0, 4]" for xs
    by auto
  then obtain dirs where x: "[3, 4, 0] = filter (\<lambda>e. \<not> is_directory example_untar e) [3, 0, 4] @ dirs"
      "mset dirs = mset (filter (is_directory example_untar) [3, 0, 4])"
    using unpack_order [OF example_untar_logs _ r, OF fst_conv] by metis
  with x r show ?thesis by (auto simp: example_untar_def)
qed

text \<open>The plan of a server that follows the protocol passes the client's check, for every
  list of sources the client can name and every destination.\<close>

theorem honest_plan_accepted:
  assumes "collect_results entry_for_path paths = Inr entries"
    and "plan_for_destination is_dir destination entries = Inr plan"
  shows "validate_upload_plan entries plan = Inr ()"
proof -
  have all: "list_all (\<lambda>e. single_normal (fe_archive_name e)) entries"
    using assms(1) unfolding collect_results_Inr list_all_iff
    by (induction rule: list_all2_induct) (auto intro: entry_for_path_normal)
  show ?thesis
  proof (cases "fp_entries plan = entries")
    case True
    with all show ?thesis by (simp add: validate_upload_plan_ok)
  next
    case False
    then obtain name where n: "length entries = 1" "file_name destination = Some name"
        "fp_entries plan = [(hd entries)\<lparr>fe_archive_name := to_string_lossy name\<rparr>]"
      using assms(2) by (auto simp: plan_for_destination_def Let_def and_then_eq_Inr split: if_splits)
    moreover have "single_normal (to_string_lossy name)"
      using file_name_plain [OF n(2)]
      by (intro single_normal_plain plain_component_lossy) (simp add: plain_component_def)
    ultimately show ?thesis
      by (cases entries) (auto simp: validate_upload_plan_ok)
  qed
qed

theorem honest_plan_accepted_witness:
  "\<exists>entries plan. collect_results entry_for_path [''/home/me/notes.txt''] = Inr entries \<and>
     plan_for_destination (\<lambda>_. False) ''/tmp/copy.txt'' entries = Inr plan \<and>
     fp_extract_dir plan = ''/tmp'' \<and> validate_upload_plan entries plan = Inr ()"
proof -
  let ?e = "\<lparr>fe_path = ''/home/me/notes.txt'', fe_archive_name = ''notes.txt''\<rparr>"
  have e: "collect_results entry_for_path [''/home/me/notes.txt''] = Inr [?e]" by code_simp
  have p: "plan_for_destination (\<lambda>_. False) ''/tmp/copy.txt'' [?e] =
      Inr \<lparr>fp_extract_dir = ''/tmp'', fp_entries = [?e\<lparr>fe_archive_name := ''copy.txt''\<rparr>]\<rparr>" by code_simp
  show ?thesis using honest_plan_accepted [OF e p] e p by auto
qed

text \<open>C10. A plan the client accepts makes it send exactly the sources it asked to send, under
  names that are single path components: none can name a place outside the extraction directory.\<close>

theorem accepted_plan_safe:
  assumes "validate_upload_plan requested plan = Inr ()" "dir \<noteq> []"
  shows "map fe_path (fp_entries plan) = map fe_path requested \<and>
    (\<forall>e\<in>set (fp_entries plan). \<exists>c. components (join dir (fe_archive_name e)) = components dir @ [Normal c])"
  using assms by (auto simp: validate_upload_plan_ok list_all_iff intro: single_normal_join)

theorem accepted_plan_safe_witness:
  "\<exists>c. components (join ''/tmp'' ''copy.txt'') = components ''/tmp'' @ [Normal c]"
proof -
  let ?e = "\<lparr>fe_path = ''/a'', fe_archive_name = ''copy.txt''\<rparr>"
  have v: "validate_upload_plan [?e] \<lparr>fp_extract_dir = ''/tmp'', fp_entries = [?e]\<rparr> = Inr ()" by code_simp
  show ?thesis using accepted_plan_safe [OF v, of "''/tmp''"] by simp
qed

section \<open>Limited writers\<close>

text \<open>What \<open>AsyncWrite\<close> documents: a writer accepts at most the bytes it was offered.\<close>

definition honest_writer :: "'w poll_write \<Rightarrow> bool" where
  "honest_writer wr \<longleftrightarrow> (\<forall>w buf w' n. wr w buf = (w', Ready (Inr n)) \<longrightarrow> n \<le> length buf)"

text \<open>A sequence of writes, and the bytes accepted by them.\<close>

fun poll_writes :: "'w poll_write \<Rightarrow> 'w \<Rightarrow> byte list list \<Rightarrow> 'w \<times> nat" where
  "poll_writes wr w [] = (w, 0)"
| "poll_writes wr w (buf # bufs) =
     (case wr w buf of (w, r) \<Rightarrow>
        (case poll_writes wr w bufs of (w, n) \<Rightarrow>
           (w, n + (case r of Ready (Inr k) \<Rightarrow> k | _ \<Rightarrow> 0))))"

lemma limited_poll_write_step:
  assumes "honest_writer wr" "lw_written w \<le> lw_limit w" "limited_poll_write wr w buf = (w', r)"
  shows "lw_limit w' = lw_limit w \<and> lw_written w' \<le> lw_limit w \<and>
    unat (lw_written w') = unat (lw_written w) + (case r of Ready (Inr k) \<Rightarrow> k | _ \<Rightarrow> 0)"
proof (cases "lw_limit w \<le> lw_written w")
  case True
  with assms show ?thesis by (auto simp: limited_poll_write_def)
next
  case False
  define avail where "avail = min (unat (lw_limit w - lw_written w)) (length buf)"
  obtain i q where q: "wr (lw_inner w) (take avail buf) = (i, q)" by fastforce
  have st: "limited_poll_write wr w buf =
      (case q of
         Pending \<Rightarrow> (w\<lparr>lw_inner := i\<rparr>, Pending)
       | Ready (Inl e) \<Rightarrow> (w\<lparr>lw_inner := i\<rparr>, Ready (Inl e))
       | Ready (Inr n) \<Rightarrow> (w\<lparr>lw_inner := i, lw_written := lw_written w + word_of_nat n\<rparr>, Ready (Inr n)))"
    using False q by (simp add: limited_poll_write_def avail_def Let_def split: poll.split sum.split)
  show ?thesis
  proof (cases "\<exists>n. q = Ready (Inr n)")
    case True
    then obtain n where n: "q = Ready (Inr n)" by blast
    have "n \<le> avail" using assms(1) q n by (force simp: honest_writer_def avail_def)
    then have le: "unat (lw_written w) + n \<le> unat (lw_limit w)"
      using assms(2) by (auto simp: avail_def unat_sub word_le_nat_alt)
    then have "n < 2 ^ LENGTH(64)" "unat (lw_written w) + n < 2 ^ LENGTH(64)"
      using unat_lt2p [of "lw_limit w"] by simp_all
    then have "unat (lw_written w + word_of_nat n) = unat (lw_written w) + n"
      by (simp add: unat_word_ariths unat_of_nat)
    with st n le assms(3) show ?thesis by (auto simp: word_le_nat_alt)
  next
    case False
    with st assms(2,3) show ?thesis by (auto split: poll.splits sum.splits)
  qed
qed

lemma poll_writes_limited:
  assumes "honest_writer wr" "lw_written w \<le> lw_limit w"
    and "poll_writes (limited_poll_write wr) w bufs = (w', n)"
  shows "unat (lw_written w) + n \<le> unat (lw_limit w)"
  using assms(2,3)
proof (induction bufs arbitrary: w w' n)
  case (Cons buf bufs)
  obtain w1 r where s: "limited_poll_write wr w buf = (w1, r)" by fastforce
  obtain w2 k where p: "poll_writes (limited_poll_write wr) w1 bufs = (w2, k)" by fastforce
  from limited_poll_write_step [OF assms(1) Cons.prems(1) s] Cons.IH [OF _ p] Cons.prems(2) s p
  show ?case by auto
qed (simp add: word_le_nat_alt)

text \<open>The limited writer never passes on more bytes than its limit, over any sequence of
  writes, short writes and failures of the writer below it; its counter cannot wrap.\<close>

theorem limited_writer_bound:
  assumes "honest_writer wr" "poll_writes (limited_poll_write wr) (limited_new inner limit) bufs = (w, n)"
  shows "n \<le> unat limit"
  using poll_writes_limited [OF assms(1) _ assms(2)] by (simp add: limited_new_def)

theorem limited_writer_bound_witness:
  "snd (poll_writes (limited_poll_write (\<lambda>w buf. (w @ take 2 buf, Ready (Inr (min 2 (length buf))))))
     (limited_new [] 3) [[1, 2, 3], [4, 5], [6]]) \<le> 3"
proof -
  have h: "honest_writer (\<lambda>w buf. (w @ take 2 buf, Ready (Inr (min 2 (length buf)))))"
    by (auto simp: honest_writer_def)
  obtain w n where r: "poll_writes (limited_poll_write (\<lambda>w buf. (w @ take 2 buf, Ready (Inr (min 2 (length buf))))))
     (limited_new [] 3) [[1, 2, 3], [4, 5], [6]] = (w, n)" by fastforce
  show ?thesis using limited_writer_bound [OF h r] r by simp
qed

section \<open>Sizes of limits\<close>

text \<open>The byte limits are the exact sums wherever those fit into 64 bits, and the largest value
  otherwise; the wire limit always leaves room for the archive limit.\<close>

lemma archive_byte_limit_value:
  "unat (archive_byte_limit l) =
     min (unat (max_bytes l) + unat (max_entries l) * 1024 + 2 ^ 20) (2 ^ 64 - 1)"
  by (simp add: archive_byte_limit_def STREAM_BUFFER_def unat_sat_add unat_sat_mul)

lemma archive_le_wire: "archive_byte_limit l \<le> wire_byte_limit l"
  unfolding wire_byte_limit_def by (meson order_trans sat_add_ge1)

end
