(* ===== verification/CopyServer.thy ===== *)
theory CopyServer
  imports Filecopy Auth
begin

text \<open>
  \<open>hush-core/src/filecopy.rs\<close>, the server side: the upload and download handlers, directly and
  through a worker process that runs as the target user, the worker itself, and the frames between
  the two.

  What a handler writes to the peer's stream is a list of events.  \<open>wf\<close> says for each frame
  whether writing it fails (it may be too large, or the stream may be gone).  The operations on
  files are given by a record: \<open>receive\<close> and \<open>send\<close> stand for \<open>receive_archive_from\<close> and
  \<open>send_archive_to\<close> of the theory Filecopy with their libraries filled in; \<open>'f\<close> is the file system.
\<close>

section \<open>Streams and errors\<close>

datatype event = SetPriority int | Frame StreamResponse | Raw "byte list" | Finish

fun show_error :: "(io_error \<Rightarrow> string) \<Rightarrow> error \<Rightarrow> string" where
  "show_error io_text (Bail m) = m"
| "show_error io_text (Io e) = io_text e"
| "show_error io_text (Foreign m) = m"
| "show_error io_text (Ctx m e) = m @ '': '' @ show_error io_text e"

record 'f copy_ops =
  co_home :: "string \<Rightarrow> string"
  co_is_dir :: "'f \<Rightarrow> string \<Rightarrow> bool"
  co_stat :: "'f \<Rightarrow> string \<Rightarrow> io_error + unit"
  co_receive :: "byte list \<Rightarrow> string \<Rightarrow> FileCopyCompression \<Rightarrow> FileCopyLimits \<Rightarrow> 'f \<Rightarrow> 'f \<times> unit res"
  co_send :: "'f \<Rightarrow> FileCopyEntry list \<Rightarrow> FileCopyCompression \<Rightarrow> FileCopyLimits \<Rightarrow> byte list \<times> unit res"
  co_write_fails :: "StreamResponse \<Rightarrow> error option"
  co_io_text :: "io_error \<Rightarrow> string"

type_synonym 'f outcome = "event list \<times> 'f \<times> unit res"

definition write_response :: "'f copy_ops \<Rightarrow> StreamResponse \<Rightarrow> event list \<Rightarrow> event list \<times> unit res" where
  "write_response Ops r ev =
     (case co_write_fails Ops r of None \<Rightarrow> (ev @ [Frame r], Inr ()) | Some e \<Rightarrow> (ev, Inl e))"

definition write_copy_result :: "'f copy_ops \<Rightarrow> event list \<Rightarrow> 'f \<Rightarrow> unit res \<Rightarrow> 'f outcome" where
  "write_copy_result Ops ev fs result =
     (case write_response Ops
             (case result of Inr _ \<Rightarrow> RespOk | Inl e \<Rightarrow> RespError (show_error (co_io_text Ops) e)) ev of
        (ev, Inl e) \<Rightarrow> (ev, fs, Inl e)
      | (ev, Inr _) \<Rightarrow> (ev @ [Finish], fs, Inr ()))"

section \<open>Direct handlers\<close>

definition handle_upload_direct ::
  "'f copy_ops \<Rightarrow> event list \<Rightarrow> byte list \<Rightarrow> string \<Rightarrow> FileCopyRequest \<Rightarrow> FileCopyLimits \<Rightarrow> 'f \<Rightarrow> 'f outcome" where
  "handle_upload_direct Ops ev recv user request limits fs =
     (let destination = resolve_remote_path (co_home Ops user) (fr_destination request)
      in case plan_for_destination (co_is_dir Ops fs) destination (fr_entries request) of
           Inl e \<Rightarrow> write_copy_result Ops ev fs (Inl e)
         | Inr plan \<Rightarrow>
             (case write_response Ops (FileCopyReady plan) ev of
                (ev, Inl e) \<Rightarrow> (ev, fs, Inl e)
              | (ev, Inr _) \<Rightarrow>
                  (case co_receive Ops recv (fp_extract_dir plan) (fr_compression request) limits fs of
                     (fs, result) \<Rightarrow> write_copy_result Ops ev fs result)))"

text \<open>The loop of a download over its sources: their resolved paths, or the first that is missing.\<close>

fun resolve_sources ::
  "'f copy_ops \<Rightarrow> 'f \<Rightarrow> string \<Rightarrow> FileCopyEntry list \<Rightarrow> FileCopyEntry list res" where
  "resolve_sources Ops fs home [] = Inr []"
| "resolve_sources Ops fs home (entry # rest) =
     (let path = resolve_remote_path home (fe_path entry)
      in case co_stat Ops fs path of
           Inl e \<Rightarrow> Inl (Ctx (''stat source `'' @ path @ ''`'') (Io e))
         | Inr _ \<Rightarrow> and_then (resolve_sources Ops fs home rest) (\<lambda>entries.
                     Inr (entry\<lparr>fe_path := to_string_lossy path\<rparr> # entries)))"

definition handle_download_direct ::
  "'f copy_ops \<Rightarrow> event list \<Rightarrow> string \<Rightarrow> FileCopyRequest \<Rightarrow> FileCopyLimits \<Rightarrow> 'f \<Rightarrow> 'f outcome" where
  "handle_download_direct Ops ev user request limits fs =
     (case resolve_sources Ops fs (co_home Ops user) (fr_entries request) of
        Inl e \<Rightarrow> write_copy_result Ops ev fs (Inl e)
      | Inr entries \<Rightarrow>
          (case write_response Ops (FileCopyReady \<lparr>fp_extract_dir = [], fp_entries = entries\<rparr>) ev of
             (ev, Inl e) \<Rightarrow> (ev, fs, Inl e)
           | (ev, Inr _) \<Rightarrow>
               (case co_send Ops fs entries (fr_compression request) limits of
                  (bytes, result) \<Rightarrow>
                    (ev @ [Raw bytes] @ (if is_ok result then [Finish] else []), fs, result))))"

text \<open>Shutting the archive's writer down at the end of \<open>send_archive\<close> is what finishes the stream.\<close>

section \<open>The worker process\<close>

record WorkerRequest =
  wr_request :: FileCopyRequest
  wr_limits :: FileCopyLimits

datatype WorkerResponse = WReady FileCopyPlan | WComplete | WError string

text \<open>What the worker writes to its standard output.\<close>

datatype worker_out = WFrame WorkerResponse | WRaw "byte list"

definition write_worker_frame_bytes :: "byte list \<Rightarrow> byte list res" where
  "write_worker_frame_bytes bytes =
     (if WORKER_FRAME_LIMIT < length bytes then Inl (Bail ''file-copy worker frame is too large'')
      else Inr (u32_to_be_bytes (word_of_nat (length bytes)) @ bytes))"

definition write_worker_frame :: "('m \<Rightarrow> byte list res) \<Rightarrow> 'm \<Rightarrow> byte list res" where
  "write_worker_frame ser v =
     and_then (with_context ''serialize worker frame'' (ser v)) write_worker_frame_bytes"

definition read_worker_frame_bytes :: "error \<Rightarrow> byte list \<Rightarrow> (byte list \<times> byte list) res" where
  "read_worker_frame_bytes eof s =
     and_then (read_u32 eof s) (\<lambda>(w, s).
       if WORKER_FRAME_LIMIT < unat w then Inl (Bail ''file-copy worker frame is too large'')
       else read_exact eof (unat w) s)"

definition read_worker_frame :: "(byte list \<Rightarrow> 'm res) \<Rightarrow> error \<Rightarrow> byte list \<Rightarrow> ('m \<times> byte list) res" where
  "read_worker_frame des eof s =
     and_then (read_worker_frame_bytes eof s) (\<lambda>(buf, r).
       and_then (with_context ''deserialize worker frame'' (des buf)) (\<lambda>v. Inr (v, r)))"

text \<open>\<open>run_worker\<close> after it has read its request: the archive bytes that follow are \<open>input\<close>.
  \<open>wwf\<close> says whether a worker frame cannot be written.\<close>

definition emit_worker ::
  "(WorkerResponse \<Rightarrow> error option) \<Rightarrow> WorkerResponse \<Rightarrow> worker_out list \<Rightarrow> worker_out list \<times> unit res" where
  "emit_worker wwf r out = (case wwf r of None \<Rightarrow> (out @ [WFrame r], Inr ()) | Some e \<Rightarrow> (out, Inl e))"

definition run_worker ::
  "'f copy_ops \<Rightarrow> (WorkerResponse \<Rightarrow> error option) \<Rightarrow> string \<Rightarrow> WorkerRequest \<Rightarrow> byte list \<Rightarrow> 'f \<Rightarrow>
   worker_out list \<times> 'f \<times> unit res" where
  "run_worker Ops wwf user worker_request input fs =
     (let request = wr_request worker_request; limits = wr_limits worker_request;
          fail = (\<lambda>e fs out. case emit_worker wwf (WError (show_error (co_io_text Ops) e)) out of
                    (out, r) \<Rightarrow> (out, fs, r))
      in case fr_direction request of
           Upload \<Rightarrow>
             (let destination = resolve_remote_path (co_home Ops user) (fr_destination request)
              in case plan_for_destination (co_is_dir Ops fs) destination (fr_entries request) of
                   Inl e \<Rightarrow> fail e fs []
                 | Inr plan \<Rightarrow>
                     (case emit_worker wwf (WReady plan) [] of
                        (out, Inl e) \<Rightarrow> (out, fs, Inl e)
                      | (out, Inr _) \<Rightarrow>
                          (case co_receive Ops input (fp_extract_dir plan) (fr_compression request) limits fs of
                             (fs, Inr _) \<Rightarrow> (case emit_worker wwf WComplete out of (out, r) \<Rightarrow> (out, fs, r))
                           | (fs, Inl e) \<Rightarrow> fail e fs out)))
         | Download \<Rightarrow>
             (case resolve_sources Ops fs (co_home Ops user) (fr_entries request) of
                Inl e \<Rightarrow> fail e fs []
              | Inr entries \<Rightarrow>
                  (case emit_worker wwf (WReady \<lparr>fp_extract_dir = [], fp_entries = entries\<rparr>) [] of
                     (out, Inl e) \<Rightarrow> (out, fs, Inl e)
                   | (out, Inr _) \<Rightarrow>
                       (case co_send Ops fs entries (fr_compression request) limits of
                          (bytes, result) \<Rightarrow> (out @ [WRaw bytes], fs, result)))))"

section \<open>Handlers through a worker\<close>

text \<open>The worker as its parent sees it: whether it could be started, what reading each of its
  frames gives, the result of copying bytes to or from it, and the result of waiting for it.\<close>

record worker_view =
  wv_spawn :: "unit res"
  wv_first :: "WorkerResponse res"
  wv_shutdown :: "unit res"
  wv_copy_in :: "io_error + unit"
  wv_second :: "WorkerResponse res"
  wv_copy_out :: "byte list \<times> unit res"
  wv_wait :: "unit res"

definition handle_upload_worker ::
  "'f copy_ops \<Rightarrow> worker_view \<Rightarrow> event list \<Rightarrow> 'f \<Rightarrow> 'f outcome" where
  "handle_upload_worker Ops w ev fs =
     (case and_then (wv_spawn w) (\<lambda>_. wv_first w) of
        Inl e \<Rightarrow> (ev, fs, Inl e)
      | Inr (WError err) \<Rightarrow> write_copy_result Ops ev fs (Inl (Bail err))
      | Inr WComplete \<Rightarrow> (ev, fs, Inl (Bail ''file-copy worker completed before it was ready''))
      | Inr (WReady plan) \<Rightarrow>
          (case write_response Ops (FileCopyReady plan) ev of
             (ev, Inl e) \<Rightarrow> (ev, fs, Inl e)
           | (ev, Inr _) \<Rightarrow>
               (case wv_shutdown w of
                  Inl e \<Rightarrow> (ev, fs, Inl e)
                | Inr _ \<Rightarrow>
                    (case wv_copy_in w of
                       Inl e \<Rightarrow> write_copy_result Ops ev fs (Inl (Io e))
                     | Inr _ \<Rightarrow>
                         write_copy_result Ops ev fs
                           (case wv_second w of
                              Inr WComplete \<Rightarrow> wv_wait w
                            | Inr (WError err) \<Rightarrow> Inl (Bail err)
                            | Inr (WReady _) \<Rightarrow> Inl (Bail ''file-copy worker sent two plans'')
                            | Inl e \<Rightarrow> Inl e)))))"

definition handle_download_worker ::
  "'f copy_ops \<Rightarrow> worker_view \<Rightarrow> event list \<Rightarrow> 'f \<Rightarrow> 'f outcome" where
  "handle_download_worker Ops w ev fs =
     (case and_then (wv_spawn w) (\<lambda>_. and_then (wv_shutdown w) (\<lambda>_. wv_first w)) of
        Inl e \<Rightarrow> (ev, fs, Inl e)
      | Inr (WError err) \<Rightarrow> write_copy_result Ops ev fs (Inl (Bail err))
      | Inr WComplete \<Rightarrow> (ev, fs, Inl (Bail ''file-copy worker completed before it was ready''))
      | Inr (WReady plan) \<Rightarrow>
          (case write_response Ops (FileCopyReady plan) ev of
             (ev, Inl e) \<Rightarrow> (ev, fs, Inl e)
           | (ev, Inr _) \<Rightarrow>
               (case wv_copy_out w of (bytes, r) \<Rightarrow>
                  (case and_then r (\<lambda>_. wv_wait w) of
                     Inl e \<Rightarrow> (ev @ [Raw bytes], fs, Inl e)
                   | Inr _ \<Rightarrow> (ev @ [Raw bytes, Finish], fs, Inr ())))))"

text \<open>\<open>wait_worker\<close>, for the exit status of the child.\<close>

definition wait_worker :: "io_error + (bool \<times> string) \<Rightarrow> unit res" where
  "wait_worker status =
     and_then (with_context ''wait for file-copy worker'' (io_res status)) (\<lambda>(success, text).
       if \<not> success then Inl (Bail (''file-copy worker exited with '' @ text)) else Inr ())"

text \<open>The command of \<open>spawn_worker\<close>: program, arguments, the whole environment and the directory.\<close>

record worker_command =
  wc_args :: "string list"
  wc_env :: "(string \<times> string) list"
  wc_dir :: string

definition worker_command_for :: "string \<Rightarrow> string \<Rightarrow> bool \<Rightarrow> worker_command" where
  "worker_command_for user home home_is_dir =
     \<lparr>wc_args = [WORKER_ARG, user],
      wc_env = [(''HOME'', home), (''USER'', user), (''LOGNAME'', user), (''PATH'', ''/usr/bin:/bin:/usr/sbin:/sbin'')],
      wc_dir = (if home_is_dir then home else ''/'')\<rparr>"

section \<open>Handlers\<close>

definition handle_upload ::
  "'f copy_ops \<Rightarrow> bool \<Rightarrow> string \<Rightarrow> worker_view \<Rightarrow> 'f \<Rightarrow> byte list \<Rightarrow> string \<Rightarrow> FileCopyRequest \<Rightarrow> FileCopyLimits \<Rightarrow>
   'f \<Rightarrow> 'f outcome" where
  "handle_upload Ops is_root current w worker_fs recv user request limits fs =
     (let ev = [SetPriority (priority_value PrioFileCopy)]
      in if unat (max_entries limits) < length (fr_entries request)
         then write_copy_result Ops ev fs (Inl (Bail ''file copy exceeds the entry limit''))
         else if needs_privileged_worker is_root current user
         then handle_upload_worker Ops w ev worker_fs
         else handle_upload_direct Ops ev recv user request limits fs)"

definition handle_download ::
  "'f copy_ops \<Rightarrow> bool \<Rightarrow> string \<Rightarrow> worker_view \<Rightarrow> 'f \<Rightarrow> string \<Rightarrow> FileCopyRequest \<Rightarrow> FileCopyLimits \<Rightarrow>
   'f \<Rightarrow> 'f outcome" where
  "handle_download Ops is_root current w worker_fs user request limits fs =
     (let ev = [SetPriority (priority_value PrioFileCopy)]
      in if unat (max_entries limits) < length (fr_entries request)
         then write_copy_result Ops ev fs (Inl (Bail ''file copy exceeds the entry limit''))
         else if needs_privileged_worker is_root current user
         then handle_download_worker Ops w ev worker_fs
         else handle_download_direct Ops ev user request limits fs)"

section \<open>Facts\<close>

lemma worker_frame_codec:
  "codec (\<lambda>b. length b \<le> WORKER_FRAME_LIMIT) write_worker_frame_bytes (read_worker_frame_bytes eof)"
proof
  fix x :: "byte list"
  assume "length x \<le> WORKER_FRAME_LIMIT"
  then show "\<exists>e. write_worker_frame_bytes x = Inr e \<and>
      (\<forall>r. read_worker_frame_bytes eof (e @ r) = Inr (x, r))"
    by (auto simp: write_worker_frame_bytes_def read_worker_frame_bytes_def unat_length_u32
        WORKER_FRAME_LIMIT_def)
next
  fix s x r
  assume "read_worker_frame_bytes eof s = Inr (x, r)"
  then obtain w where w: "s = u32_to_be_bytes w @ x @ r" "unat w \<le> WORKER_FRAME_LIMIT" "length x = unat w"
    by (auto simp: read_worker_frame_bytes_def and_then_eq_Inr read_u32_Inr read_exact_Inr
        split: if_splits)
  then have "word_of_nat (length x) = w" by simp
  with w show "length x \<le> WORKER_FRAME_LIMIT \<and>
      (\<exists>e. write_worker_frame_bytes x = Inr e \<and> s = e @ r)"
    by (simp add: write_worker_frame_bytes_def)
qed

interpretation wk: codec "\<lambda>b. length b \<le> WORKER_FRAME_LIMIT" write_worker_frame_bytes
  "read_worker_frame_bytes eof" for eof by (rule worker_frame_codec)

text \<open>The parent's view of a worker that runs to its end on the same request, when its frames and
  the copies between the processes go through.\<close>

definition view_of ::
  "worker_out list \<times> 'f \<times> unit res \<Rightarrow> worker_view" where
  "view_of run =
     (case run of (out, _, r) \<Rightarrow>
        \<lparr>wv_spawn = Inr (),
         wv_first = (case out of WFrame f # _ \<Rightarrow> Inr f | _ \<Rightarrow> Inl io_eof),
         wv_shutdown = Inr (), wv_copy_in = Inr (),
         wv_second = (case out of _ # WFrame f # _ \<Rightarrow> Inr f | _ \<Rightarrow> Inl io_eof),
         wv_copy_out = (case out of _ # WRaw b # _ \<Rightarrow> (b, Inr ()) | _ \<Rightarrow> ([], Inr ())),
         wv_wait = (case r of Inr _ \<Rightarrow> Inr () | Inl _ \<Rightarrow> Inl (Bail ''file-copy worker exited with 1''))\<rparr>)"

lemma io_text_roundtrip: "show_error t (Bail (show_error t e)) = show_error t e"
  by simp

lemma write_copy_result_text:
  "write_copy_result Ops ev fs (Inl (Bail (show_error (co_io_text Ops) e))) = write_copy_result Ops ev fs (Inl e)"
  by (simp add: write_copy_result_def)

section \<open>Properties\<close>


definition example_ops :: "nat copy_ops" where
  "example_ops =
     \<lparr>co_home = (\<lambda>u. ''/home/'' @ u), co_is_dir = (\<lambda>_ _. False), co_stat = (\<lambda>_ _. Inr ()),
      co_receive = (\<lambda>recv _ _ _ fs. (fs + length recv, Inr ())),
      co_send = (\<lambda>_ _ _ _. ([1, 2], Inr ())), co_write_fails = (\<lambda>_. None), co_io_text = (\<lambda>_. ''I/O error'')\<rparr>"

definition example_request :: "FileCopyDirection \<Rightarrow> FileCopyRequest" where
  "example_request d = \<lparr>fr_direction = d, fr_entries = [\<lparr>fe_path = ''a.txt'', fe_archive_name = ''a.txt''\<rparr>],
     fr_destination = ''b.txt'', fr_compression = Zstd\<rparr>"


text \<open>A download through the privileged worker sends the peer what the direct download sends,
  and succeeds exactly when that does.\<close>

theorem worker_download_refines_direct:
  assumes "fr_direction request = Download" "\<And>r. wwf r = None" "\<And>r. co_write_fails Ops r = None"
    and "handle_download_worker Ops
      (view_of (run_worker Ops wwf user \<lparr>wr_request = request, wr_limits = limits\<rparr> recv fs)) ev fs = (ev1, fs1, r1)"
    and "handle_download_direct Ops ev user request limits fs = (ev2, fs2, r2)"
  shows "ev1 = ev2 \<and> fs1 = fs2 \<and> (is_ok r1 \<longleftrightarrow> is_ok r2)"
proof (cases "resolve_sources Ops fs (co_home Ops user) (fr_entries request)")
  case (Inl e)
  with assms show ?thesis
    by (auto simp: run_worker_def emit_worker_def handle_download_worker_def view_of_def
        handle_download_direct_def write_copy_result_text)
next
  case (Inr entries)
  obtain b r where "co_send Ops fs entries (fr_compression request) limits = (b, r)" by fastforce
  with Inr assms show ?thesis
    by (cases r) (auto simp: run_worker_def emit_worker_def handle_download_worker_def view_of_def
        handle_download_direct_def write_response_def)
qed

theorem worker_download_refines_direct_witness:
  "fst (handle_download_worker example_ops
      (view_of (run_worker example_ops (\<lambda>_. None) ''me''
         \<lparr>wr_request = example_request Download, wr_limits = default_file_copy_limits\<rparr> [] 0)) [] 0) =
   fst (handle_download_direct example_ops [] ''me'' (example_request Download) default_file_copy_limits 0)"
proof -
  obtain ev1 fs1 r1 where 1: "handle_download_worker example_ops
      (view_of (run_worker example_ops (\<lambda>_. None) ''me''
         \<lparr>wr_request = example_request Download, wr_limits = default_file_copy_limits\<rparr> [] 0)) [] 0 = (ev1, fs1, r1)"
    by (metis prod_cases3)
  obtain ev2 fs2 r2 where 2: "handle_download_direct example_ops [] ''me'' (example_request Download)
      default_file_copy_limits 0 = (ev2, fs2, r2)" by (metis prod_cases3)
  show ?thesis
    using worker_download_refines_direct [OF _ _ _ 1 2] 1 2
    by (simp add: example_request_def example_ops_def)
qed

text \<open>An upload the server can answer ends in exactly one verdict: the peer gets a refusal, or
  a plan followed by success or failure, and then the end of the stream; success is reported only
  when the whole archive was extracted.\<close>

theorem upload_transcript:
  assumes "\<And>r. co_write_fails Ops r = None"
    and "handle_upload_direct Ops [] recv user request limits fs = (ev, fs', r)"
  shows "r = Inr () \<and>
    ((\<exists>m. ev = [Frame (RespError m), Finish] \<and> fs' = fs) \<or>
     (\<exists>plan q. plan_for_destination (co_is_dir Ops fs)
          (resolve_remote_path (co_home Ops user) (fr_destination request)) (fr_entries request) = Inr plan \<and>
        co_receive Ops recv (fp_extract_dir plan) (fr_compression request) limits fs = (fs', q) \<and>
        ev = [Frame (FileCopyReady plan),
              Frame (case q of Inr _ \<Rightarrow> RespOk | Inl e \<Rightarrow> RespError (show_error (co_io_text Ops) e)), Finish]))"
proof (cases "plan_for_destination (co_is_dir Ops fs)
    (resolve_remote_path (co_home Ops user) (fr_destination request)) (fr_entries request)")
  case (Inl e)
  with assms show ?thesis
    by (auto simp: handle_upload_direct_def write_copy_result_def write_response_def)
next
  case (Inr plan)
  obtain fs1 q where q: "co_receive Ops recv (fp_extract_dir plan) (fr_compression request) limits fs = (fs1, q)"
    by fastforce
  with Inr assms show ?thesis
    by (auto simp: handle_upload_direct_def write_copy_result_def write_response_def Let_def)
qed

theorem upload_transcript_witness:
  "\<exists>ev fs r. handle_upload_direct example_ops [] [7, 8] ''me'' (example_request Upload) default_file_copy_limits 0 =
     (ev, fs, r) \<and> r = Inr ()"
proof -
  obtain ev fs r where u: "handle_upload_direct example_ops [] [7, 8] ''me'' (example_request Upload)
      default_file_copy_limits 0 = (ev, fs, r)" by (metis prod_cases3)
  have "r = Inr ()" using upload_transcript [OF _ u] by (simp add: example_ops_def)
  with u show ?thesis by blast
qed

text \<open>What the parent and the worker say to each other survives the pipe: a request or response
  written as a worker frame is read back unchanged, and the archive bytes that follow it are left
  for the next reader.\<close>

theorem worker_frame_roundtrip:
  assumes "serde_inverse ser des" "write_worker_frame ser v = Inr bytes"
  shows "read_worker_frame des eof (bytes @ rest) = Inr (v, rest)"
proof -
  from assms(2) obtain b where b: "ser v = Inr b" "write_worker_frame_bytes b = Inr bytes"
    by (auto simp: write_worker_frame_def and_then_eq_Inr)
  then have "length b \<le> WORKER_FRAME_LIMIT" by (auto simp: write_worker_frame_bytes_def split: if_splits)
  from wk.roundtrip [OF this b(2)] assms(1) b(1) show ?thesis
    by (simp add: read_worker_frame_def serde_inverse_def)
qed

theorem worker_frame_roundtrip_witness:
  "read_worker_frame example_des io_eof ([0, 0, 0, 1, 1] @ [9, 9]) = Inr (True, [9, 9])"
proof -
  have w: "write_worker_frame example_ser True = Inr [0, 0, 0, 1, 1]" by code_simp
  show ?thesis by (rule worker_frame_roundtrip [OF example_serde w])
qed

end
