(* ===== verification/Server.thy ===== *)
theory Server
  imports ServerSession CopyServer
begin

text \<open>
  \<open>hush-core/src/server.rs\<close>: the life of a connection on the server, from the certificate the peer
  presented to the streams it opens.

  A connection is given by the identity of the peer and the streams it opens in order; after the last
  the connection is closed.  Each stream carries what is outside the program when it is served: its
  header, whether a response can be written, the bytes that follow, the file copy worker, the script of
  a session.  The state collects what the server does.
\<close>

section \<open>Peers\<close>

definition AUTH_FAILURE_MESSAGE :: string where "AUTH_FAILURE_MESSAGE = ''unauthorized''"

datatype peer = NoIdentity | OtherIdentity | Certificates "byte list list"

text \<open>The libraries and files that authentication reads.\<close>

record 'p login_env =
  le_lib :: "'p ssh_lib"
  le_parse_cert :: "byte list \<Rightarrow> certificate res"
  le_home_for_user :: "string \<Rightarrow> string option res"
  le_open_file :: "string \<Rightarrow> io_error + (io_error + byte list)"

definition peer_identity :: "'p login_env \<Rightarrow> peer \<Rightarrow> ('p \<times> string) res" where
  "peer_identity A ident =
     (case ident of
        NoIdentity \<Rightarrow> Inl (Bail ''client did not present a certificate'')
      | OtherIdentity \<Rightarrow> Inl (Bail ''unexpected peer identity type'')
      | Certificates [] \<Rightarrow> Inl (Bail ''client certificate chain is empty'')
      | Certificates (cert # _) \<Rightarrow>
          and_then (public_key_from_cert_der (le_lib A) (le_parse_cert A) cert) (\<lambda>key.
          and_then (username_from_cert_der (le_parse_cert A) cert) (\<lambda>user. Inr (key, user))))"

section \<open>Connections\<close>

record 'f stream =
  sr_header :: "StreamOpen res"
  sr_write :: "StreamResponse \<Rightarrow> error option"
  sr_finish :: "unit res"
  sr_recv :: "byte list"
  sr_worker :: worker_view
  sr_worker_fs :: 'f
  sr_script :: script
  sr_bind :: "socket_addr \<Rightarrow> io_error option"

datatype server_event =
    ConnClosed nat string
  | Prioritised StreamPriority
  | SwitchedToBulk
  | Respond StreamResponse
  | Listening socket_addr u64
  | CopyRan string FileCopyDirection "event list" "unit res"
  | SessionRan string "session_event list"

record ('k, 'f) server_state =
  sv_kernel :: 'k
  sv_fs :: 'f
  sv_forwards :: nat
  sv_listeners :: "(socket_addr \<times> u64) list"
  sv_events :: "server_event list"

record ('k, 'f) server_env =
  se_kernel :: "'k kernel"
  se_machine :: machine
  se_copy :: "'f copy_ops"
  se_closed :: error

definition log :: "server_event \<Rightarrow> ('k, 'f) server_state \<Rightarrow> ('k, 'f) server_state" where
  "log e st = st\<lparr>sv_events := sv_events st @ [e]\<rparr>"

record ('p, 's) PendingConnection =
  pc_peer_key :: 'p
  pc_claimed_user :: string
  pc_config :: "'s ServerRuntimeConfig"
  pc_server_addr :: socket_addr

record 's AuthenticatedConnection =
  ac_user :: string
  ac_config :: "'s ServerRuntimeConfig"
  ac_server_addr :: socket_addr

definition pending_new ::
  "'p login_env \<Rightarrow> peer \<Rightarrow> 's ServerRuntimeConfig \<Rightarrow> socket_addr \<Rightarrow> (('k, 'f) server_state, ('p, 's) PendingConnection) os" where
  "pending_new A ident config server_addr st =
     (case peer_identity A ident of
        Inl err \<Rightarrow> (log (ConnClosed 0 AUTH_FAILURE_MESSAGE) st, Inl err)
      | Inr (peer_key, claimed_user) \<Rightarrow>
          (st, Inr \<lparr>pc_peer_key = peer_key, pc_claimed_user = claimed_user, pc_config = config,
                    pc_server_addr = server_addr\<rparr>))"

definition check_authorization ::
  "'p login_env \<Rightarrow> machine \<Rightarrow> ('p, 's) PendingConnection \<Rightarrow> string \<Rightarrow> unit res" where
  "check_authorization A M pc user =
     (if allow_users (pc_config pc) \<noteq> [] \<and> \<not> list_ex (\<lambda>allowed. allowed = user) (allow_users (pc_config pc))
      then Inl (Bail ''user is not allowed by server config'')
      else if \<not> can_login_as (m_is_root M) (m_current_username M) user
      then Inl (Bail (''server is not root and requested user differs from '' @ m_current_username M))
      else case is_authorized (le_lib A) (le_home_for_user A) (le_open_file A) user (pc_peer_key pc)
                  (authorized_keys_path (pc_config pc)) of
             Inr True \<Rightarrow> Inr ()
           | Inr False \<Rightarrow> Inl (Bail ''public key is not authorized'')
           | Inl err \<Rightarrow> Inl err)"

definition authenticate ::
  "'p login_env \<Rightarrow> machine \<Rightarrow> ('p, 's) PendingConnection \<Rightarrow> (('k, 'f) server_state, 's AuthenticatedConnection) os" where
  "authenticate A M pc st =
     (case check_authorization A M pc (pc_claimed_user pc) of
        Inl reason \<Rightarrow> (log (ConnClosed 0 AUTH_FAILURE_MESSAGE) st, Inl (Bail AUTH_FAILURE_MESSAGE))
      | Inr _ \<Rightarrow>
          (st, Inr \<lparr>ac_user = pc_claimed_user pc, ac_config = pc_config pc, ac_server_addr = pc_server_addr pc\<rparr>))"

section \<open>Serving streams\<close>

text \<open>\<open>write_frame(...)?\<close> followed by \<open>finish()?\<close>.\<close>

definition respond_and_finish :: "'f stream \<Rightarrow> StreamResponse \<Rightarrow> (('k, 'f) server_state, unit) os" where
  "respond_and_finish stream r st =
     (case sr_write stream r of
        Some e \<Rightarrow> (st, Inl e)
      | None \<Rightarrow> (log (Respond r) st, sr_finish stream))"

definition send_response_error :: "'f stream \<Rightarrow> string \<Rightarrow> ('k, 'f) server_state \<Rightarrow> ('k, 'f) server_state" where
  "send_response_error stream msg st =
     (case sr_write stream (RespError msg) of Some _ \<Rightarrow> st | None \<Rightarrow> log (Respond (RespError msg)) st)"

definition forward_listen_ip :: "string \<Rightarrow> ip_addr option" where
  "forward_listen_ip host =
     (if host = ''localhost'' then Some LOCALHOST
      else case parse_ip_addr host of Some ip \<Rightarrow> if is_loopback ip then Some ip else None | None \<Rightarrow> None)"

definition open_remote_forward ::
  "machine \<Rightarrow> 's AuthenticatedConnection \<Rightarrow> 'f stream \<Rightarrow> RemoteForwardRequest \<Rightarrow> (('k, 'f) server_state, unit) os" where
  "open_remote_forward M ac stream request st0 =
     (let st = log (Prioritised PrioForward) st0 in
      if \<not> allow_tcp_forwarding (ac_config ac)
      then respond_and_finish stream (RespError ''TCP forwarding is disabled'') st
      else if max_forwards_per_connection (ac_config ac) \<le> sv_forwards st
      then respond_and_finish stream (RespError ''remote forward limit reached'') st
      else case forward_listen_ip (rf_listen_host request) of
        None \<Rightarrow> (send_response_error stream ''remote forwards must listen on a loopback address'' st, Inr ())
      | Some listen_ip \<Rightarrow>
          if rf_listen_port request \<noteq> 0 \<and> rf_listen_port request < 1024
             \<and> m_is_root M \<and> ac_user ac \<noteq> m_current_username M
          then (send_response_error stream ''remote forwards may not use privileged ports'' st, Inr ())
          else let addr = SocketAddr listen_ip (rf_listen_port request)
               in case sr_bind stream addr of
                    Some _ \<Rightarrow> (send_response_error stream ''remote forward bind failed'' st, Inr ())
                  | None \<Rightarrow>
                      respond_and_finish stream RespOk
                        (log (Listening addr (rf_forward_id request))
                          (st\<lparr>sv_forwards := sv_forwards st + 1,
                              sv_listeners := sv_listeners st @ [(addr, rf_forward_id request)]\<rparr>)))"

definition serve_session ::
  "('k, 'f) server_env \<Rightarrow> 's AuthenticatedConnection \<Rightarrow> 'f stream \<Rightarrow> OpenSession \<Rightarrow> ('k, 'f) server_state
     \<Rightarrow> ('k, 'f) server_state \<times> unit res option" where
  "serve_session E ac stream request st =
     (case run_server_session (se_kernel E) (se_machine E) (sr_script stream) (ac_config ac) (ac_server_addr ac)
             (ac_user ac) request \<lparr>ss_kernel = sv_kernel st, ss_events = []\<rparr> of
        (s, r) \<Rightarrow>
          (log (SessionRan (ac_user ac) (ss_events s)) (st\<lparr>sv_kernel := ss_kernel s\<rparr>),
           if r = Inr None then None else Some (Inr ())))"

definition serve_copy ::
  "('k, 'f) server_env \<Rightarrow> 's AuthenticatedConnection \<Rightarrow> 'f stream \<Rightarrow> FileCopyRequest \<Rightarrow> ('k, 'f) server_state
     \<Rightarrow> ('k, 'f) server_state" where
  "serve_copy E ac stream request st =
     (let M = se_machine E; Ops = (se_copy E)\<lparr>co_write_fails := sr_write stream\<rparr>;
          limits = file_copy_limits (ac_config ac)
      in case (case fr_direction request of
                 Upload \<Rightarrow>
                   handle_upload Ops (m_is_root M) (m_current_username M) (sr_worker stream) (sr_worker_fs stream)
                     (sr_recv stream) (ac_user ac) request limits (sv_fs st)
               | Download \<Rightarrow>
                   handle_download Ops (m_is_root M) (m_current_username M) (sr_worker stream) (sr_worker_fs stream)
                     (ac_user ac) request limits (sv_fs st)) of
           (evs, fs, result) \<Rightarrow>
             log (CopyRan (ac_user ac) (fr_direction request) evs result)
               (log SwitchedToBulk (log (Prioritised PrioFileCopy) (st\<lparr>sv_fs := fs\<rparr>))))"

text \<open>The loop of \<open>serve\<close>; the result is None while a session of the connection still runs.\<close>

fun serve_streams ::
  "('k, 'f) server_env \<Rightarrow> 's AuthenticatedConnection \<Rightarrow> 'f stream list \<Rightarrow> ('k, 'f) server_state
     \<Rightarrow> ('k, 'f) server_state \<times> unit res option" where
  "serve_streams E ac [] st = (st, Some (Inl (se_closed E)))"
| "serve_streams E ac (stream # rest) st =
     (case sr_header stream of
        Inl e \<Rightarrow> (st, Some (Inl e))
      | Inr (OpenRemoteForward request) \<Rightarrow>
          (case open_remote_forward (se_machine E) ac stream request st of
             (st, Inl e) \<Rightarrow> (st, Some (Inl e))
           | (st, Inr _) \<Rightarrow> serve_streams E ac rest st)
      | Inr (Session request) \<Rightarrow>
          let st = log (Prioritised PrioShell) st in
          if max_sessions_per_connection (ac_config ac) = 0
          then serve_streams E ac rest (send_response_error stream ''session limit reached'' st)
          else serve_session E ac stream request st
      | Inr (FileCopy request) \<Rightarrow> serve_streams E ac rest (serve_copy E ac stream request st)
      | Inr _ \<Rightarrow> serve_streams E ac rest st)"

text \<open>However the loop ends, dropping the tasks of the remote forwards aborts them, which closes their
  listeners.\<close>

definition serve ::
  "('k, 'f) server_env \<Rightarrow> 's AuthenticatedConnection \<Rightarrow> 'f stream list \<Rightarrow> ('k, 'f) server_state
     \<Rightarrow> ('k, 'f) server_state \<times> unit res option" where
  "serve E ac streams st =
     (case serve_streams E ac streams (st\<lparr>sv_forwards := 0, sv_listeners := []\<rparr>) of
        (st, None) \<Rightarrow> (st, None)
      | (st, Some r) \<Rightarrow> (st\<lparr>sv_listeners := []\<rparr>, Some r))"

definition serve_connection ::
  "('k, 'f) server_env \<Rightarrow> 'p login_env \<Rightarrow> 's ServerRuntimeConfig \<Rightarrow> socket_addr \<Rightarrow> peer \<Rightarrow> 'f stream list
     \<Rightarrow> ('k, 'f) server_state \<Rightarrow> ('k, 'f) server_state \<times> unit res option" where
  "serve_connection E A config server_addr ident streams st =
     (case os_bind (pending_new A ident config server_addr) (authenticate A (se_machine E)) st of
        (st, Inl e) \<Rightarrow> (st, Some (Inl e))
      | (st, Inr ac) \<Rightarrow> serve E ac streams st)"

section \<open>Following a peer\<close>

text \<open>The sockets a connection of a peer holds: for each of its addresses in turn, with the local
  address of the connection at that time, the guard of its socket, if one could be adopted.\<close>

definition adopt :: "ip_addr option \<Rightarrow> socket_addr \<Rightarrow> io_error + socket_addr" where
  "adopt local_ip peer =
     (case local_ip of None \<Rightarrow> Inl (IoError AddrNotAvailable None) | Some _ \<Rightarrow> Inr peer)"

definition follow_peer :: "(ip_addr option \<times> socket_addr) list \<Rightarrow> socket_addr option list" where
  "follow_peer peers = map (\<lambda>(local_ip, peer). case adopt local_ip peer of Inl _ \<Rightarrow> None | Inr g \<Rightarrow> Some g) peers"

section \<open>Facts\<close>

lemma peer_identity_Inr:
  "peer_identity A ident = Inr (key, user) \<longleftrightarrow>
     (\<exists>cert certs. ident = Certificates (cert # certs) \<and>
        public_key_from_cert_der (le_lib A) (le_parse_cert A) cert = Inr key \<and>
        username_from_cert_der (le_parse_cert A) cert = Inr user)"
  by (auto simp: peer_identity_def and_then_eq_Inr split: peer.splits list.splits)

lemma check_authorization_Inr:
  "check_authorization A M pc user = Inr () \<longleftrightarrow>
     (allow_users (pc_config pc) = [] \<or> user \<in> set (allow_users (pc_config pc))) \<and>
     (m_is_root M \<or> user = m_current_username M) \<and>
     is_authorized (le_lib A) (le_home_for_user A) (le_open_file A) user (pc_peer_key pc)
       (authorized_keys_path (pc_config pc)) = Inr True"
  by (auto simp: check_authorization_def can_login_as_def list_ex_iff split: sum.splits bool.splits)

lemma forward_listen_ip_loopback: "forward_listen_ip host = Some ip \<Longrightarrow> is_loopback ip"
  by (auto simp: forward_listen_ip_def split: if_splits option.splits)

text \<open>What may be done for an authenticated connection.\<close>

fun permitted :: "machine \<Rightarrow> 's AuthenticatedConnection \<Rightarrow> server_event \<Rightarrow> bool" where
  "permitted M ac (Listening addr fid) \<longleftrightarrow>
     allow_tcp_forwarding (ac_config ac) \<and> is_loopback (sa_ip addr) \<and>
     (root_switch M (ac_user ac) \<longrightarrow> sa_port addr = 0 \<or> 1024 \<le> sa_port addr)"
| "permitted M ac (CopyRan user d evs r) \<longleftrightarrow> user = ac_user ac"
| "permitted M ac (SessionRan user evs) \<longleftrightarrow> user = ac_user ac \<and> max_sessions_per_connection (ac_config ac) \<noteq> 0"
| "permitted M ac (ConnClosed c m) \<longleftrightarrow> False"
| "permitted M ac _ \<longleftrightarrow> True"

fun listening :: "server_event \<Rightarrow> (socket_addr \<times> u64) option" where
  "listening (Listening addr fid) = Some (addr, fid)"
| "listening _ = None"

text \<open>The step from one state to another adds permitted events, and keeps the count and the list of
  the listeners it opens.\<close>

definition adds ::
  "machine \<Rightarrow> 's AuthenticatedConnection \<Rightarrow> ('k, 'f) server_state \<Rightarrow> ('k, 'f) server_state \<Rightarrow> server_event list \<Rightarrow> bool" where
  "adds M ac st st' evs \<longleftrightarrow>
     sv_events st' = sv_events st @ evs \<and> list_all (permitted M ac) evs \<and>
     sv_listeners st' = sv_listeners st @ List.map_filter listening evs \<and>
     sv_forwards st' = sv_forwards st + length (List.map_filter listening evs) \<and>
     sv_forwards st' \<le> max (sv_forwards st) (max_forwards_per_connection (ac_config ac))"

lemma adds_refl: "adds M ac st st []"
  by (simp add: adds_def List.map_filter_def)

lemma map_filter_append: "List.map_filter f (xs @ ys) = List.map_filter f xs @ List.map_filter f ys"
  by (simp add: List.map_filter_def)

lemma adds_trans: "adds M ac st st' evs \<Longrightarrow> adds M ac st' st'' evs' \<Longrightarrow> adds M ac st st'' (evs @ evs')"
  by (auto simp: adds_def map_filter_append)

lemma adds_log: "permitted M ac e \<Longrightarrow> listening e = None \<Longrightarrow> adds M ac st (log e st) [e]"
  by (simp add: adds_def log_def List.map_filter_def)

definition adds_quiet :: "machine \<Rightarrow> 's AuthenticatedConnection \<Rightarrow> ('k, 'f) server_state \<Rightarrow> ('k, 'f) server_state \<Rightarrow> bool" where
  "adds_quiet M ac st st' \<longleftrightarrow> (\<exists>evs. adds M ac st st' evs \<and> (\<forall>u es. SessionRan u es \<notin> set evs))"

lemma adds_quiet_refl [simp]: "adds_quiet M ac st st"
  unfolding adds_quiet_def by (intro exI[of _ "[]"]) (simp add: adds_refl)

lemma adds_quiet_trans: "adds_quiet M ac st st' \<Longrightarrow> adds_quiet M ac st' st'' \<Longrightarrow> adds_quiet M ac st st''"
  unfolding adds_quiet_def by (metis UnE adds_trans set_append)

lemma adds_quiet_log: "permitted M ac e \<Longrightarrow> listening e = None \<Longrightarrow> \<forall>u es. e \<noteq> SessionRan u es \<Longrightarrow> adds_quiet M ac st (log e st)"
  unfolding adds_quiet_def by (intro exI[of _ "[e]"]) (auto simp: adds_log)

lemma send_response_error_adds: "adds_quiet M ac st (send_response_error stream msg st)"
  by (simp add: send_response_error_def adds_quiet_log split: option.splits)

lemma respond_and_finish_adds: "adds_quiet M ac st (fst (respond_and_finish stream r st))"
  by (simp add: respond_and_finish_def adds_quiet_log split: option.splits)

lemma listening_adds:
  assumes "allow_tcp_forwarding (ac_config ac)" "\<not> max_forwards_per_connection (ac_config ac) \<le> sv_forwards st"
    "is_loopback ip" "\<not> (port \<noteq> 0 \<and> port < 1024 \<and> m_is_root M \<and> ac_user ac \<noteq> m_current_username M)"
  shows "adds_quiet M ac st (log (Listening (SocketAddr ip port) fid)
           (st\<lparr>sv_forwards := sv_forwards st + 1, sv_listeners := sv_listeners st @ [(SocketAddr ip port, fid)]\<rparr>))"
  unfolding adds_quiet_def using assms
  by (intro exI[of _ "[Listening (SocketAddr ip port) fid]"])
    (auto simp: adds_def log_def List.map_filter_def root_switch_def)

lemma open_remote_forward_adds: "adds_quiet M ac st (fst (open_remote_forward M ac stream request st))"
proof -
  let ?st = "log (Prioritised PrioForward) st"
  have first: "adds_quiet M ac st ?st"
    by (rule adds_quiet_log) simp_all
  have listen: "adds_quiet M ac ?st (fst (respond_and_finish stream RespOk (log (Listening (SocketAddr ip port) fid)
           (?st\<lparr>sv_forwards := sv_forwards ?st + 1, sv_listeners := sv_listeners ?st @ [(SocketAddr ip port, fid)]\<rparr>))))"
    if "allow_tcp_forwarding (ac_config ac)" "\<not> max_forwards_per_connection (ac_config ac) \<le> sv_forwards ?st"
      "forward_listen_ip host = Some ip"
      "\<not> (port \<noteq> 0 \<and> port < 1024 \<and> m_is_root M \<and> ac_user ac \<noteq> m_current_username M)" for ip host port fid
    using listening_adds[OF that(1,2) forward_listen_ip_loopback[OF that(3)] that(4)] respond_and_finish_adds
    by (rule adds_quiet_trans)
  have "adds_quiet M ac ?st (fst (open_remote_forward M ac stream request st))"
    using listen[of "rf_listen_host request" _ "rf_listen_port request" "rf_forward_id request"]
    unfolding open_remote_forward_def Let_def
    by (cases "forward_listen_ip (rf_listen_host request)")
      (simp_all add: respond_and_finish_adds send_response_error_adds split: option.split)
  with first show ?thesis
    by (rule adds_quiet_trans)
qed


lemma serve_copy_adds: "adds_quiet M ac st (serve_copy E ac stream request st)"
proof -
  have fs: "adds_quiet M ac st (st\<lparr>sv_fs := fs\<rparr>)" for fs
    unfolding adds_quiet_def by (intro exI[of _ "[]"]) (simp add: adds_def List.map_filter_def)
  have "adds_quiet M ac st (log (CopyRan (ac_user ac) d evs r)
          (log SwitchedToBulk (log (Prioritised PrioFileCopy) (st\<lparr>sv_fs := fs\<rparr>))))" for d evs r fs
    by (rule adds_quiet_trans[OF adds_quiet_trans[OF adds_quiet_trans[OF fs adds_quiet_log] adds_quiet_log] adds_quiet_log])
      simp_all
  then show ?thesis
    by (simp add: serve_copy_def Let_def split: prod.split)
qed

text \<open>The loop adds permitted events, and a session only at the very end.\<close>

definition session_last :: "server_event list \<Rightarrow> bool" where
  "session_last evs \<longleftrightarrow> (\<forall>e \<in> set (butlast evs). \<forall>u es. e \<noteq> SessionRan u es)"

lemma adds_session_last:
  assumes "adds_quiet M ac st st'" "adds M ac st' st'' evs" "session_last evs"
  shows "\<exists>evs. adds M ac st st'' evs \<and> session_last evs"
proof -
  obtain es where "adds M ac st st' es" "\<forall>u x. SessionRan u x \<notin> set es"
    using assms(1) unfolding adds_quiet_def by blast
  with assms(2,3) show ?thesis
    by (intro exI[of _ "es @ evs"]) (auto simp: session_last_def butlast_append dest: adds_trans in_set_butlastD)
qed

lemma adds_quiet_last: "adds_quiet M ac st st' \<Longrightarrow> \<exists>evs. adds M ac st st' evs \<and> session_last evs"
  unfolding adds_quiet_def session_last_def by (metis in_set_butlastD)

lemma serve_session_adds:
  assumes "max_sessions_per_connection (ac_config ac) \<noteq> 0"
  shows "\<exists>evs. adds M ac st (fst (serve_session E ac stream request st)) evs \<and> session_last evs"
  using assms by (auto simp: serve_session_def adds_def log_def session_last_def List.map_filter_def split: prod.split)

lemma serve_streams_adds:
  "\<exists>evs. adds (se_machine E) ac st (fst (serve_streams E ac streams st)) evs \<and> session_last evs"
proof (induction streams arbitrary: st)
  case Nil
  show ?case
    by (auto intro!: exI[of _ "[]"] simp: adds_refl session_last_def)
next
  case (Cons stream rest)
  let ?M = "se_machine E"
  have step: "\<exists>evs. adds ?M ac st (fst (serve_streams E ac rest st')) evs \<and> session_last evs"
    if "adds_quiet ?M ac st st'" for st'
    using Cons.IH[of st'] adds_session_last[OF that] by blast
  have prio: "adds_quiet ?M ac st (log (Prioritised PrioShell) st)"
    by (rule adds_quiet_log) simp_all
  show ?case
  proof (cases "sr_header stream")
    case (Inr h)
    show ?thesis
    proof (cases h)
      case (Session request)
      have "\<exists>evs. adds ?M ac st (fst (serve_session E ac stream request (log (Prioritised PrioShell) st))) evs \<and> session_last evs"
        if "max_sessions_per_connection (ac_config ac) \<noteq> 0"
        using serve_session_adds[OF that, of ?M "log (Prioritised PrioShell) st" E stream request] adds_session_last[OF prio]
        by blast
      with Session Inr step[OF adds_quiet_trans[OF prio send_response_error_adds]] show ?thesis
        by (simp add: Let_def)
    next
      case (OpenRemoteForward request)
      obtain st1 r where run: "open_remote_forward ?M ac stream request st = (st1, r)"
        by (cases "open_remote_forward ?M ac stream request st")
      with open_remote_forward_adds[of ?M ac st stream request] have "adds_quiet ?M ac st st1"
        by simp
      with OpenRemoteForward Inr run step[of st1] adds_quiet_last[of ?M ac st st1] show ?thesis
        by (cases r) simp_all
    qed (use Inr step[OF serve_copy_adds] step[OF adds_quiet_refl] in auto)
  qed (auto intro!: exI[of _ "[]"] simp: adds_refl session_last_def)
qed


lemma serve_adds:
  "\<exists>evs. sv_events (fst (serve E ac streams st)) = sv_events st @ evs \<and> list_all (permitted (se_machine E) ac) evs \<and>
     length (List.map_filter listening evs) \<le> max_forwards_per_connection (ac_config ac) \<and> session_last evs \<and>
     sv_listeners (fst (serve E ac streams st))
       = (if snd (serve E ac streams st) = None then List.map_filter listening evs else [])"
proof -
  let ?st = "st\<lparr>sv_forwards := 0, sv_listeners := []\<rparr>"
  obtain evs where "adds (se_machine E) ac ?st (fst (serve_streams E ac streams ?st)) evs" "session_last evs"
    using serve_streams_adds by blast
  then show ?thesis
    by (intro exI[of _ evs]) (auto simp: serve_def adds_def split: prod.splits option.splits)
qed

lemma serve_connection_cases:
  obtains (refused) e where "fst (serve_connection E A config server_addr ident streams st) = log (ConnClosed 0 AUTH_FAILURE_MESSAGE) st"
      "snd (serve_connection E A config server_addr ident streams st) = Some (Inl e)"
  | (served) cert certs key user where "ident = Certificates (cert # certs)"
      "public_key_from_cert_der (le_lib A) (le_parse_cert A) cert = Inr key"
      "username_from_cert_der (le_parse_cert A) cert = Inr user"
      "allow_users config = [] \<or> user \<in> set (allow_users config)"
      "m_is_root (se_machine E) \<or> user = m_current_username (se_machine E)"
      "is_authorized (le_lib A) (le_home_for_user A) (le_open_file A) user key (authorized_keys_path config) = Inr True"
      "serve_connection E A config server_addr ident streams st
        = serve E \<lparr>ac_user = user, ac_config = config, ac_server_addr = server_addr\<rparr> streams st"
proof (cases "peer_identity A ident")
  case (Inl e)
  then show ?thesis
    by (intro refused) (auto simp: serve_connection_def os_bind_def pending_new_def)
next
  case (Inr id)
  obtain key user where "id = (key, user)"
    by (cases id)
  with Inr have id: "peer_identity A ident = Inr (key, user)"
    by simp
  let ?pc = "\<lparr>pc_peer_key = key, pc_claimed_user = user, pc_config = config, pc_server_addr = server_addr\<rparr>"
  have new: "pending_new A ident config server_addr st = (st, Inr ?pc)"
    by (simp add: pending_new_def id)
  show ?thesis
  proof (cases "check_authorization A (se_machine E) ?pc user")
    case Inl
    with new show ?thesis
      by (intro refused) (auto simp: serve_connection_def os_bind_def authenticate_def)
  next
    case (Inr u)
    then have ok: "check_authorization A (se_machine E) ?pc user = Inr ()"
      by simp
    from id obtain cert certs where cert: "ident = Certificates (cert # certs)"
      "public_key_from_cert_der (le_lib A) (le_parse_cert A) cert = Inr key"
      "username_from_cert_der (le_parse_cert A) cert = Inr user"
      unfolding peer_identity_Inr by blast
    show ?thesis
      using ok[unfolded check_authorization_Inr] new ok
      by (intro served[OF cert]) (auto simp: serve_connection_def os_bind_def authenticate_def)
  qed
qed

text \<open>C1. Nothing is served without authorization.  Whatever streams the peer opens, either the connection
  is closed at once, with the same reason in every case and nothing else done, or the first
  certificate of the peer carries a key and the name of a user such that the configuration admits the
  user, the server may act as them, and the user's authorized keys (or the configured file) grant
  access to that key; and then every session and every file copy runs as that user, and nothing else
  than forwards, copies and sessions is done.
\<close>

theorem served_only_if_authorized:
  fixes A :: "'p login_env"
  assumes "serve_connection E A config server_addr ident streams st = (st', r)"
  shows "(\<exists>e. st' = log (ConnClosed 0 AUTH_FAILURE_MESSAGE) st \<and> r = Some (Inl e)) \<or>
     (\<exists>cert certs key user evs.
        ident = Certificates (cert # certs) \<and>
        public_key_from_cert_der (le_lib A) (le_parse_cert A) cert = Inr key \<and>
        username_from_cert_der (le_parse_cert A) cert = Inr user \<and>
        (allow_users config = [] \<or> user \<in> set (allow_users config)) \<and>
        (m_is_root (se_machine E) \<or> user = m_current_username (se_machine E)) \<and>
        is_authorized (le_lib A) (le_home_for_user A) (le_open_file A) user key (authorized_keys_path config) = Inr True \<and>
        sv_events st' = sv_events st @ evs \<and>
        (\<forall>e \<in> set evs. (\<forall>u x. e = SessionRan u x \<longrightarrow> u = user) \<and> (\<forall>u d x y. e = CopyRan u d x y \<longrightarrow> u = user)
            \<and> (\<forall>c m. e \<noteq> ConnClosed c m)))"
proof (cases rule: serve_connection_cases[of E A config server_addr ident streams st])
  case (refused e)
  with assms show ?thesis
    by simp
next
  case (served cert certs key user)
  let ?ac = "\<lparr>ac_user = user, ac_config = config, ac_server_addr = server_addr\<rparr>"
  have run: "serve E ?ac streams st = (st', r)"
    using served(7) assms by simp
  obtain evs where evs: "sv_events st' = sv_events st @ evs" "list_all (permitted (se_machine E) ?ac) evs"
    using serve_adds[of E ?ac streams st] unfolding run by auto
  have "\<forall>e \<in> set evs. (\<forall>u x. e = SessionRan u x \<longrightarrow> u = user) \<and> (\<forall>u d x y. e = CopyRan u d x y \<longrightarrow> u = user)
      \<and> (\<forall>c m. e \<noteq> ConnClosed c m)"
    using evs(2) unfolding list_all_iff by (metis permitted.simps(2-4) AuthenticatedConnection.select_convs(1))
  with served evs(1) show ?thesis
    by blast
qed

text \<open>C17. The remote forwards of a connection respect their limits: at most
  \<open>max_forwards_per_connection\<close> listeners are ever opened, none when TCP forwarding is disabled, all
  of them on a loopback address, and none on a privileged port when root serves another user.  When
  the connection ends none is left.
\<close>

theorem remote_forwards_confined:
  assumes "serve E ac streams st = (st', r)"
  shows "\<exists>evs. sv_events st' = sv_events st @ evs \<and>
     length (List.map_filter listening evs) \<le> max_forwards_per_connection (ac_config ac) \<and>
     (\<forall>addr fid. Listening addr fid \<in> set evs \<longrightarrow>
        allow_tcp_forwarding (ac_config ac) \<and> is_loopback (sa_ip addr) \<and>
        (m_is_root (se_machine E) \<and> ac_user ac \<noteq> m_current_username (se_machine E)
           \<longrightarrow> sa_port addr = 0 \<or> 1024 \<le> sa_port addr)) \<and>
     (r \<noteq> None \<longrightarrow> sv_listeners st' = [])"
proof -
  obtain evs where evs: "sv_events st' = sv_events st @ evs" "list_all (permitted (se_machine E) ac) evs"
    "length (List.map_filter listening evs) \<le> max_forwards_per_connection (ac_config ac)"
    "sv_listeners st' = (if r = None then List.map_filter listening evs else [])"
    using serve_adds[of E ac streams st] assms by auto
  have "allow_tcp_forwarding (ac_config ac) \<and> is_loopback (sa_ip addr) \<and>
        (m_is_root (se_machine E) \<and> ac_user ac \<noteq> m_current_username (se_machine E)
           \<longrightarrow> sa_port addr = 0 \<or> 1024 \<le> sa_port addr)" if "Listening addr fid \<in> set evs" for addr fid
    using evs(2) that unfolding list_all_iff root_switch_def[symmetric] by fastforce
  with evs show ?thesis
    by auto
qed

text \<open>A connection runs at most one session, and serves nothing after it; with
  \<open>max_sessions_per_connection\<close> zero it runs none.
\<close>

theorem one_session_per_connection:
  assumes "serve E ac streams st = (st', r)"
  shows "\<exists>evs. sv_events st' = sv_events st @ evs \<and>
     (\<forall>pre u x post. evs = pre @ SessionRan u x # post \<longrightarrow>
        post = [] \<and> (\<forall>v y. SessionRan v y \<notin> set pre) \<and> max_sessions_per_connection (ac_config ac) \<noteq> 0)"
proof -
  obtain evs where evs: "sv_events st' = sv_events st @ evs" "list_all (permitted (se_machine E) ac) evs" "session_last evs"
    using serve_adds[of E ac streams st] assms by auto
  have "post = [] \<and> (\<forall>v y. SessionRan v y \<notin> set pre) \<and> max_sessions_per_connection (ac_config ac) \<noteq> 0"
    if "evs = pre @ SessionRan u x # post" for pre u x post
  proof -
    have "butlast evs = pre @ butlast (SessionRan u x # post)"
      using that by (simp add: butlast_append)
    then have "SessionRan v y \<notin> set pre \<and> (post \<noteq> [] \<longrightarrow> False)" for v y
      using evs(3) unfolding session_last_def by (cases post) auto
    moreover have "max_sessions_per_connection (ac_config ac) \<noteq> 0"
      using evs(2) that by simp
    ultimately show ?thesis
      by blast
  qed
  with evs(1) show ?thesis
    by blast
qed


section \<open>Examples\<close>

definition example_login :: "nat login_env" where
  "example_login =
     \<lparr>le_lib = example_lib\<lparr>new_key := (\<lambda>_ _. 3)\<rparr>,
      le_parse_cert = (\<lambda>der. Inr \<lparr>cert_key_oid = OID_ED25519, cert_key_raw = der,
                                  cert_extensions = [(username_oid, [0x0C, 3, 0x61, 0x64, 0x61])]\<rparr>),
      le_home_for_user = (\<lambda>u. Inr (Some (''/home/'' @ u))),
      le_open_file = (\<lambda>p. if p = ''/home/ada/.ssh/authorized_keys'' then Inr (Inr (as_bytes ''key3''))
                          else Inl (IoError NotFound None))\<rparr>"

definition example_stream :: "StreamOpen \<Rightarrow> nat stream" where
  "example_stream header =
     \<lparr>sr_header = Inr header, sr_write = (\<lambda>_. None), sr_finish = Inr (), sr_recv = [],
      sr_worker = \<lparr>wv_spawn = Inr (), wv_first = Inr WComplete, wv_shutdown = Inr (), wv_copy_in = Inr (),
                   wv_second = Inr WComplete, wv_copy_out = ([], Inr ()), wv_wait = Inr ()\<rparr>,
      sr_worker_fs = 0, sr_script = example_script, sr_bind = (\<lambda>_. None)\<rparr>"

definition example_forward :: "string \<Rightarrow> u16 \<Rightarrow> StreamOpen" where
  "example_forward host port = OpenRemoteForward \<lparr>rf_forward_id = 7, rf_listen_host = host, rf_listen_port = port\<rparr>"

definition example_streams :: "nat stream list" where
  "example_streams =
     map example_stream [example_forward ''10.0.0.1'' 8080, example_forward ''::1'' 80, example_forward ''localhost'' 8080,
                         Session example_open, Session example_open]"

definition example_server :: "(cred, nat) server_env" where
  "example_server =
     \<lparr>se_kernel = example_kernel, se_machine = example_machine, se_copy = example_ops, se_closed = Bail ''closed''\<rparr>"

definition example_state :: "(cred, nat) server_state" where
  "example_state = \<lparr>sv_kernel = root_cred, sv_fs = 0, sv_forwards = 0, sv_listeners = [], sv_events = []\<rparr>"

abbreviation example_config :: "unit ServerRuntimeConfig" where
  "example_config \<equiv> default_runtime_config"

definition example_auth :: "unit AuthenticatedConnection" where
  "example_auth = \<lparr>ac_user = ''ada'', ac_config = example_config, ac_server_addr = example_server_addr\<rparr>"

definition shorten :: "server_event \<Rightarrow> server_event" where
  "shorten e = (case e of SessionRan u x \<Rightarrow> SessionRan u [] | _ \<Rightarrow> e)"

lemma example_serve:
  "map shorten (sv_events (fst (serve example_server example_auth example_streams example_state)))
     = [Prioritised PrioForward, Respond (RespError ''remote forwards must listen on a loopback address''),
        Prioritised PrioForward, Respond (RespError ''remote forwards may not use privileged ports''),
        Prioritised PrioForward, Listening (SocketAddr (V4 0x7f000001) 8080) 7, Respond RespOk,
        Prioritised PrioShell, SessionRan ''ada'' []]"
  "snd (serve example_server example_auth example_streams example_state) = Some (Inr ())"
  by code_simp+

theorem served_only_if_authorized_witness:
  "serve_connection example_server example_login example_config example_server_addr (Certificates [[1]]) example_streams example_state
     = serve example_server example_auth example_streams example_state \<and>
   is_authorized (le_lib example_login) (le_home_for_user example_login) (le_open_file example_login) ''ada'' 3 None = Inr True \<and>
   SessionRan ''ada'' [] \<in> set (map shorten (sv_events (fst (serve example_server example_auth example_streams example_state))))"
proof -
  let ?run = "serve_connection example_server example_login example_config example_server_addr (Certificates [[1]]) example_streams example_state"
  have same: "?run = serve example_server example_auth example_streams example_state"
  proof -
    have "os_bind (pending_new example_login (Certificates [[1]]) example_config example_server_addr)
        (authenticate example_login (se_machine example_server)) example_state = (example_state, Inr example_auth)"
      by code_simp
    then show ?thesis
      by (simp add: serve_connection_def)
  qed
  have k: "public_key_from_cert_der (le_lib example_login) (le_parse_cert example_login) [1] = Inr 3"
    "username_from_cert_der (le_parse_cert example_login) [1] = Inr ''ada''" "authorized_keys_path example_config = None"
    by code_simp+
  have "snd ?run \<noteq> Some (Inl e)" for e
    using example_serve(2) unfolding same by simp
  with served_only_if_authorized[of example_server example_login example_config example_server_addr
      "Certificates [[1]]" example_streams example_state "fst ?run" "snd ?run"] k same example_serve(1)
  show ?thesis
    by auto
qed

theorem remote_forwards_confined_witness:
  "\<exists>evs. sv_events (fst (serve example_server example_auth example_streams example_state)) = evs \<and>
     length (List.map_filter listening evs) \<le> 16 \<and>
     (\<exists>fid. Listening (SocketAddr (V4 0x7f000001) 8080) fid \<in> set evs \<and> is_loopback (V4 0x7f000001))"
proof -
  let ?run = "serve example_server example_auth example_streams example_state"
  have "Listening (SocketAddr (V4 0x7f000001) 8080) 7 \<in> set (map shorten (sv_events (fst ?run)))"
    by (simp add: example_serve)
  then have "Listening (SocketAddr (V4 0x7f000001) 8080) 7 \<in> set (sv_events (fst ?run))"
    by (auto simp: shorten_def split: server_event.splits)
  moreover have "max_forwards_per_connection (ac_config example_auth) = 16" "sv_events example_state = []"
    by code_simp+
  ultimately show ?thesis
    using remote_forwards_confined[of example_server example_auth example_streams example_state "fst ?run" "snd ?run"]
    by fastforce
qed

theorem one_session_per_connection_witness:
  "\<exists>x. last (sv_events (fst (serve example_server example_auth example_streams example_state))) = SessionRan ''ada'' x \<and>
     (\<forall>v y. SessionRan v y \<notin> set (butlast (sv_events (fst (serve example_server example_auth example_streams example_state)))))"
proof -
  let ?evs = "sv_events (fst (serve example_server example_auth example_streams example_state))"
  have ne: "?evs \<noteq> []" and "last (map shorten ?evs) = SessionRan ''ada'' []"
    using example_serve(1) by auto
  then obtain x where x: "last ?evs = SessionRan ''ada'' x"
    by (auto simp: last_map shorten_def split: server_event.splits)
  then have "?evs = butlast ?evs @ SessionRan ''ada'' x # []"
    using append_butlast_last_id[OF ne] by simp
  with one_session_per_connection[of example_server example_auth example_streams example_state
      "fst (serve example_server example_auth example_streams example_state)"
      "snd (serve example_server example_auth example_streams example_state)"] x
  show ?thesis
    by (auto simp: example_state_def)
qed

end
