(* ===== verification/Runtime.thy ===== *)
theory Runtime
  imports Server
begin

text \<open>
  \<open>hush-server/src/runtime.rs\<close>: how the server puts its configuration together from the command line
  (\<open>hush-server/src/cli.rs\<close>) and the configuration file, and the loop that accepts connections.
\<close>

section \<open>Starting\<close>

record Args =
  ar_verbose :: bool
  ar_data_dir :: "string option"
  ar_listen :: socket_addr
  ar_config :: "string option"
  ar_host_cert :: "string option"
  ar_host_key :: "string option"
  ar_authorized_keys :: "string option"
  ar_allow_user :: "string list"
  ar_disable_tcp_forwarding :: bool
  ar_disable_agent_forwarding :: bool
  ar_max_connections :: "nat option"
  ar_max_sessions_per_connection :: "nat option"
  ar_max_forwards_per_connection :: "nat option"
  ar_max_forward_streams_per_connection :: "nat option"
  ar_max_file_copy_bytes :: "u64 option"
  ar_max_file_copy_entries :: "u64 option"

definition empty_file_config :: ServerConfigFile where
  "empty_file_config =
     \<lparr>scf_listen = None, scf_data_dir = None, scf_host_cert_path = None, scf_host_key_path = None,
      scf_authorized_keys_path = None, scf_allow_users = None, scf_allow_tcp_forwarding = None,
      scf_allow_agent_forwarding = None, scf_max_connections = None, scf_max_sessions_per_connection = None,
      scf_max_forwards_per_connection = None, scf_max_forward_streams_per_connection = None,
      scf_max_file_copy_bytes = None, scf_max_file_copy_entries = None\<rparr>"

text \<open>\<open>a.or(b)\<close> and \<open>a.unwrap_or(b)\<close>.\<close>

definition or_opt :: "'a option \<Rightarrow> 'a option \<Rightarrow> 'a option" where
  "or_opt a b = (case a of Some x \<Rightarrow> Some x | None \<Rightarrow> b)"

definition unwrap_or :: "'a option \<Rightarrow> 'a \<Rightarrow> 'a" where
  "unwrap_or a d = (case a of Some x \<Rightarrow> x | None \<Rightarrow> d)"

definition default_listen :: socket_addr where
  "default_listen = SocketAddr (V6 0) DEFAULT_PORT"

record 's startup =
  su_data_dir :: string
  su_listen :: socket_addr
  su_host_cert :: "string option"
  su_host_key :: "string option"
  su_runtime :: "'s ServerRuntimeConfig"

definition merge_config :: "Args \<Rightarrow> ServerConfigFile \<Rightarrow> string \<Rightarrow> 's startup" where
  "merge_config args file_cfg initial_data_dir =
     \<lparr>su_data_dir = unwrap_or (or_opt (ar_data_dir args) (scf_data_dir file_cfg)) initial_data_dir,
      su_listen = (if ar_listen args \<noteq> default_listen then ar_listen args
                   else unwrap_or (scf_listen file_cfg) (ar_listen args)),
      su_host_cert = or_opt (ar_host_cert args) (scf_host_cert_path file_cfg),
      su_host_key = or_opt (ar_host_key args) (scf_host_key_path file_cfg),
      su_runtime =
        \<lparr>authorized_keys_path = or_opt (ar_authorized_keys args) (scf_authorized_keys_path file_cfg),
         allow_users = (if ar_allow_user args = [] then unwrap_or (scf_allow_users file_cfg) [] else ar_allow_user args),
         allow_tcp_forwarding =
           (if ar_disable_tcp_forwarding args then False else unwrap_or (scf_allow_tcp_forwarding file_cfg) True),
         allow_agent_forwarding =
           (if ar_disable_agent_forwarding args then False else unwrap_or (scf_allow_agent_forwarding file_cfg) True),
         agent_signer = None,
         max_connections =
           unwrap_or (or_opt (ar_max_connections args) (scf_max_connections file_cfg)) DEFAULT_MAX_CONNECTIONS,
         max_sessions_per_connection =
           unwrap_or (or_opt (ar_max_sessions_per_connection args) (scf_max_sessions_per_connection file_cfg))
             DEFAULT_MAX_SESSIONS_PER_CONNECTION,
         max_forwards_per_connection =
           unwrap_or (or_opt (ar_max_forwards_per_connection args) (scf_max_forwards_per_connection file_cfg))
             DEFAULT_MAX_FORWARDS_PER_CONNECTION,
         max_forward_streams_per_connection =
           unwrap_or (or_opt (ar_max_forward_streams_per_connection args) (scf_max_forward_streams_per_connection file_cfg))
             DEFAULT_MAX_FORWARD_STREAMS_PER_CONNECTION,
         file_copy_limits =
           \<lparr>max_bytes = unwrap_or (or_opt (ar_max_file_copy_bytes args) (scf_max_file_copy_bytes file_cfg))
                          DEFAULT_MAX_FILE_COPY_BYTES,
            max_entries = unwrap_or (or_opt (ar_max_file_copy_entries args) (scf_max_file_copy_entries file_cfg))
                            DEFAULT_MAX_FILE_COPY_ENTRIES\<rparr>\<rparr>\<rparr>"

text \<open>
  The part of \<open>run\<close> that ends with the validation of the configuration.  \<open>example\<close> is the result of
  writing the example configuration if there is none, \<open>contents\<close> that of reading a file.
\<close>

definition config_path_for :: "Args \<Rightarrow> string \<Rightarrow> string" where
  "config_path_for args initial_data_dir = unwrap_or (ar_config args) (server_config_path initial_data_dir)"

definition configure ::
  "(string \<Rightarrow> ServerConfigFile res) \<Rightarrow> (string \<Rightarrow> unit res) \<Rightarrow> (string \<Rightarrow> io_error + string) \<Rightarrow> bool \<Rightarrow> string \<Rightarrow> Args
     \<Rightarrow> 's startup res" where
  "configure toml example contents running_as_root default_dir args =
     (let initial_data_dir = unwrap_or (ar_data_dir args) default_dir;
          config_path = config_path_for args initial_data_dir
      in and_then (example config_path) (\<lambda>_.
         and_then (read_server_config toml config_path (contents config_path)) (\<lambda>file_cfg.
         let su = merge_config args (unwrap_or file_cfg empty_file_config) initial_data_dir
         in and_then (validate (su_runtime su) running_as_root) (\<lambda>_. Inr su))))"

text \<open>The signer of the host key is added when agent forwarding is allowed and the key can sign.\<close>

definition with_signer :: "'s res \<Rightarrow> 's startup \<Rightarrow> 's startup" where
  "with_signer signer su =
     (if allow_agent_forwarding (su_runtime su)
      then su\<lparr>su_runtime := (su_runtime su)\<lparr>agent_signer :=
                (case signer of Inr s \<Rightarrow> Some s | Inl _ \<Rightarrow> agent_signer (su_runtime su))\<rparr>\<rparr>
      else su)"

text \<open>
  The entry of \<open>hush-server/src/main.rs\<close>: the arguments after the program's name ask for a file copy
  worker, which becomes the user for good before it does anything, or for the server.
\<close>

datatype main_mode = WorkerMode UserInfo | ServerMode

definition server_main ::
  "'k kernel \<Rightarrow> (string \<Rightarrow> UserInfo option res) \<Rightarrow> (string \<Rightarrow> io_error + unit) \<Rightarrow> string list \<Rightarrow> ('k, main_mode) os" where
  "server_main K lookup set_current_dir raw_args =
     (case raw_args of
        first # rest \<Rightarrow>
          if first = WORKER_ARG then
            (case rest of
               [] \<Rightarrow> given (Inl (Bail ''missing worker user''))
             | [user] \<Rightarrow>
                 os_bind (drop_privileges_to_user K lookup user) (\<lambda>info.
                 os_bind (given (io_res (set_current_dir (ui_home info)))) (\<lambda>_. os_return (WorkerMode info)))
             | _ \<Rightarrow> given (Inl (Bail ''unexpected file-copy worker argument'')))
          else os_bind (raise_nofile_soft_limit_to_hard K) (\<lambda>_. os_return ServerMode)
      | [] \<Rightarrow> os_bind (raise_nofile_soft_limit_to_hard K) (\<lambda>_. os_return ServerMode))"

section \<open>Accepting connections\<close>

text \<open>
  The loop: the permits left, the connections that hold one, the number of the next incoming
  connection, those refused, and whether the loop still runs.  A task holds its permit until the
  handshake has failed or the connection has been served.
\<close>

record accept_state =
  as_free :: nat
  as_active :: "nat list"
  as_next :: nat
  as_refused :: "nat list"
  as_running :: bool

definition accept_start :: "'s ServerRuntimeConfig \<Rightarrow> accept_state" where
  "accept_start config =
     \<lparr>as_free = max_connections config, as_active = [], as_next = 0, as_refused = [], as_running = True\<rparr>"

inductive accept_step :: "accept_state \<Rightarrow> accept_state \<Rightarrow> bool" where
  spawn: "as_running s \<Longrightarrow> as_free s \<noteq> 0 \<Longrightarrow>
     accept_step s (s\<lparr>as_free := as_free s - 1, as_active := as_active s @ [as_next s], as_next := as_next s + 1\<rparr>)"
| refuse: "as_running s \<Longrightarrow> as_free s = 0 \<Longrightarrow>
     accept_step s (s\<lparr>as_refused := as_refused s @ [as_next s], as_next := as_next s + 1\<rparr>)"
| task_ends: "n \<in> set (as_active s) \<Longrightarrow>
     accept_step s (s\<lparr>as_free := as_free s + 1, as_active := remove1 n (as_active s)\<rparr>)"
| endpoint_closed: "as_running s \<Longrightarrow> accept_step s (s\<lparr>as_running := False\<rparr>)"
| shutdown: "as_running s \<Longrightarrow> accept_step s (s\<lparr>as_running := False\<rparr>)"

inductive_cases accept_stepE: "accept_step s s'"

text \<open>What \<open>close_endpoint\<close> reports after closing every connection: whether they were gone within the
  second it waits.\<close>

datatype close_report = ConnectionsClosed | TimedOut nat

definition close_endpoint :: "nat option \<Rightarrow> nat \<Rightarrow> close_report" where
  "close_endpoint idle_after_ms open_connections =
     (case idle_after_ms of
        Some ms \<Rightarrow> if ms \<le> 1000 then ConnectionsClosed else TimedOut open_connections
      | None \<Rightarrow> TimedOut open_connections)"

text \<open>The signals that end the server: those for which a handler could be installed.\<close>

definition shutdown_signal :: "bool \<Rightarrow> bool \<Rightarrow> RemoteSignal list \<Rightarrow> RemoteSignal option" where
  "shutdown_signal sigint_ok sigterm_ok received =
     find (\<lambda>sig. sig = SIGINT \<and> sigint_ok \<or> sig = SIGTERM \<and> sigterm_ok) received"

section \<open>Facts\<close>

definition accept_inv :: "nat \<Rightarrow> accept_state \<Rightarrow> bool" where
  "accept_inv limit s \<longleftrightarrow>
     as_free s + length (as_active s) = limit \<and> distinct (as_active s) \<and>
     (\<forall>n \<in> set (as_active s) \<union> set (as_refused s). n < as_next s) \<and> set (as_active s) \<inter> set (as_refused s) = {}"

lemma accept_step_inv:
  assumes "accept_step s s'" "accept_inv limit s"
  shows "accept_inv limit s'"
  using assms
proof cases
  case (task_ends n)
  with assms(2) show ?thesis
    by (auto simp: accept_inv_def length_remove1 dest: length_pos_if_in_set notin_set_remove1)
next
  case spawn
  with assms(2) show ?thesis
    by (auto simp: accept_inv_def less_SucI)
next
  case refuse
  with assms(2) show ?thesis
    by (auto simp: accept_inv_def less_SucI)
qed (use assms(2) in \<open>simp_all add: accept_inv_def\<close>)

interpretation accepting: permit_pool accept_step "accept_inv limit" as_free "\<lambda>s. length (as_active s)" limit for limit
  by unfold_locales (erule (1) accept_step_inv, simp add: accept_inv_def)

text \<open>C26. In every state the accepting loop can reach, at most \<open>max_connections\<close> connections are being
  served, no permit is lost, and a connection is refused only at a moment when all of them are in use;
  a connection that was refused is never served.
\<close>

theorem connections_bounded:
  assumes "accept_step\<^sup>*\<^sup>* (accept_start config) s"
  shows "length (as_active s) \<le> max_connections config \<and> set (as_active s) \<inter> set (as_refused s) = {} \<and>
     (\<forall>s'. accept_step s s' \<and> as_refused s' \<noteq> as_refused s \<longrightarrow> length (as_active s) = max_connections config)"
proof -
  have start: "accept_inv (max_connections config) (accept_start config)"
    by (simp add: accept_start_def accept_inv_def)
  have "as_free s = 0" if "accept_step s s'" "as_refused s' \<noteq> as_refused s" for s'
    using that by cases auto
  then show ?thesis
    using accepting.used_bounded [OF assms start] accepting.exhausted [OF assms start] accepting.reachable_inv [OF assms start]
    by (auto simp: accept_inv_def)
qed

theorem connections_bounded_witness:
  "\<exists>s. accept_step\<^sup>*\<^sup>* (accept_start (default_runtime_config\<lparr>max_connections := 1\<rparr> :: unit ServerRuntimeConfig)) s \<and>
     as_refused s = [1] \<and> length (as_active s) \<le> 1 \<and> as_active s = [0]"
proof -
  let ?c = "default_runtime_config\<lparr>max_connections := 1\<rparr> :: unit ServerRuntimeConfig"
  let ?s1 = "\<lparr>as_free = 0, as_active = [0], as_next = 1, as_refused = [], as_running = True\<rparr>"
  let ?s2 = "\<lparr>as_free = 0, as_active = [0], as_next = 1 + 1, as_refused = [1], as_running = True\<rparr>"
  have "accept_step (accept_start ?c) ?s1"
    using accept_step.spawn[of "accept_start ?c"] by (simp add: accept_start_def)
  moreover have "accept_step ?s1 ?s2"
    using accept_step.refuse[of ?s1] by simp
  ultimately have reach: "accept_step\<^sup>*\<^sup>* (accept_start ?c) ?s2"
    by (meson r_into_rtranclp rtranclp_trans)
  show ?thesis
    using connections_bounded[OF reach] reach by (intro exI[of _ ?s2]) simp
qed

text \<open>C14. A server of root that takes its authorized keys from one shared file serves only the users it
  was told to allow: once such a server has started, every session and file copy of every connection
  acts as a user of its list, whoever holds a key of that file.
\<close>

theorem root_shared_keys_restricted:
  assumes "configure toml example contents True default_dir args = Inr su"
    and "authorized_keys_path (su_runtime (with_signer signer su)) \<noteq> None"
    and "serve_connection E A (su_runtime (with_signer signer su)) server_addr ident streams st = (st', r)"
    and "sv_events st = []" and "SessionRan u x \<in> set (sv_events st') \<or> CopyRan u d y z \<in> set (sv_events st')"
  shows "u \<in> set (allow_users (su_runtime (with_signer signer su)))"
proof -
  let ?config = "su_runtime (with_signer signer su)"
  have same: "allow_users ?config = allow_users (su_runtime su)"
    "authorized_keys_path ?config = authorized_keys_path (su_runtime su)"
    by (simp_all add: with_signer_def)
  have "validate (su_runtime su) True = Inr ()"
    using assms(1) by (auto simp: configure_def Let_def and_then_eq_Inr)
  with assms(2) have allow: "allow_users ?config \<noteq> []"
    unfolding same by (auto simp: validate_def split: if_splits)
  show ?thesis
  proof (cases rule: serve_connection_cases[of E A ?config server_addr ident streams st])
    case (refused e)
    with assms(3-5) show ?thesis
      by (auto simp: log_def)
  next
    case (served cert certs key user)
    let ?ac = "\<lparr>ac_user = user, ac_config = ?config, ac_server_addr = server_addr\<rparr>"
    have "serve E ?ac streams st = (st', r)"
      using served(7) assms(3) by simp
    with serve_adds[of E ?ac streams st] assms(4) have "list_all (permitted (se_machine E) ?ac) (sv_events st')"
      by auto
    then have "\<forall>e \<in> set (sv_events st'). permitted (se_machine E) ?ac e"
      by (simp add: list_all_iff)
    with assms(5) have "u = user"
      by (metis permitted.simps(2,3) AuthenticatedConnection.select_convs(1))
    with served(4) allow show ?thesis
      by blast
  qed
qed


definition example_args :: Args where
  "example_args =
     \<lparr>ar_verbose = False, ar_data_dir = None, ar_listen = default_listen, ar_config = None, ar_host_cert = None,
      ar_host_key = None, ar_authorized_keys = Some ''/etc/hush/keys'', ar_allow_user = [''ada''],
      ar_disable_tcp_forwarding = False, ar_disable_agent_forwarding = True, ar_max_connections = None,
      ar_max_sessions_per_connection = None, ar_max_forwards_per_connection = None,
      ar_max_forward_streams_per_connection = None, ar_max_file_copy_bytes = None, ar_max_file_copy_entries = None\<rparr>"

definition shared_login :: "nat login_env" where
  "shared_login = example_login\<lparr>le_open_file := (\<lambda>p. if p = ''/etc/hush/keys'' then Inr (Inr (as_bytes ''key3''))
                                                      else Inl (IoError NotFound None))\<rparr>"

definition example_startup :: "unit startup" where
  "example_startup = merge_config example_args empty_file_config ''/etc/hush''"

theorem root_shared_keys_restricted_witness:
  "configure (\<lambda>_. Inl (Foreign ''toml'')) (\<lambda>_. Inr ()) (\<lambda>_. Inl (IoError NotFound None)) True ''/etc/hush'' example_args
     = Inr example_startup \<and>
   (\<exists>x. SessionRan ''ada'' x \<in> set (sv_events (fst (serve_connection example_server shared_login
      (su_runtime (with_signer (Inr ()) example_startup)) example_server_addr (Certificates [[1]]) example_streams example_state))) \<and>
      ''ada'' \<in> set (allow_users (su_runtime (with_signer (Inr ()) example_startup))))"
proof -
  let ?config = "su_runtime (with_signer (Inr ()) example_startup)"
  let ?run = "serve_connection example_server shared_login ?config example_server_addr (Certificates [[1]]) example_streams example_state"
  have conf: "configure (\<lambda>_. Inl (Foreign ''toml'')) (\<lambda>_. Inr ()) (\<lambda>_. Inl (IoError NotFound None)) True ''/etc/hush'' example_args
     = Inr example_startup"
    by (simp add: configure_def Let_def example_args_def config_path_for_def unwrap_or_def read_server_config_def
        example_startup_def validate_def merge_config_def)
  have "authorized_keys_path ?config = Some ''/etc/hush/keys''" "sv_events example_state = []"
    by code_simp+
  moreover have "SessionRan ''ada'' [] \<in> set (map shorten (sv_events (fst ?run)))"
    by code_simp
  then obtain x where x: "SessionRan ''ada'' x \<in> set (sv_events (fst ?run))"
    by (auto simp: shorten_def split: server_event.splits)
  ultimately have "''ada'' \<in> set (allow_users ?config)"
    using root_shared_keys_restricted[OF conf, of "Inr ()" example_server shared_login example_server_addr
        "Certificates [[1]]" example_streams example_state "fst ?run" "snd ?run" "''ada''" x]
    by simp
  with conf x show ?thesis
    by blast
qed

text \<open>A \<open>--listen\<close> flag that names the default address gives way to the configuration file, although
  the flags are documented to override it.\<close>

lemma default_listen_flag_ignored:
  "ar_listen args = default_listen \<Longrightarrow> scf_listen cfg = Some addr \<Longrightarrow> su_listen (merge_config args cfg dir) = addr"
  by (simp add: merge_config_def unwrap_or_def)

end
