(* ===== verification/Fastsock.thy ===== *)
theory Fastsock
  imports Os
begin

text \<open>
  \<open>hush-core/src/fastsock.rs\<close>: the sockets under a QUIC endpoint.  A server has its listening socket
  and, for each connection it has adopted, a private socket connected to the peer, opened by the
  first datagram sent to it and given up for the listener when it cannot be opened or used.

  The kernel is a record of answers, one for each operation: what its calls return at that time.  A
  private socket is named by the number of its \<open>Arc\<close>; at most one kernel socket belongs to it.
\<close>

section \<open>One socket\<close>

definition EPIPE :: int where "EPIPE = 32"
definition EADDRNOTAVAIL :: int where "EADDRNOTAVAIL = 99"

definition is_dead_socket_error :: "io_error \<Rightarrow> bool" where
  "is_dead_socket_error err = (raw_os_error err = Some EPIPE \<or> raw_os_error err = Some EADDRNOTAVAIL)"

record 'c Transmit =
  tr_destination :: socket_addr
  tr_ecn :: "nat option"
  tr_contents :: 'c
  tr_segment_size :: "nat option"
  tr_src_ip :: "ip_addr option"

record RecvMeta =
  rm_addr :: socket_addr
  rm_len :: nat
  rm_dst_ip :: "ip_addr option"

datatype 'a poll = Pending | Ready (ready_value: 'a)

text \<open>
  The loop of \<open>QuicSocket::poll_recv\<close>: each round asks whether the socket is readable and then reads;
  a read that would block asks again.  The script holds the answers of the rounds; a socket whose
  script is over has nothing more.
\<close>

fun quic_poll_recv :: "((io_error + unit) poll \<times> (io_error + 'm list)) list \<Rightarrow> (io_error + 'm list) poll" where
  "quic_poll_recv [] = Pending"
| "quic_poll_recv ((Pending, _) # rounds) = Pending"
| "quic_poll_recv ((Ready (Inl e), _) # rounds) = Ready (Inl e)"
| "quic_poll_recv ((Ready (Inr _), Inr res) # rounds) = Ready (Inr res)"
| "quic_poll_recv ((Ready (Inr _), Inl e) # rounds) =
     (if io_error_kind e = WouldBlock then quic_poll_recv rounds else Ready (Inl e))"

section \<open>The sockets of a server\<close>

datatype sock = Listener | Private nat

record PrivateSocket =
  ps_id :: nat
  ps_peer :: socket_addr
  ps_local_ip :: ip_addr
  ps_open :: bool
  ps_failed :: bool

record MultiSocket =
  ms_privates :: "PrivateSocket list"
  ms_next :: nat
  ms_waker :: bool
  ms_wakes :: nat

record 'c net =
  nt_main_addr :: "io_error + socket_addr"
  nt_call :: "socket_call \<Rightarrow> io_error option"
  nt_register :: "io_error option"
  nt_send :: "sock \<Rightarrow> 'c Transmit \<Rightarrow> io_error + unit"
  nt_recv :: "sock \<Rightarrow> (io_error + RecvMeta list) poll"

definition multi_new :: MultiSocket where
  "multi_new = \<lparr>ms_privates = [], ms_next = 0, ms_waker = False, ms_wakes = 0\<rparr>"

text \<open>The new state and the guard, which is the number of the private socket.\<close>

definition multi_adopt :: "ip_addr \<Rightarrow> socket_addr \<Rightarrow> MultiSocket \<Rightarrow> MultiSocket \<times> nat" where
  "multi_adopt local_ip peer ms =
     (ms\<lparr>ms_privates := ms_privates ms @ [\<lparr>ps_id = ms_next ms, ps_peer = peer, ps_local_ip = local_ip,
                                            ps_open = False, ps_failed = False\<rparr>],
         ms_next := ms_next ms + 1\<rparr>, ms_next ms)"

definition to_ipv4_mapped :: "128 word \<Rightarrow> u32 option" where
  "to_ipv4_mapped a = (if drop_bit 32 a = 0xFFFF then Some (ucast a) else None)"

definition unmap :: "ip_addr \<Rightarrow> ip_addr" where
  "unmap ip = (case ip of V6 v6 \<Rightarrow> (case to_ipv4_mapped v6 of Some v4 \<Rightarrow> V4 v4 | None \<Rightarrow> ip) | V4 _ \<Rightarrow> ip)"

definition private_addresses :: "PrivateSocket \<Rightarrow> bool \<times> ip_addr \<times> socket_addr" where
  "private_addresses p =
     (case unmap (sa_ip (ps_peer p)) of
        V4 v4 \<Rightarrow> (False, unmap (ps_local_ip p), SocketAddr (V4 v4) (sa_port (ps_peer p)))
      | V6 _ \<Rightarrow> (True, ps_local_ip p, ps_peer p))"

text \<open>The calls \<open>open_private\<close> makes, and its result.\<close>

definition open_private :: "'c net \<Rightarrow> PrivateSocket \<Rightarrow> socket_call list \<times> (io_error + unit)" where
  "open_private N p =
     (case nt_main_addr N of
        Inl e \<Rightarrow> ([], Inl e)
      | Inr main_addr \<Rightarrow>
          (case private_addresses p of (v6, local_ip, connect_to) \<Rightarrow>
             (case run_calls (nt_call N) [NewSocket v6, SetReuseAddress True] of
                (calls, Inl e) \<Rightarrow> (calls, Inl e)
              | (calls, Inr _) \<Rightarrow>
                  (case run_calls (nt_call N) [BindTo (SocketAddr local_ip (sa_port main_addr)), ConnectTo connect_to] of
                     (bound, r) \<Rightarrow>
                       let calls = calls @ set_recv_buffer (nt_call N) @ bound
                       in case r of
                            Inl e \<Rightarrow> (calls, Inl e)
                          | Inr _ \<Rightarrow>
                              (case nt_call N SendEmpty of
                                 Some err \<Rightarrow> (calls @ [SendEmpty], Inl (IoError (io_error_kind err) None))
                               | None \<Rightarrow> (calls @ [SendEmpty],
                                          case nt_register N of Some e \<Rightarrow> Inl e | None \<Rightarrow> Inr ()))))))"

definition close_private :: "nat \<Rightarrow> MultiSocket \<Rightarrow> MultiSocket" where
  "close_private guard ms = ms\<lparr>ms_privates := filter (\<lambda>p. ps_id p \<noteq> guard) (ms_privates ms)\<rparr>"

text \<open>Changing the private socket of a number, which the map and its holders share.\<close>

definition on_private :: "nat \<Rightarrow> (PrivateSocket \<Rightarrow> PrivateSocket) \<Rightarrow> MultiSocket \<Rightarrow> MultiSocket" where
  "on_private i f ms = ms\<lparr>ms_privates := map (\<lambda>p. if ps_id p = i then f p else p) (ms_privates ms)\<rparr>"

text \<open>The socket of the private socket \<open>p\<close>, opened if it is not.\<close>

definition private_socket :: "'c net \<Rightarrow> PrivateSocket \<Rightarrow> MultiSocket \<Rightarrow> MultiSocket \<times> bool" where
  "private_socket N p ms =
     (if ps_open p then (ms, True)
      else case snd (open_private N p) of
             Inr _ \<Rightarrow>
               (let ms = on_private (ps_id p) (\<lambda>p. p\<lparr>ps_open := True\<rparr>) ms
                in (if ms_waker ms then ms\<lparr>ms_wakes := ms_wakes ms + 1\<rparr> else ms, True))
           | Inl _ \<Rightarrow> (on_private (ps_id p) (\<lambda>p. p\<lparr>ps_failed := True\<rparr>) ms, False))"

text \<open>The end of \<open>try_send\<close>: the listener.  A result comes with the sends the kernel was asked for.\<close>

definition listener_send :: "'c net \<Rightarrow> 'c Transmit \<Rightarrow> (sock \<times> 'c Transmit) list \<times> (io_error + unit)" where
  "listener_send N t =
     ([(Listener, t)],
      case nt_send N Listener t of
        Inl e \<Rightarrow> if raw_os_error e = Some EPIPE then Inr ()
                 else if raw_os_error e = Some EADDRNOTAVAIL then Inr () else Inl e
      | Inr _ \<Rightarrow> Inr ())"

definition multi_try_send ::
  "'c net \<Rightarrow> 'c Transmit \<Rightarrow> MultiSocket \<Rightarrow> MultiSocket \<times> (sock \<times> 'c Transmit) list \<times> (io_error + unit)" where
  "multi_try_send N t ms =
     (case List.find (\<lambda>p. ps_peer p = tr_destination t \<and> \<not> ps_failed p) (ms_privates ms) of
        None \<Rightarrow> (ms, listener_send N t)
      | Some p \<Rightarrow>
          (case private_socket N p ms of
             (ms, False) \<Rightarrow> (ms, listener_send N t)
           | (ms, True) \<Rightarrow>
               (let t' = t\<lparr>tr_src_ip := None\<rparr>; asked = (Private (ps_id p), t')
                in case nt_send N (Private (ps_id p)) t' of
                     Inr _ \<Rightarrow> (ms, [asked], Inr ())
                   | Inl e \<Rightarrow>
                       if is_dead_socket_error e
                       then (on_private (ps_id p) (\<lambda>p. p\<lparr>ps_failed := True, ps_open := False\<rparr>) ms,
                             asked # fst (listener_send N t), snd (listener_send N t))
                       else if io_error_kind e = WouldBlock
                       then (ms, asked # fst (listener_send N t), snd (listener_send N t))
                       else (ms, [asked], Inl e))))"

text \<open>The loop of \<open>poll_recv\<close> over the private sockets.\<close>

fun poll_privates :: "'c net \<Rightarrow> PrivateSocket list \<Rightarrow> (io_error + RecvMeta list) poll" where
  "poll_privates N [] = Pending"
| "poll_privates N (p # ps) =
     (if \<not> ps_open p then poll_privates N ps
      else case nt_recv N (Private (ps_id p)) of
             Ready (Inr metas) \<Rightarrow>
               Ready (Inr (map (\<lambda>m. m\<lparr>rm_addr := ps_peer p, rm_dst_ip := None\<rparr>) metas))
           | Ready (Inl e) \<Rightarrow> Ready (Inl e)
           | Pending \<Rightarrow> poll_privates N ps)"

definition multi_poll_recv :: "'c net \<Rightarrow> MultiSocket \<Rightarrow> MultiSocket \<times> (io_error + RecvMeta list) poll" where
  "multi_poll_recv N ms =
     (ms\<lparr>ms_waker := True\<rparr>,
      case nt_recv N Listener of Ready res \<Rightarrow> Ready res | Pending \<Rightarrow> poll_privates N (ms_privates ms))"

section \<open>Runs\<close>

text \<open>What happens to the sockets of a server, one operation after the other, and the sends the kernel
  was asked for.\<close>

datatype 'c operation =
  OpAdopt ip_addr socket_addr | OpDrop nat | OpSend "'c net" "'c Transmit" | OpRecv "'c net"

fun multi_op :: "'c operation \<Rightarrow> MultiSocket \<Rightarrow> MultiSocket \<times> (sock \<times> 'c Transmit) list" where
  "multi_op (OpAdopt local_ip peer) ms = (fst (multi_adopt local_ip peer ms), [])"
| "multi_op (OpDrop guard) ms = (close_private guard ms, [])"
| "multi_op (OpSend N t) ms = (case multi_try_send N t ms of (ms, asked, _) \<Rightarrow> (ms, asked))"
| "multi_op (OpRecv N) ms = (fst (multi_poll_recv N ms), [])"

fun multi_run :: "'c operation list \<Rightarrow> MultiSocket \<Rightarrow> MultiSocket \<times> (sock \<times> 'c Transmit) list" where
  "multi_run [] ms = (ms, [])"
| "multi_run (op # ops) ms =
     (case multi_op op ms of (ms, asked) \<Rightarrow> (case multi_run ops ms of (ms, asked') \<Rightarrow> (ms, asked @ asked')))"

section \<open>Facts\<close>

text \<open>The numbers of the private sockets are given once.\<close>

definition multi_inv :: "MultiSocket \<Rightarrow> bool" where
  "multi_inv ms \<longleftrightarrow>
     distinct (map ps_id (ms_privates ms)) \<and> set (map ps_id (ms_privates ms)) \<subseteq> {..<ms_next ms}"

text \<open>The number \<open>i\<close> is in use and its socket usable.\<close>

definition usable :: "nat \<Rightarrow> MultiSocket \<Rightarrow> bool" where
  "usable i ms \<longleftrightarrow> (\<exists>p \<in> set (ms_privates ms). ps_id p = i \<and> \<not> ps_failed p)"

lemma find_Some_set: "List.find P xs = Some x \<Longrightarrow> x \<in> set xs \<and> P x"
  by (auto simp: find_Some_iff)

lemma on_private_inv:
  assumes "\<And>p. ps_id (f p) = ps_id p"
  shows "multi_inv (on_private i f ms) \<longleftrightarrow> multi_inv ms"
proof -
  have "map ps_id (ms_privates (on_private i f ms)) = map ps_id (ms_privates ms)"
    by (auto simp: on_private_def assms)
  moreover have "ms_next (on_private i f ms) = ms_next ms" by (simp add: on_private_def)
  ultimately show ?thesis by (simp only: multi_inv_def)
qed

lemma on_private_usable:
  assumes "\<And>p. ps_id (f p) = ps_id p" "\<And>p. ps_failed p \<Longrightarrow> ps_failed (f p)"
  shows "usable j (on_private i f ms) \<Longrightarrow> usable j ms"
  using assms by (auto simp: usable_def on_private_def split: if_splits)

lemma on_private_next [simp]: "ms_next (on_private i f ms) = ms_next ms"
  by (simp add: on_private_def)

lemma private_socket_keeps:
  assumes "private_socket N p ms = (ms', b)"
  shows "multi_inv ms' = multi_inv ms" "ms_next ms' = ms_next ms" "usable j ms' \<Longrightarrow> usable j ms"
proof -
  have waked: "multi_inv (m\<lparr>ms_wakes := n\<rparr>) = multi_inv m" "usable j (m\<lparr>ms_wakes := n\<rparr>) = usable j m" for m n
    by (simp_all add: multi_inv_def usable_def)
  show "multi_inv ms' = multi_inv ms" "ms_next ms' = ms_next ms" using assms
    by (auto simp: private_socket_def Let_def on_private_inv waked split: if_splits sum.splits)
  show "usable j ms' \<Longrightarrow> usable j ms" using assms
    by (auto simp: private_socket_def Let_def waked split: if_splits sum.splits elim!: on_private_usable [rotated -1])
qed

lemma try_send_keeps:
  assumes "multi_try_send N t ms = (ms', asked, r)"
  shows "multi_inv ms' = multi_inv ms" "ms_next ms' = ms_next ms" "usable j ms' \<Longrightarrow> usable j ms"
proof -
  have dead: "multi_inv (on_private i (\<lambda>p. p\<lparr>ps_failed := True, ps_open := False\<rparr>) m) = multi_inv m" for i m
    by (rule on_private_inv) simp
  have dead_usable: "usable j (on_private i (\<lambda>p. p\<lparr>ps_failed := True, ps_open := False\<rparr>) m) \<Longrightarrow> usable j m" for i m
    by (erule on_private_usable [rotated -1]) simp_all
  have "ms' = ms \<or> (\<exists>p m b. private_socket N p ms = (m, b) \<and>
      (ms' = m \<or> ms' = on_private (ps_id p) (\<lambda>p. p\<lparr>ps_failed := True, ps_open := False\<rparr>) m))"
    using assms unfolding multi_try_send_def Let_def
    by (auto split: option.splits prod.splits bool.splits sum.splits if_splits)
  then show "multi_inv ms' = multi_inv ms" "ms_next ms' = ms_next ms" "usable j ms' \<Longrightarrow> usable j ms"
    using private_socket_keeps dead dead_usable by (metis on_private_next)+
qed

lemma try_send_uses:
  assumes "multi_try_send N t ms = (ms', asked, r)" "(Private i, u) \<in> set asked"
  shows "usable i ms \<and> u = t\<lparr>tr_src_ip := None\<rparr> \<and>
    (\<exists>p \<in> set (ms_privates ms). ps_id p = i \<and> ps_peer p = tr_destination t)"
  using assms
  by (auto simp: multi_try_send_def Let_def listener_send_def usable_def dest!: find_Some_set
      split: option.splits prod.splits bool.splits sum.splits if_splits)

lemma multi_op_keeps:
  assumes "multi_op op ms = (ms', asked)" "multi_inv ms"
  shows "multi_inv ms'" "ms_next ms \<le> ms_next ms'" "i < ms_next ms \<Longrightarrow> usable i ms' \<Longrightarrow> usable i ms"
proof (atomize (full), cases op)
  case (OpAdopt local_ip peer)
  then show "multi_inv ms' \<and> ms_next ms \<le> ms_next ms' \<and> (i < ms_next ms \<longrightarrow> usable i ms' \<longrightarrow> usable i ms)"
    using assms by (fastforce simp: multi_adopt_def multi_inv_def usable_def image_subset_iff less_SucI)
next
  case (OpDrop guard)
  then show "multi_inv ms' \<and> ms_next ms \<le> ms_next ms' \<and> (i < ms_next ms \<longrightarrow> usable i ms' \<longrightarrow> usable i ms)"
    using assms by (auto simp: close_private_def multi_inv_def usable_def distinct_map inj_on_def image_subset_iff)
next
  case (OpSend N t)
  then show "multi_inv ms' \<and> ms_next ms \<le> ms_next ms' \<and> (i < ms_next ms \<longrightarrow> usable i ms' \<longrightarrow> usable i ms)"
    using assms try_send_keeps [of N t ms] by (auto split: prod.splits)
next
  case (OpRecv N)
  then show "multi_inv ms' \<and> ms_next ms \<le> ms_next ms' \<and> (i < ms_next ms \<longrightarrow> usable i ms' \<longrightarrow> usable i ms)"
    using assms by (auto simp: multi_poll_recv_def multi_inv_def usable_def image_subset_iff)
qed

lemma multi_run_unusable:
  assumes "multi_inv ms" "i < ms_next ms" "\<not> usable i ms" "multi_run ops ms = (ms', asked)"
  shows "\<not> usable i ms' \<and> (\<forall>u. (Private i, u) \<notin> set asked)"
  using assms
proof (induction ops arbitrary: ms asked)
  case (Cons op ops)
  obtain m1 a1 a2 where op: "multi_op op ms = (m1, a1)" and run: "multi_run ops m1 = (ms', a2)" "asked = a1 @ a2"
    using Cons.prems(4) by (auto split: prod.splits)
  have "\<forall>u. (Private i, u) \<notin> set a1"
    using op Cons.prems(3) by (cases op) (auto split: prod.splits dest: try_send_uses)
  with Cons.IH [OF multi_op_keeps(1) [OF op Cons.prems(1)] _ _ run(1)] run(2)
    multi_op_keeps(2) [OF op Cons.prems(1)] multi_op_keeps(3) [OF op Cons.prems(1), of i] Cons.prems(2,3)
  show ?case by auto
qed simp

lemma multi_run_inv: "multi_inv ms \<Longrightarrow> multi_run ops ms = (ms', asked) \<Longrightarrow> multi_inv ms'"
proof (induction ops arbitrary: ms asked)
  case (Cons op ops)
  obtain m1 a1 where op: "multi_op op ms = (m1, a1)" by fastforce
  with Cons.prems(2) obtain a2 where "multi_run ops m1 = (ms', a2)" by (auto split: prod.splits)
  with Cons.IH multi_op_keeps(1) [OF op Cons.prems(1)] show ?case by blast
qed simp

section \<open>Properties\<close>

text \<open>C22. Sending through private sockets is transparent to the QUIC driver, whatever the kernel answers.
  The errors that would stop the driver for good (a socket shut down, a local address gone) never reach
  it; an error that would block reaches it only from the listener, the one socket it waits for; the
  datagram is sent at most once, unchanged but for its source hint, by the listener or by the private
  socket of its own destination; and it is dropped without an error only when the listener cannot send
  it either.\<close>

theorem send_transparent:
  assumes "multi_try_send N t ms = (ms', asked, r)"
  shows "(\<forall>e. r = Inl e \<longrightarrow> \<not> is_dead_socket_error e \<and>
      (io_error_kind e = WouldBlock \<longrightarrow> nt_send N Listener t = Inl e)) \<and>
    length (filter (\<lambda>(s, u). nt_send N s u = Inr ()) asked) \<le> 1 \<and>
    (\<forall>(s, u) \<in> set asked. u\<lparr>tr_src_ip := None\<rparr> = t\<lparr>tr_src_ip := None\<rparr> \<and>
       (\<forall>i. s = Private i \<longrightarrow> (\<exists>p \<in> set (ms_privates ms). ps_id p = i \<and> ps_peer p = tr_destination t \<and> \<not> ps_failed p))) \<and>
    (r = Inr () \<longrightarrow> (\<exists>(s, u) \<in> set asked. nt_send N s u = Inr ()) \<or>
       (\<exists>e. nt_send N Listener t = Inl e \<and> is_dead_socket_error e))"
proof -
  have l: "listener_send N t = ([(Listener, t)], q) \<Longrightarrow>
      (case nt_send N Listener t of Inl e \<Rightarrow> q = (if is_dead_socket_error e then Inr () else Inl e) | Inr _ \<Rightarrow> q = Inr ())" for q
    by (auto simp: listener_send_def is_dead_socket_error_def split: sum.splits if_splits)
  obtain q where q: "listener_send N t = ([(Listener, t)], q)" by (simp add: listener_send_def)
  note lq = l [OF q]
  show ?thesis
  proof (cases "List.find (\<lambda>p. ps_peer p = tr_destination t \<and> \<not> ps_failed p) (ms_privates ms)")
    case None
    then show ?thesis using assms q lq
      by (auto simp: multi_try_send_def split: sum.splits if_splits)
  next
    case (Some p)
    then have p: "p \<in> set (ms_privates ms)" "ps_peer p = tr_destination t" "\<not> ps_failed p"
      using find_Some_set by fastforce+
    obtain m b where m: "private_socket N p ms = (m, b)" by fastforce
    let ?s = "nt_send N (Private (ps_id p)) (t\<lparr>tr_src_ip := None\<rparr>)"
    consider (shut) "\<not> b" | (sent) "b" "?s = Inr ()" | (dead) e where "b" "?s = Inl e" "is_dead_socket_error e"
      | (block) e where "b" "?s = Inl e" "\<not> is_dead_socket_error e" "io_error_kind e = WouldBlock"
      | (other) e where "b" "?s = Inl e" "\<not> is_dead_socket_error e" "io_error_kind e \<noteq> WouldBlock"
      by (metis old.sum.exhaust old.unit.exhaust)
    then show ?thesis
    proof cases
      case shut
      then show ?thesis using assms q lq Some m
        by (auto simp: multi_try_send_def split: sum.splits if_splits)
    next
      case sent
      then show ?thesis using assms Some m p by (auto simp: multi_try_send_def Let_def)
    next
      case dead
      then have "asked = [(Private (ps_id p), t\<lparr>tr_src_ip := None\<rparr>), (Listener, t)]" "r = q"
        using assms Some m q by (simp_all add: multi_try_send_def Let_def)
      then show ?thesis using dead p lq by (auto split: sum.splits if_splits)
    next
      case block
      then have "asked = [(Private (ps_id p), t\<lparr>tr_src_ip := None\<rparr>), (Listener, t)]" "r = q"
        using assms Some m q by (simp_all add: multi_try_send_def Let_def)
      then show ?thesis using block p lq by (auto split: sum.splits if_splits)
    next
      case other
      then show ?thesis using assms Some m p by (auto simp: multi_try_send_def Let_def)
    qed
  qed
qed

definition example_peer :: socket_addr where "example_peer = SocketAddr (V6 0xFFFF0A000001) 4000"

definition example_net :: "unit net" where
  "example_net =
     \<lparr>nt_main_addr = Inr (SocketAddr (V6 0) 22022), nt_call = (\<lambda>_. None), nt_register = None,
      nt_send = (\<lambda>s t. case s of Listener \<Rightarrow> Inr () | Private _ \<Rightarrow> Inl (IoError WouldBlock (Some 11))),
      nt_recv = (\<lambda>_. Pending)\<rparr>"

definition example_transmit :: "unit Transmit" where
  "example_transmit =
     \<lparr>tr_destination = example_peer, tr_ecn = None, tr_contents = (), tr_segment_size = None,
      tr_src_ip = Some (V6 1)\<rparr>"

theorem send_transparent_witness:
  "\<exists>ms' asked r. multi_try_send example_net example_transmit (fst (multi_adopt (V6 1) example_peer multi_new)) = (ms', asked, r)
     \<and> length asked = 2 \<and> length (filter (\<lambda>(s, u). nt_send example_net s u = Inr ()) asked) \<le> 1"
proof -
  let ?ms = "fst (multi_adopt (V6 1) example_peer multi_new)"
  obtain ms' asked r where s: "multi_try_send example_net example_transmit ?ms = (ms', asked, r)"
    by (metis prod_cases3)
  have "length (fst (snd (multi_try_send example_net example_transmit ?ms))) = 2" by code_simp
  with s have "length asked = 2" by simp
  with send_transparent [OF s] s show ?thesis by blast
qed

text \<open>A private socket that could not be opened or used is never used again: from any state a server
  can reach, once a connection's private socket has failed (or its guard was dropped), no later
  datagram is sent through it, whatever is adopted, dropped, sent and received in any order; the
  listener serves that connection.\<close>

theorem failed_socket_retired:
  assumes "multi_run before multi_new = (ms, asked)" "i < ms_next ms"
    and "\<forall>p \<in> set (ms_privates ms). ps_id p = i \<longrightarrow> ps_failed p"
    and "multi_run after ms = (ms', asked')"
  shows "(Private i, u) \<notin> set asked'"
proof -
  have "multi_inv multi_new" by (simp add: multi_inv_def multi_new_def)
  then have "multi_inv ms" using multi_run_inv assms(1) by blast
  then show ?thesis using multi_run_unusable [OF _ assms(2) _ assms(4)] assms(3) by (auto simp: usable_def)
qed

definition example_refusal :: "unit net" where
  "example_refusal = example_net\<lparr>nt_call := (\<lambda>c. if c = SendEmpty then Some (IoError OtherKind (Some 32)) else None)\<rparr>"

theorem failed_socket_retired_witness:
  "\<exists>ms asked ms' asked'. multi_run [OpAdopt (V6 1) example_peer, OpSend example_refusal example_transmit] multi_new = (ms, asked)
     \<and> multi_run [OpSend example_net example_transmit] ms = (ms', asked') \<and> length asked' = 1
     \<and> (Private 0, example_transmit) \<notin> set asked'"
proof -
  let ?before = "[OpAdopt (V6 1) example_peer, OpSend example_refusal example_transmit]"
  obtain ms asked where b: "multi_run ?before multi_new = (ms, asked)" by fastforce
  obtain ms' asked' where a: "multi_run [OpSend example_net example_transmit] ms = (ms', asked')" by fastforce
  have "0 < ms_next (fst (multi_run ?before multi_new))"
    "list_all (\<lambda>p. ps_id p = 0 \<longrightarrow> ps_failed p) (ms_privates (fst (multi_run ?before multi_new)))"
    "length (snd (multi_run [OpSend example_net example_transmit] (fst (multi_run ?before multi_new)))) = 1"
    by code_simp+
  with a b have "0 < ms_next ms" "\<forall>p \<in> set (ms_privates ms). ps_id p = 0 \<longrightarrow> ps_failed p" "length asked' = 1"
    by (simp_all add: list_all_iff)
  with failed_socket_retired [OF b this(1,2) a] a b show ?thesis by blast
qed

end
