(* ===== verification/Nwudp.thy ===== *)
theory Nwudp
  imports Fastsock "HOL-Library.Multiset"
begin

text \<open>
  \<open>hush-core/csrc/nwudp.c\<close>: the table of flows that the UDP shim for macOS keeps, one flow per peer.

  Each definition is what the C function does while it holds the handle's lock once.  A function that
  takes the lock several times (the loops of \<open>reap_flows\<close> and \<open>reserve_unprotected_flow\<close>) is one
  round of its loop here; the theory \<open>Nwsock\<close> puts the rounds in sequence and lets other threads
  run between them.  A Network.framework connection is its remote endpoint, which never changes.
\<close>

section \<open>The table\<close>

definition NWUDP_MAX_UNPROTECTED_FLOWS :: nat where "NWUDP_MAX_UNPROTECTED_FLOWS = 128"
definition NWUDP_UNPROTECTED_IDLE_NS :: u64 where "NWUDP_UNPROTECTED_IDLE_NS = 3 * 1000 * 1000 * 1000"
definition PENDING_MAX :: nat where "PENDING_MAX = 64"

text \<open>A \<open>struct sockaddr\<close> as the memory of its fields, in network byte order.\<close>

datatype sockaddr = NullAddr | Inet "byte list" "byte list" | Inet6 "byte list" "byte list" | OtherFamily

record flow =
  fl_id :: u64
  fl_conn :: sockaddr
  fl_ready :: bool
  fl_protected :: bool
  fl_last_activity :: u64
  fl_pending :: "byte list list"

record nwudp =
  h_flows :: "flow list"
  h_max_unprotected_flows :: nat
  h_next_id :: u64

definition nwudp_create :: nwudp where
  "nwudp_create = \<lparr>h_flows = [], h_max_unprotected_flows = NWUDP_MAX_UNPROTECTED_FLOWS, h_next_id = 0\<rparr>"

definition find_flow :: "nwudp \<Rightarrow> u64 \<Rightarrow> flow option" where
  "find_flow h i = find (\<lambda>f. fl_id f = i) (h_flows h)"

text \<open>The place of a flow is taken by the last one of the array.\<close>

fun flow_index :: "u64 \<Rightarrow> flow list \<Rightarrow> nat option" where
  "flow_index i [] = None"
| "flow_index i (f # fs) = (if fl_id f = i then Some 0 else map_option Suc (flow_index i fs))"

definition take_flow :: "nwudp \<Rightarrow> u64 \<Rightarrow> nwudp \<times> flow option" where
  "take_flow h i =
     (case flow_index i (h_flows h) of
        None \<Rightarrow> (h, None)
      | Some n \<Rightarrow> (h\<lparr>h_flows := butlast ((h_flows h)[n := last (h_flows h)])\<rparr>, Some (h_flows h ! n)))"

fun modify_flow :: "(flow \<Rightarrow> flow) \<Rightarrow> u64 \<Rightarrow> flow list \<Rightarrow> flow list" where
  "modify_flow g i [] = []"
| "modify_flow g i (f # fs) = (if fl_id f = i then g f # fs else f # modify_flow g i fs)"

section \<open>Flows nobody vouches for\<close>

text \<open>The scan both loops make: the oldest unprotected flow, its last activity, and how many there are.\<close>

fun scan :: "flow list \<Rightarrow> u64 \<times> u64 \<times> nat \<Rightarrow> u64 \<times> u64 \<times> nat" where
  "scan [] acc = acc"
| "scan (f # fs) (victim, oldest, unprotected) =
     (if fl_protected f then scan fs (victim, oldest, unprotected)
      else if fl_last_activity f < oldest then scan fs (fl_id f, fl_last_activity f, unprotected + 1)
      else scan fs (victim, oldest, unprotected + 1))"

abbreviation scan_start :: "u64 \<times> u64 \<times> nat" where
  "scan_start \<equiv> (0, - 1, 0)"

text \<open>A round of \<open>reap_flows\<close>: the clock was read before the lock was taken.\<close>

definition reap_round :: "u64 \<Rightarrow> nwudp \<Rightarrow> nwudp \<times> flow option" where
  "reap_round now h =
     (case scan (h_flows h) scan_start of (victim, oldest, unprotected) \<Rightarrow>
        let over_limit = h_max_unprotected_flows h < unprotected;
            idle = victim \<noteq> 0 \<and> NWUDP_UNPROTECTED_IDLE_NS \<le> now - oldest
        in if over_limit \<or> idle then take_flow h victim else (h, None))"

text \<open>A round of \<open>reserve_unprotected_flow\<close>: it returns, or it closes a flow and goes on.\<close>

datatype reserve_result = Reserved | Refused | Evicted flow

definition reserve_round :: "nwudp \<Rightarrow> nwudp \<times> reserve_result" where
  "reserve_round h =
     (case scan (h_flows h) scan_start of (victim, oldest, unprotected) \<Rightarrow>
        if unprotected < h_max_unprotected_flows h then (h, Reserved)
        else case (if victim \<noteq> 0 then take_flow h victim else (h, None)) of
               (h, Some f) \<Rightarrow> (h, Evicted f)
             | (h, None) \<Rightarrow> (h, Refused))"

section \<open>The calls of the owner\<close>

text \<open>\<open>add_flow\<close>; memory may run out.\<close>

definition add_flow :: "bool \<Rightarrow> u64 \<Rightarrow> sockaddr \<Rightarrow> nwudp \<Rightarrow> nwudp \<times> u64 option" where
  "add_flow memory now conn h =
     (if \<not> memory then (h, None)
      else
        (let i = h_next_id h + 1
         in (h\<lparr>h_next_id := i,
               h_flows := h_flows h @ [\<lparr>fl_id = i, fl_conn = conn, fl_ready = False, fl_protected = False,
                                        fl_last_activity = now, fl_pending = []\<rparr>]\<rparr>, Some i)))"

definition nwudp_protect_flow :: "nwudp \<Rightarrow> u64 \<Rightarrow> nwudp" where
  "nwudp_protect_flow h i = h\<lparr>h_flows := modify_flow (\<lambda>f. f\<lparr>fl_protected := True\<rparr>) i (h_flows h)\<rparr>"

text \<open>The start of \<open>flow_ready\<close>: the flow with the datagrams that waited for it.\<close>

definition flow_ready :: "u64 \<Rightarrow> u64 \<Rightarrow> nwudp \<Rightarrow> nwudp \<times> flow option" where
  "flow_ready now i h =
     (h\<lparr>h_flows := modify_flow (\<lambda>f. f\<lparr>fl_ready := True, fl_last_activity := now, fl_pending := []\<rparr>) i (h_flows h)\<rparr>,
      find_flow h i)"

definition touch_flow :: "u64 \<Rightarrow> u64 \<Rightarrow> nwudp \<Rightarrow> nwudp" where
  "touch_flow now i h = h\<lparr>h_flows := modify_flow (\<lambda>f. f\<lparr>fl_last_activity := now\<rparr>) i (h_flows h)\<rparr>"

text \<open>A buffer as datagrams of \<open>seg\<close> bytes, the last one maybe shorter.\<close>

function segments :: "nat \<Rightarrow> byte list \<Rightarrow> byte list list" where
  "segments seg [] = []"
| "segments 0 (b # bs) = []"
| "segments (Suc n) (b # bs) = take (Suc n) (b # bs) # segments (Suc n) (drop (Suc n) (b # bs))"
  by pat_completeness auto
termination by (relation "measure (length \<circ> snd)") auto

text \<open>
  \<open>nwudp_send\<close>: the result code and what goes out now.  A flow that is not ready keeps as many of
  the datagrams as it has room for.  \<open>copies\<close> is the number of datagrams there is memory to copy.
  The callers pass a segment size of at least one.
\<close>

definition nwudp_send ::
  "nat \<Rightarrow> u64 \<Rightarrow> nwudp \<Rightarrow> u64 \<Rightarrow> byte list \<Rightarrow> nat \<Rightarrow> nwudp \<times> int \<times> byte list list" where
  "nwudp_send copies now h i contents seg =
     (case find_flow h i of
        None \<Rightarrow> (h, -1, [])
      | Some f \<Rightarrow>
          if \<not> fl_ready f
          then let kept = take (PENDING_MAX - length (fl_pending f)) (segments seg contents)
               in (h\<lparr>h_flows := modify_flow (\<lambda>f. f\<lparr>fl_last_activity := now,
                        fl_pending := fl_pending f @ take copies kept\<rparr>) i (h_flows h)\<rparr>,
                   if copies < length kept then -1 else 0, [])
          else (touch_flow now i h, 0, take copies (segments seg contents)))"

text \<open>\<open>nwudp_connect\<close>: a client's flow, which the reaper never takes.  The number 0 is a failure.\<close>

definition nwudp_connect :: "bool \<Rightarrow> u64 \<Rightarrow> sockaddr \<Rightarrow> nwudp \<Rightarrow> nwudp \<times> u64" where
  "nwudp_connect memory now conn h =
     (case add_flow memory now conn h of
        (h, None) \<Rightarrow> (h, 0)
      | (h, Some i) \<Rightarrow> (nwudp_protect_flow h i, i))"

section \<open>Lemmas\<close>

named_theorems flow_simps

definition live :: "nwudp \<Rightarrow> u64 set" where
  [simp]: "live h = fl_id ` set (h_flows h)"

definition unprotected_flows :: "flow list \<Rightarrow> flow list" where
  "unprotected_flows = filter (\<lambda>f. \<not> fl_protected f)"

text \<open>The numbers of the table: all different, none zero, none beyond the last one given out.\<close>

definition table_ok :: "nwudp \<Rightarrow> bool" where
  "table_ok h \<longleftrightarrow> distinct (map fl_id (h_flows h)) \<and> (\<forall>i \<in> live h. i \<noteq> 0 \<and> i \<le> h_next_id h) \<and>
     (\<forall>f \<in> set (h_flows h). length (fl_pending f) \<le> PENDING_MAX \<and> (fl_ready f \<longrightarrow> fl_pending f = []))"

lemma flow_index_None: "flow_index i fs = None \<longleftrightarrow> i \<notin> fl_id ` set fs"
  by (induction fs) auto

lemma flow_index_Some: "flow_index i fs = Some n \<Longrightarrow> n < length fs \<and> fl_id (fs ! n) = i"
  by (induction fs arbitrary: n) (auto split: if_splits)

lemma mset_swap_remove:
  "n < length fs \<Longrightarrow> mset fs = add_mset (fs ! n) (mset (butlast (fs[n := last fs])))"
proof (cases fs rule: rev_cases)
  case (snoc gs g)
  assume n: "n < length fs"
  show ?thesis
  proof (cases "n = length gs")
    case True
    then show ?thesis using snoc by (simp add: butlast_append)
  next
    case False
    then have "n < length gs" using n snoc by simp
    then show ?thesis using snoc
      by (simp add: nth_append list_update_append mset_update)
  qed
qed simp

lemma take_flow_Some:
  "take_flow h i = (h', Some f) \<Longrightarrow>
     mset (h_flows h) = add_mset f (mset (h_flows h')) \<and> fl_id f = i \<and> h_next_id h' = h_next_id h \<and>
     h_max_unprotected_flows h' = h_max_unprotected_flows h"
  using flow_index_Some [of i "h_flows h"]
  by (auto simp: take_flow_def mset_swap_remove split: option.splits)

lemma take_flow_None: "take_flow h i = (h', None) \<longleftrightarrow> h' = h \<and> i \<notin> live h"
  by (auto simp: take_flow_def flow_index_None [symmetric] split: option.splits)

lemma take_flow_table:
  assumes "take_flow h i = (h', Some f)" "table_ok h"
  shows "table_ok h'" "set (h_flows h') = set (h_flows h) - {f}" "live h' = live h - {i}" "f \<in> set (h_flows h)"
proof -
  have m: "mset (h_flows h) = add_mset f (mset (h_flows h'))" and i: "fl_id f = i"
    and n: "h_next_id h' = h_next_id h"
    using take_flow_Some [OF assms(1)] by auto
  have "mset (map fl_id (h_flows h)) = mset (i # map fl_id (h_flows h'))" using m i by simp
  then have d: "distinct (i # map fl_id (h_flows h'))"
    using assms(2) mset_eq_imp_distinct_iff unfolding table_ok_def by blast
  have s: "set (h_flows h) = insert f (set (h_flows h'))" using arg_cong [OF m, of set_mset] by simp
  have new: "i \<notin> live h'" using d by auto
  then show "set (h_flows h') = set (h_flows h) - {f}" using s i by auto
  show "live h' = live h - {i}" using s i new by auto
  show "table_ok h'" using assms(2) d s n by (auto simp: table_ok_def)
  show "f \<in> set (h_flows h)" using s by simp
qed

lemma unprotected_take:
  "take_flow h i = (h', Some f) \<Longrightarrow>
     length (unprotected_flows (h_flows h)) = length (unprotected_flows (h_flows h')) + (if fl_protected f then 0 else 1)"
  using arg_cong [of _ _ "\<lambda>m. size (filter_mset (\<lambda>f. \<not> fl_protected f) m)", OF conjunct1 [OF take_flow_Some]]
  by (simp add: unprotected_flows_def flip: mset_filter)

lemma modify_flow_ids [flow_simps]: "(\<And>f. fl_id (g f) = fl_id f) \<Longrightarrow> map fl_id (modify_flow g i fs) = map fl_id fs"
  by (induction fs) auto

lemma modify_flow_live [flow_simps]: "(\<And>f. fl_id (g f) = fl_id f) \<Longrightarrow> fl_id ` set (modify_flow g i fs) = fl_id ` set fs"
  using modify_flow_ids by (metis list.set_map)

lemma modify_flow_set:
  "distinct (map fl_id fs) \<Longrightarrow>
     set (modify_flow g i fs) = {f \<in> set fs. fl_id f \<noteq> i} \<union> g ` {f \<in> set fs. fl_id f = i}"
  by (induction fs) (auto simp: image_iff)

lemma modify_flow_other:
  "(\<And>f. fl_id (g f) = fl_id f) \<Longrightarrow> f \<in> set (modify_flow g i fs) \<Longrightarrow> \<exists>f' \<in> set fs. f = f' \<or> fl_id f' = i \<and> f = g f'"
  by (induction fs) (auto split: if_splits)

lemma modify_flow_unprotected:
  "(\<And>f. fl_protected f \<Longrightarrow> fl_protected (g f)) \<Longrightarrow>
     length (unprotected_flows (modify_flow g i fs)) \<le> length (unprotected_flows fs)"
  by (induction fs) (auto simp: unprotected_flows_def)

lemma find_flow_Some: "find_flow h i = Some f \<Longrightarrow> f \<in> set (h_flows h) \<and> fl_id f = i"
  by (auto simp: find_flow_def find_Some_iff)

lemma find_flow_None: "find_flow h i = None \<longleftrightarrow> i \<notin> live h"
  by (auto simp: find_flow_def find_None_iff)

lemma scan_finds:
  "scan fs (v0, o0, u0) = (v, oldest, u) \<Longrightarrow>
     u = u0 + length (unprotected_flows fs) \<and> oldest \<le> o0 \<and> (\<forall>g \<in> set (unprotected_flows fs). oldest \<le> fl_last_activity g) \<and>
     ((v, oldest) = (v0, o0) \<or> (\<exists>f \<in> set (unprotected_flows fs). fl_id f = v \<and> fl_last_activity f = oldest))"
proof (induction fs "(v0, o0, u0)" arbitrary: v0 o0 u0 rule: scan.induct)
  case (2 f fs v0 o0 u0)
  consider "fl_protected f" | "\<not> fl_protected f" "fl_last_activity f < o0" | "\<not> fl_protected f" "\<not> fl_last_activity f < o0"
    by blast
  then show ?case
  proof cases
    case 1
    then show ?thesis using 2(1) [OF 1] 2(4) by (simp add: unprotected_flows_def)
  next
    case b: 2
    then have "scan fs (fl_id f, fl_last_activity f, u0 + 1) = (v, oldest, u)" using 2(4) by simp
    from 2(2) [OF b this] b show ?thesis by (auto simp: unprotected_flows_def)
  next
    case 3
    then have "scan fs (v0, o0, u0 + 1) = (v, oldest, u)" using 2(4) by simp
    from 2(3) [OF 3 this] 3 show ?thesis by (auto simp: unprotected_flows_def)
  qed
qed (simp add: unprotected_flows_def)

lemma scan_victim:
  assumes "scan (h_flows h) scan_start = (v, oldest, u)" "v \<noteq> 0"
  obtains f where "f \<in> set (h_flows h)" "\<not> fl_protected f" "fl_id f = v" "fl_last_activity f = oldest"
  using scan_finds [OF assms(1)] assms(2) by (auto simp: unprotected_flows_def)

lemma table_ok_unique:
  "table_ok h \<Longrightarrow> f \<in> set (h_flows h) \<Longrightarrow> g \<in> set (h_flows h) \<Longrightarrow> fl_id f = fl_id g \<Longrightarrow> f = g"
  by (auto simp: table_ok_def distinct_map inj_on_def)

text \<open>What a round of the reaper or of the listener closes is an unprotected flow, and the one idle for longest.\<close>

lemma victim_taken:
  assumes "scan (h_flows h) scan_start = (v, oldest, u)" "take_flow h v = (h', Some f)" "table_ok h"
  shows "\<not> fl_protected f \<and> (\<forall>g \<in> set (h_flows h). \<not> fl_protected g \<longrightarrow> fl_last_activity f \<le> fl_last_activity g)"
proof -
  have f: "f \<in> set (h_flows h)" "fl_id f = v"
    using take_flow_table(4) [OF assms(2,3)] take_flow_Some [OF assms(2)] by auto
  with assms(3) have "v \<noteq> 0" by (auto simp: table_ok_def)
  with assms(1) obtain g where g: "g \<in> set (h_flows h)" "\<not> fl_protected g" "fl_id g = v" "fl_last_activity g = oldest"
    by (rule scan_victim)
  have "f = g" using table_ok_unique [OF assms(3) f(1) g(1)] f(2) g(3) by simp
  then show ?thesis using g scan_finds [OF assms(1)] by (auto simp: unprotected_flows_def)
qed

lemma reap_round_spares:
  assumes "reap_round now h = (h', Some f)" "table_ok h"
  shows "\<not> fl_protected f" "take_flow h (fl_id f) = (h', Some f)"
proof -
  obtain v oldest u where sc: "scan (h_flows h) scan_start = (v, oldest, u)" by (metis prod_cases3)
  then have t: "take_flow h v = (h', Some f)" using assms(1) by (auto simp: reap_round_def Let_def split: if_splits)
  show "\<not> fl_protected f" using victim_taken [OF sc t assms(2)] by blast
  show "take_flow h (fl_id f) = (h', Some f)" using t take_flow_Some [OF t] by simp
qed

lemma reap_round_None: "reap_round now h = (h', None) \<Longrightarrow> h' = h"
  by (auto simp: reap_round_def Let_def take_flow_None split: prod.splits if_splits)

lemma reserve_round_cases:
  assumes "reserve_round h = (h', r)" "table_ok h"
  shows "case r of
           Reserved \<Rightarrow> h' = h \<and> length (unprotected_flows (h_flows h)) < h_max_unprotected_flows h
         | Refused \<Rightarrow> h' = h
         | Evicted f \<Rightarrow> \<not> fl_protected f \<and> take_flow h (fl_id f) = (h', Some f)"
proof -
  obtain v oldest u where sc: "scan (h_flows h) scan_start = (v, oldest, u)" by (metis prod_cases3)
  have u: "u = length (unprotected_flows (h_flows h))" using scan_finds [OF sc] by simp
  show ?thesis
  proof (cases r)
    case (Evicted f)
    then have t: "take_flow h v = (h', Some f)"
      using assms(1) sc by (auto simp: reserve_round_def split: if_splits prod.splits option.splits)
    then show ?thesis using victim_taken [OF sc t assms(2)] take_flow_Some [OF t] Evicted by auto
  qed (use assms(1) sc u in \<open>auto simp: reserve_round_def take_flow_None split: if_splits prod.splits option.splits\<close>)
qed

lemma segments_concat: "0 < seg \<Longrightarrow> concat (segments seg bs) = bs"
  by (induction seg bs rule: segments.induct) (auto simp del: take_Suc_Cons drop_Suc_Cons)

lemma segments_size: "d \<in> set (segments seg bs) \<Longrightarrow> d \<noteq> [] \<and> length d \<le> seg"
  by (induction seg bs rule: segments.induct) auto

lemma modify_flow_table:
  assumes "table_ok h" "\<And>f. fl_id (g f) = fl_id f"
    and "\<And>f. f \<in> set (h_flows h) \<Longrightarrow> fl_id f = i \<Longrightarrow>
           length (fl_pending (g f)) \<le> PENDING_MAX \<and> (fl_ready (g f) \<longrightarrow> fl_pending (g f) = [])"
  shows "table_ok (h\<lparr>h_flows := modify_flow g i (h_flows h)\<rparr>)"
proof -
  have "length (fl_pending f) \<le> PENDING_MAX \<and> (fl_ready f \<longrightarrow> fl_pending f = [])"
    if "f \<in> set (modify_flow g i (h_flows h))" for f
    using modify_flow_other [of g f i "h_flows h", OF assms(2) that] assms(1,3) by (auto simp: table_ok_def)
  then show ?thesis using assms(1) modify_flow_ids [of g i "h_flows h"] modify_flow_live [of g i "h_flows h"] assms(2)
    by (simp add: table_ok_def)
qed

lemma protect_flow_table: "table_ok h \<Longrightarrow> table_ok (nwudp_protect_flow h i)"
  unfolding nwudp_protect_flow_def by (rule modify_flow_table) (auto simp: table_ok_def)

lemma flow_ready_table: "table_ok h \<Longrightarrow> table_ok (fst (flow_ready now i h))"
  by (simp add: flow_ready_def modify_flow_table)

lemma touch_flow_table: "table_ok h \<Longrightarrow> table_ok (touch_flow now i h)"
  unfolding touch_flow_def by (rule modify_flow_table) (auto simp: table_ok_def)

lemma nwudp_send_table:
  assumes "table_ok h"
  shows "table_ok (fst (nwudp_send copies now h i contents seg))"
proof (cases "find_flow h i")
  case (Some f)
  have f: "f \<in> set (h_flows h)" "fl_id f = i" using find_flow_Some [OF Some] by auto
  have len: "length (fl_pending f) \<le> PENDING_MAX" using assms f by (auto simp: table_ok_def)
  have only: "g = f" if "g \<in> set (h_flows h)" "fl_id g = i" for g
    using table_ok_unique [OF assms that(1) f(1)] that f by simp
  show ?thesis
  proof (cases "fl_ready f")
    case False
    have "table_ok (h\<lparr>h_flows := modify_flow (\<lambda>f. f\<lparr>fl_last_activity := now, fl_pending := fl_pending f @ ds\<rparr>) i (h_flows h)\<rparr>)"
      if "length ds \<le> PENDING_MAX - length (fl_pending f)" for ds
      using assms that len False only by (intro modify_flow_table) auto
    then show ?thesis using Some False by (simp add: nwudp_send_def Let_def)
  qed (simp add: nwudp_send_def Some touch_flow_table [OF assms])
qed (simp add: nwudp_send_def assms)

lemma unat_next_id: "h_next_id h \<noteq> - 1 \<Longrightarrow> unat (h_next_id h + 1) = unat (h_next_id h) + 1"
  using unatSuc [of "h_next_id h"] add_eq_0_iff [of 1 "h_next_id h"] by (simp add: add.commute del: add_eq_0_iff)

lemma add_flow_table:
  assumes "table_ok h" "h_next_id h \<noteq> - 1" "add_flow memory now conn h = (h', r)"
  shows "table_ok h'"
proof -
  note u = unat_next_id [OF assms(2)]
  have fresh: "h_next_id h + 1 \<notin> live h" and le: "i \<le> h_next_id h + 1" if "i \<in> live h" for i
    using assms(1) u that by (fastforce simp: table_ok_def word_le_nat_alt)+
  have nz: "h_next_id h + 1 \<noteq> 0" using u by (metis add_is_0 unat_0 zero_neq_one)
  have "h_next_id h + 1 \<notin> live h" using fresh by blast
  then show ?thesis
    using assms(1,3) le nz by (auto simp: add_flow_def Let_def table_ok_def split: if_splits)
qed

text \<open>The numbers of the flows the reaper may take.\<close>

definition unprot :: "nwudp \<Rightarrow> u64 set" where
  "unprot h = fl_id ` {f \<in> set (h_flows h). \<not> fl_protected f}"

lemma unprot_live: "unprot h \<subseteq> live h"
  by (auto simp: unprot_def)

lemma modify_flow_unprot:
  assumes "\<And>f. fl_id (g f) = fl_id f" "\<And>f. fl_protected f \<Longrightarrow> fl_protected (g f)"
  shows "unprot (h\<lparr>h_flows := modify_flow g i (h_flows h)\<rparr>) \<subseteq> unprot h"
proof
  fix n
  assume "n \<in> unprot (h\<lparr>h_flows := modify_flow g i (h_flows h)\<rparr>)"
  then obtain f where f: "f \<in> set (modify_flow g i (h_flows h))" "\<not> fl_protected f" "n = fl_id f"
    by (auto simp: unprot_def)
  obtain f' where "f' \<in> set (h_flows h)" "f = f' \<or> f = g f'"
    using modify_flow_other [of g f i "h_flows h", OF assms(1) f(1)] by blast
  moreover from this have "\<not> fl_protected f'" "n = fl_id f'" using f(2,3) assms by (metis, metis)
  ultimately show "n \<in> unprot h" by (simp add: unprot_def)
qed

lemma modify_flow_protects:
  "distinct (map fl_id fs) \<Longrightarrow>
     unprotected_flows (modify_flow (\<lambda>f. f\<lparr>fl_protected := True\<rparr>) i fs) = filter (\<lambda>f. fl_id f \<noteq> i) (unprotected_flows fs)"
proof (induction fs)
  case (Cons f fs)
  show ?case
  proof (cases "fl_id f = i")
    case True
    then have "filter (\<lambda>f. fl_id f \<noteq> i) (unprotected_flows fs) = unprotected_flows fs"
      using Cons(2) by (intro filter_True) (simp add: unprotected_flows_def, metis image_eqI)
    then show ?thesis using True by (simp add: unprotected_flows_def)
  qed (use Cons in \<open>simp add: unprotected_flows_def\<close>)
qed (simp add: unprotected_flows_def)

lemma unprot_protect:
  assumes "table_ok h"
  shows "unprot (nwudp_protect_flow h i) = unprot h - {i}"
proof -
  have eq: "unprot k = fl_id ` set (unprotected_flows (h_flows k))" for k by (simp add: unprot_def unprotected_flows_def)
  have "distinct (map fl_id (h_flows h))" using assms by (simp add: table_ok_def)
  then show ?thesis unfolding eq by (simp add: nwudp_protect_flow_def modify_flow_protects) blast
qed

lemma unprot_flow_ready: "unprot (fst (flow_ready now i h)) \<subseteq> unprot h"
  by (simp add: flow_ready_def modify_flow_unprot)

lemma unprot_touch: "unprot (touch_flow now i h) \<subseteq> unprot h"
  unfolding touch_flow_def by (rule modify_flow_unprot) auto

lemma unprot_send: "unprot (fst (nwudp_send copies now h i contents seg)) \<subseteq> unprot h"
  by (simp add: nwudp_send_def Let_def modify_flow_unprot unprot_touch split: option.split)

lemma unprot_take: "take_flow h i = (h', Some f) \<Longrightarrow> table_ok h \<Longrightarrow> unprot h' \<subseteq> unprot h"
  using take_flow_table(2) by (fastforce simp: unprot_def)

lemma unprot_add: "add_flow memory now conn h = (h', r) \<Longrightarrow> unprot h' \<subseteq> insert (h_next_id h + 1) (unprot h)"
  by (auto simp: add_flow_def Let_def unprot_def split: if_splits)

lemma live_add: "add_flow memory now conn h = (h', r) \<Longrightarrow> live h \<subseteq> live h' \<and> live h' \<subseteq> insert (h_next_id h + 1) (live h)"
  by (auto simp: add_flow_def Let_def split: if_splits)

lemma fresh_id: "table_ok h \<Longrightarrow> h_next_id h \<noteq> - 1 \<Longrightarrow> h_next_id h + 1 \<notin> live h"
  using unat_next_id [of h] by (fastforce simp: table_ok_def word_le_nat_alt)

lemma live_calls [simp]:
  "live (nwudp_protect_flow h i) = live h" "live (fst (flow_ready now i h)) = live h" "live (touch_flow now i h) = live h"
  by (simp_all add: nwudp_protect_flow_def flow_ready_def touch_flow_def modify_flow_live)

text \<open>The connection of a flow stays the same.\<close>

definition conns :: "nwudp \<Rightarrow> (u64 \<times> sockaddr) set" where
  "conns h = (\<lambda>f. (fl_id f, fl_conn f)) ` set (h_flows h)"

lemma modify_flow_conns:
  assumes "\<And>f. fl_id (g f) = fl_id f" "\<And>f. fl_conn (g f) = fl_conn f"
  shows "conns (h\<lparr>h_flows := modify_flow g i (h_flows h)\<rparr>) = conns h"
proof -
  have "(\<lambda>f. (fl_id f, fl_conn f)) ` set (modify_flow g i fs) = (\<lambda>f. (fl_id f, fl_conn f)) ` set fs" for fs
    using assms by (induction fs) auto
  then show ?thesis by (simp add: conns_def)
qed

lemma conns_calls [simp]:
  "conns (nwudp_protect_flow h i) = conns h" "conns (fst (flow_ready now i h)) = conns h" "conns (touch_flow now i h) = conns h"
  by (simp_all add: nwudp_protect_flow_def flow_ready_def touch_flow_def modify_flow_conns)

lemma conns_send [simp]: "conns (fst (nwudp_send copies now h i contents seg)) = conns h"
  by (simp add: nwudp_send_def Let_def modify_flow_conns split: option.split)

lemma conns_take: "take_flow h i = (h', Some f) \<Longrightarrow> table_ok h \<Longrightarrow> conns h' = {x \<in> conns h. fst x \<noteq> i}"
  using take_flow_table(2) [of h i h' f] take_flow_Some [of h i h' f] take_flow_table(4) [of h i h' f] table_ok_unique [of h]
  by (fastforce simp: conns_def)

lemma conns_add: "add_flow memory now conn h = (h', r) \<Longrightarrow> conns h' \<subseteq> insert (h_next_id h + 1, conn) (conns h)"
  by (auto simp: add_flow_def Let_def conns_def split: if_splits)

lemma live_conns: "live h = fst ` conns h"
  by (simp add: conns_def image_image)

lemma live_send [simp]: "live (fst (nwudp_send copies now h i contents seg)) = live h"
  by (simp only: live_conns conns_send)

lemma conns_unique:
  assumes "table_ok h" "(i, c) \<in> conns h" "(i, d) \<in> conns h"
  shows "c = d"
proof -
  from assms(2) obtain f where f: "(i, c) = (fl_id f, fl_conn f)" "f \<in> set (h_flows h)" unfolding conns_def by (rule imageE)
  from assms(3) obtain g where g: "(i, d) = (fl_id g, fl_conn g)" "g \<in> set (h_flows h)" unfolding conns_def by (rule imageE)
  have "f = g" using table_ok_unique [OF assms(1) f(2) g(2)] f(1) g(1) by simp
  then show ?thesis using f(1) g(1) by simp
qed

abbreviation crowd :: "nwudp \<Rightarrow> nat" where
  "crowd h \<equiv> length (unprotected_flows (h_flows h))"

lemma crowd_calls:
  "crowd (nwudp_protect_flow h i) \<le> crowd h" "crowd (fst (flow_ready now i h)) \<le> crowd h" "crowd (touch_flow now i h) \<le> crowd h"
  by (simp_all add: nwudp_protect_flow_def flow_ready_def touch_flow_def modify_flow_unprotected)

lemma crowd_send: "crowd (fst (nwudp_send copies now h i contents seg)) \<le> crowd h"
  by (simp add: nwudp_send_def Let_def modify_flow_unprotected crowd_calls split: option.split)

lemma crowd_take: "take_flow h i = (h', Some f) \<Longrightarrow> crowd h' \<le> crowd h"
  using unprotected_take by fastforce

lemma crowd_add: "add_flow memory now conn h = (h', r) \<Longrightarrow> crowd h' \<le> crowd h + 1"
  by (auto simp: add_flow_def Let_def unprotected_flows_def split: if_splits)

text \<open>What the calls leave alone.\<close>

lemma settings_calls [simp]:
  "h_max_unprotected_flows (nwudp_protect_flow h i) = h_max_unprotected_flows h" "h_next_id (nwudp_protect_flow h i) = h_next_id h"
  "h_max_unprotected_flows (fst (flow_ready now i h)) = h_max_unprotected_flows h" "h_next_id (fst (flow_ready now i h)) = h_next_id h"
  "h_max_unprotected_flows (touch_flow now i h) = h_max_unprotected_flows h" "h_next_id (touch_flow now i h) = h_next_id h"
  by (simp_all add: nwudp_protect_flow_def flow_ready_def touch_flow_def)

lemma settings_send [simp]:
  "h_max_unprotected_flows (fst (nwudp_send copies now h i contents seg)) = h_max_unprotected_flows h"
  "h_next_id (fst (nwudp_send copies now h i contents seg)) = h_next_id h"
  by (simp_all add: nwudp_send_def Let_def split: option.split)

lemma settings_add:
  "add_flow memory now conn h = (h', r) \<Longrightarrow>
     h_max_unprotected_flows h' = h_max_unprotected_flows h \<and> (h_next_id h' = h_next_id h \<or> h_next_id h' = h_next_id h + 1)"
  by (auto simp: add_flow_def Let_def split: if_splits)

declare live_def [simp del]

end
