(* ===== verification/Nwsock.thy ===== *)
theory Nwsock
  imports Nwudp Ip
begin

text \<open>
  \<open>hush-core/src/nwsock.rs\<close> over \<open>csrc/nwudp.c\<close>: the datagram socket of a server on macOS.

  Two kinds of threads share it.  The shim's dispatch queue is serial: its blocks (a new connection,
  a connection ready or failed, a message, the reaper's timer, a requested close) run one after the
  other.  The threads of the program adopt peers, drop guards, send and receive at any time.  Every
  lock is held for one step, so the state has the rest of the block the queue is running, and what
  the other threads still have to do between two of their locks; an event is one step of one thread.
\<close>

section \<open>Addresses\<close>

definition u16_from_be_bytes :: "byte list \<Rightarrow> u16" where
  "u16_from_be_bytes bs = word_of_nat (be_val bs)"

definition sockaddr_to_addr :: "sockaddr \<Rightarrow> socket_addr option" where
  "sockaddr_to_addr sa =
     (case sa of
        NullAddr \<Rightarrow> None
      | Inet a p \<Rightarrow> Some (SocketAddr (V4 (u32_from_be_bytes a)) (u16_from_be_bytes p))
      | Inet6 a p \<Rightarrow> Some (SocketAddr (V6 (word_of_nat (be_val a))) (u16_from_be_bytes p))
      | OtherFamily \<Rightarrow> None)"

definition to_ipv6_mapped :: "u32 \<Rightarrow> 128 word" where
  "to_ipv6_mapped v4 = push_bit 32 0xFFFF + ucast v4"

definition canonical :: "bool \<Rightarrow> socket_addr \<Rightarrow> socket_addr" where
  "canonical ipv6 addr =
     (case (ipv6, sa_ip addr) of
        (True, V4 v4) \<Rightarrow> SocketAddr (V6 (to_ipv6_mapped v4)) (sa_port addr)
      | (False, V6 v6) \<Rightarrow>
          (case to_ipv4_mapped v6 of Some v4 \<Rightarrow> SocketAddr (V4 v4) (sa_port addr) | None \<Rightarrow> addr)
      | _ \<Rightarrow> addr)"

section \<open>State\<close>

definition INBOX_LIMIT :: nat where "INBOX_LIMIT = 16 * 2 ^ 20"

text \<open>The steps of the queue's blocks, each one lock or call.\<close>

datatype queue_step =
    ReserveRound sockaddr bool
  | AddFlow sockaddr bool
  | ReapClock
  | ReapRound u64
  | InsertFlow u64 socket_addr
  | InsertPeer u64 socket_addr
  | CheckProtected u64 socket_addr
  | ProtectFlow u64
  | SetLocal socket_addr
  | SendPending u64 "byte list list"
  | LookupPeer u64 "byte list"
  | PushInbox socket_addr "byte list"
  | Wake
  | RemovePeer u64
  | RemoveFlow u64 socket_addr

text \<open>What the other threads have left to do.\<close>

datatype thread_step =
    AdoptLookup socket_addr
  | AdoptProtect u64
  | DropLookup socket_addr
  | DropClose u64
  | SendTo u64 "byte list" nat nat

record Inner =
  in_handle :: nwudp
  in_flows :: "socket_addr \<rightharpoonup> u64"
  in_peers :: "u64 \<rightharpoonup> socket_addr"
  in_protected :: "socket_addr \<rightharpoonup> nat"
  in_inbox :: "(socket_addr \<times> byte list) list \<times> nat"
  in_waker :: bool
  in_local :: socket_addr
  in_ipv6 :: bool

text \<open>
  The world around: the clock, the block the queue is in, the closes queued behind it, the other
  threads, the guards alive, whether the endpoint waits for its waker, and the datagrams that went out.
\<close>

record nw_world = Inner +
  w_clock :: u64
  w_queue :: "queue_step list"
  w_async :: "u64 list"
  w_threads :: "thread_step list"
  w_guards :: "socket_addr list"
  w_waiting :: bool
  w_sent :: "(u64 \<times> byte list) list"

definition nwsocket_new :: "bool \<Rightarrow> socket_addr \<Rightarrow> u64 \<Rightarrow> nw_world" where
  "nwsocket_new ipv6 local now =
     \<lparr>in_handle = nwudp_create, in_flows = Map.empty, in_peers = Map.empty, in_protected = Map.empty, in_inbox = ([], 0),
      in_waker = False, in_local = local, in_ipv6 = ipv6, w_clock = now, w_queue = [], w_async = [], w_threads = [],
      w_guards = [], w_waiting = False, w_sent = []\<rparr>"

definition is_unspecified :: "ip_addr \<Rightarrow> bool" where
  "is_unspecified ip = (case ip of V4 a \<Rightarrow> a = 0 | V6 a \<Rightarrow> a = 0)"

definition c_string :: "string \<Rightarrow> io_error + string" where
  "c_string s = (if CHR 0x00 \<in> set s then Inl (IoError OtherKind None) else Inr s)"

text \<open>\<open>NwSocket::listen\<close>; \<open>nw_listen\<close> says whether Network.framework made the listener.\<close>

definition nwsocket_listen ::
  "(string option \<Rightarrow> u16 \<Rightarrow> bool) \<Rightarrow> socket_addr \<Rightarrow> nat \<Rightarrow> u64 \<Rightarrow> io_error + nw_world" where
  "nwsocket_listen nw_listen addr max_unprotected_flows now =
     (let socket = nwsocket_new (\<not> is_ipv4 (sa_ip addr)) addr now
      in and_then (if is_unspecified (sa_ip addr) then Inr None
                   else and_then (c_string (show_ip (sa_ip addr))) (\<lambda>h. Inr (Some h))) (\<lambda>host.
         if nw_listen host (sa_port addr)
         then Inr (socket\<lparr>in_handle := (in_handle socket)\<lparr>h_max_unprotected_flows := max_unprotected_flows\<rparr>\<rparr>)
         else Inl (IoError OtherKind None)))"

text \<open>\<open>NwSocket::connect\<close>: the socket and its one flow.\<close>

definition nwsocket_connect :: "bool \<Rightarrow> (string \<Rightarrow> u16 \<Rightarrow> sockaddr) \<Rightarrow> socket_addr \<Rightarrow> u64 \<Rightarrow> io_error + nw_world \<times> u64" where
  "nwsocket_connect memory endpoint addr now =
     (let ipv6 = \<not> is_ipv4 (sa_ip addr);
          socket = nwsocket_new ipv6 (SocketAddr (if ipv6 then V6 0 else V4 0) 0) now
      in and_then (c_string (show_ip (sa_ip addr))) (\<lambda>host.
         case nwudp_connect memory now (endpoint host (sa_port addr)) (in_handle socket) of
           (h, fid) \<Rightarrow>
             if fid = 0 then Inl (IoError OtherKind None)
             else Inr (socket\<lparr>in_handle := h, in_flows := (in_flows socket)(addr \<mapsto> fid),
                              in_peers := (in_peers socket)(fid \<mapsto> addr)\<rparr>, fid)))"

section \<open>The blocks of the dispatch queue\<close>

abbreviation goto :: "queue_step list \<Rightarrow> nw_world \<Rightarrow> nw_world" where
  "goto steps s \<equiv> s\<lparr>w_queue := steps @ w_queue s\<rparr>"

definition on_flow :: "u64 \<Rightarrow> sockaddr \<Rightarrow> sockaddr \<Rightarrow> nw_world \<Rightarrow> queue_step list" where
  "on_flow fid remote local s =
     (case sockaddr_to_addr remote of
        Some remote \<Rightarrow> [InsertFlow fid (canonical (in_ipv6 s) remote)] | None \<Rightarrow> [])
     @ (case sockaddr_to_addr local of Some local \<Rightarrow> [SetLocal local] | None \<Rightarrow> [])"

text \<open>\<open>close_flow\<close>: the flow leaves the table, then \<open>on_close\<close> runs.\<close>

definition close_flow :: "u64 \<Rightarrow> nw_world \<Rightarrow> nw_world" where
  "close_flow fid s =
     (case take_flow (in_handle s) fid of
        (h, Some f) \<Rightarrow> goto [RemovePeer (fl_id f)] (s\<lparr>in_handle := h\<rparr>)
      | (h, None) \<Rightarrow> s)"

text \<open>The critical sections of \<open>on_recv\<close> and \<open>on_close\<close>.\<close>

abbreviation on_recv_push :: "socket_addr \<Rightarrow> byte list \<Rightarrow> nw_world \<Rightarrow> nw_world" where
  "on_recv_push peer bytes s \<equiv>
     (case in_inbox s of (inbox, held) \<Rightarrow>
        if INBOX_LIMIT < held + length bytes then s
        else goto [Wake] (s\<lparr>in_inbox := (inbox @ [(peer, bytes)], held + length bytes)\<rparr>))"

abbreviation on_close_peers :: "u64 \<Rightarrow> nw_world \<Rightarrow> nw_world" where
  "on_close_peers fid s \<equiv>
     (case in_peers s fid of
        None \<Rightarrow> s
      | Some peer \<Rightarrow> goto [RemoveFlow fid peer] (s\<lparr>in_peers := (in_peers s)(fid := None)\<rparr>))"

abbreviation on_close_flows :: "u64 \<Rightarrow> socket_addr \<Rightarrow> nw_world \<Rightarrow> nw_world" where
  "on_close_flows fid peer s \<equiv>
     (if in_flows s peer = Some fid then s\<lparr>in_flows := (in_flows s)(peer := None)\<rparr> else s)"

fun queue_run :: "queue_step \<Rightarrow> nw_world \<Rightarrow> nw_world" where
  "queue_run (ReserveRound conn memory) s =
     (case reserve_round (in_handle s) of
        (h, Reserved) \<Rightarrow> goto [AddFlow conn memory] s
      | (h, Refused) \<Rightarrow> s
      | (h, Evicted f) \<Rightarrow> goto [RemovePeer (fl_id f), ReserveRound conn memory] (s\<lparr>in_handle := h\<rparr>))"
| "queue_run (AddFlow conn memory) s =
     s\<lparr>in_handle := fst (add_flow memory (w_clock s) conn (in_handle s))\<rparr>"
| "queue_run ReapClock s = goto [ReapRound (w_clock s)] s"
| "queue_run (ReapRound now) s =
     (case reap_round now (in_handle s) of
        (h, None) \<Rightarrow> s
      | (h, Some f) \<Rightarrow> goto [RemovePeer (fl_id f), ReapClock] (s\<lparr>in_handle := h\<rparr>))"
| "queue_run (InsertFlow fid remote) s =
     goto [InsertPeer fid remote] (s\<lparr>in_flows := (in_flows s)(remote \<mapsto> fid)\<rparr>)"
| "queue_run (InsertPeer fid remote) s =
     goto [CheckProtected fid remote] (s\<lparr>in_peers := (in_peers s)(fid \<mapsto> remote)\<rparr>)"
| "queue_run (CheckProtected fid remote) s =
     (if in_protected s remote \<noteq> None then goto [ProtectFlow fid] s else s)"
| "queue_run (ProtectFlow fid) s = s\<lparr>in_handle := nwudp_protect_flow (in_handle s) fid\<rparr>"
| "queue_run (SetLocal local) s =
     (if sa_port (in_local s) = 0 then s\<lparr>in_local := canonical (in_ipv6 s) local\<rparr> else s)"
| "queue_run (SendPending fid pending) s = s\<lparr>w_sent := w_sent s @ map (Pair fid) pending\<rparr>"
| "queue_run (LookupPeer fid bytes) s =
     (case in_peers s fid of None \<Rightarrow> s | Some peer \<Rightarrow> goto [PushInbox peer bytes] s)"
| "queue_run (PushInbox peer bytes) s = on_recv_push peer bytes s"
| "queue_run Wake s = (if in_waker s then s\<lparr>in_waker := False, w_waiting := False\<rparr> else s)"
| "queue_run (RemovePeer fid) s = on_close_peers fid s"
| "queue_run (RemoveFlow fid peer) s = on_close_flows fid peer s"

section \<open>The other threads\<close>

definition adopt :: "socket_addr \<Rightarrow> nw_world \<Rightarrow> nw_world" where
  "adopt peer s =
     (let peer = canonical (in_ipv6 s) peer;
          guards = (case in_protected s peer of Some n \<Rightarrow> n | None \<Rightarrow> 0)
      in s\<lparr>in_protected := (in_protected s)(peer \<mapsto> guards + 1), w_guards := peer # w_guards s,
           w_threads := w_threads s @ [AdoptLookup peer]\<rparr>)"

text \<open>Only a guard that is alive can be dropped.\<close>

definition guard_drop :: "socket_addr \<Rightarrow> nw_world \<Rightarrow> nw_world" where
  "guard_drop peer s =
     (if peer \<notin> set (w_guards s) then s
      else
        (let s = s\<lparr>w_guards := remove1 peer (w_guards s)\<rparr>
         in case in_protected s peer of
              None \<Rightarrow> s
            | Some guards \<Rightarrow>
                if guards - 1 > 0 then s\<lparr>in_protected := (in_protected s)(peer \<mapsto> guards - 1)\<rparr>
                else s\<lparr>in_protected := (in_protected s)(peer := None), w_threads := w_threads s @ [DropLookup peer]\<rparr>))"

text \<open>Dropping a client's socket queues the close of its flow.\<close>

definition nwsocket_drop :: "u64 option \<Rightarrow> nw_world \<Rightarrow> nw_world" where
  "nwsocket_drop client_flow s =
     (case client_flow of Some fid \<Rightarrow> s\<lparr>w_async := w_async s @ [fid]\<rparr> | None \<Rightarrow> s)"

definition nw_try_send :: "nat \<Rightarrow> byte list Transmit \<Rightarrow> nw_world \<Rightarrow> nw_world \<times> (io_error + unit)" where
  "nw_try_send copies t s =
     (case in_flows s (tr_destination t) of
        None \<Rightarrow> (s, Inr ())
      | Some fid \<Rightarrow>
          (s\<lparr>w_threads := w_threads s
               @ [SendTo fid (tr_contents t)
                    (max 1 (case tr_segment_size t of Some n \<Rightarrow> n | None \<Rightarrow> length (tr_contents t))) copies]\<rparr>, Inr ()))"

fun thread_run :: "thread_step \<Rightarrow> nw_world \<Rightarrow> nw_world" where
  "thread_run (AdoptLookup peer) s =
     (case in_flows s peer of None \<Rightarrow> s | Some fid \<Rightarrow> s\<lparr>w_threads := w_threads s @ [AdoptProtect fid]\<rparr>)"
| "thread_run (AdoptProtect fid) s = s\<lparr>in_handle := nwudp_protect_flow (in_handle s) fid\<rparr>"
| "thread_run (DropLookup peer) s =
     (case in_flows s peer of None \<Rightarrow> s | Some fid \<Rightarrow> s\<lparr>w_threads := w_threads s @ [DropClose fid]\<rparr>)"
| "thread_run (DropClose fid) s = s\<lparr>w_async := w_async s @ [fid]\<rparr>"
| "thread_run (SendTo fid contents seg copies) s =
     (case nwudp_send copies (w_clock s) (in_handle s) fid contents seg of
        (h, rc, sent) \<Rightarrow> s\<lparr>in_handle := h, w_sent := w_sent s @ map (Pair fid) sent\<rparr>)"

text \<open>
  The loop of \<open>poll_recv\<close> over the buffers, given by their sizes: the datagrams handed out, cut to
  their buffers, and the inbox left.
\<close>

fun drain :: "nat list \<Rightarrow> (socket_addr \<times> byte list) list \<times> nat \<Rightarrow>
    (RecvMeta \<times> byte list) list \<times> (socket_addr \<times> byte list) list \<times> nat" where
  "drain [] inbox = ([], inbox)"
| "drain (buf # bufs) ([], held) = ([], [], held)"
| "drain (buf # bufs) ((peer, bytes) # rest, held) =
     (case drain bufs (rest, held - length bytes) of
        (got, inbox) \<Rightarrow>
          ((\<lparr>rm_addr = peer, rm_len = min (length bytes) buf, rm_dst_ip = None\<rparr>, take buf bytes) # got, inbox))"

text \<open>
  \<open>poll_recv\<close> holds the inbox for all of it.  The waker has a lock of its own, but with the inbox
  locked nothing can be pushed, so a wake-up in between is one before.
\<close>

definition nw_poll_recv :: "nat list \<Rightarrow> nat \<Rightarrow> nw_world \<Rightarrow> nw_world \<times> (RecvMeta \<times> byte list) list poll" where
  "nw_poll_recv bufs metas s =
     (case drain (take metas bufs) (in_inbox s) of
        (got, inbox) \<Rightarrow>
          if got \<noteq> [] then (s\<lparr>in_inbox := inbox, w_waiting := False\<rparr>, Ready got)
          else (s\<lparr>in_inbox := inbox, in_waker := True, w_waiting := (fst inbox = [])\<rparr>, Pending))"

section \<open>One step of one thread\<close>

datatype nw_event =
    Tick u64
  | NewConnection sockaddr bool
  | ReapTimer
  | ConnectionReady u64 sockaddr
  | Message u64 "byte list"
  | ConnectionFailed u64
  | RunAsync
  | RunQueue
  | Adopt socket_addr
  | DropGuard socket_addr
  | Send nat "byte list Transmit"
  | Receive "nat list" nat
  | RunThread nat

text \<open>A block starts when the queue is free; \<open>RunQueue\<close> and \<open>RunThread\<close> go on with what was begun.\<close>

definition block_start :: "nw_event \<Rightarrow> nw_world \<Rightarrow> nw_world" where
  "block_start ev s =
     (case ev of
        NewConnection conn memory \<Rightarrow> goto [ReserveRound conn memory] s
      | ReapTimer \<Rightarrow> goto [ReapClock] s
      | ConnectionReady fid local \<Rightarrow>
          (case flow_ready (w_clock s) fid (in_handle s) of
             (h, None) \<Rightarrow> s
           | (h, Some f) \<Rightarrow>
               goto (on_flow fid (fl_conn f) local s @ [SendPending fid (fl_pending f)]) (s\<lparr>in_handle := h\<rparr>))
      | Message fid bytes \<Rightarrow>
          (case find_flow (in_handle s) fid of
             None \<Rightarrow> s
           | Some f \<Rightarrow>
               goto (if bytes \<noteq> [] then [LookupPeer fid bytes] else [])
                 (s\<lparr>in_handle := touch_flow (w_clock s) fid (in_handle s)\<rparr>))
      | ConnectionFailed fid \<Rightarrow> close_flow fid s
      | RunAsync \<Rightarrow> (case w_async s of [] \<Rightarrow> s | fid # rest \<Rightarrow> close_flow fid (s\<lparr>w_async := rest\<rparr>))
      | _ \<Rightarrow> s)"

definition nw_step :: "nw_event \<Rightarrow> nw_world \<Rightarrow> nw_world" where
  "nw_step ev s =
     (case ev of
        Tick now \<Rightarrow> if w_clock s \<le> now then s\<lparr>w_clock := now\<rparr> else s
      | RunQueue \<Rightarrow> (case w_queue s of [] \<Rightarrow> s | step # rest \<Rightarrow> queue_run step (s\<lparr>w_queue := rest\<rparr>))
      | Adopt peer \<Rightarrow> adopt peer s
      | DropGuard peer \<Rightarrow> guard_drop peer s
      | Send copies t \<Rightarrow> fst (nw_try_send copies t s)
      | Receive bufs metas \<Rightarrow> fst (nw_poll_recv bufs metas s)
      | RunThread n \<Rightarrow>
          if n < length (w_threads s)
          then thread_run (w_threads s ! n) (s\<lparr>w_threads := take n (w_threads s) @ drop (Suc n) (w_threads s)\<rparr>)
          else s
      | _ \<Rightarrow> if w_queue s = [] then block_start ev s else s)"

definition nw_run :: "nw_event list \<Rightarrow> nw_world \<Rightarrow> nw_world" where
  "nw_run evs s = fold nw_step evs s"

text \<open>What an event can do, for the invariants below.\<close>

lemma nw_step_cases:
  assumes "P s" "\<And>now. P (s\<lparr>w_clock := now\<rparr>)"
    and "\<And>x rest. w_queue s = x # rest \<Longrightarrow> P (queue_run x (s\<lparr>w_queue := rest\<rparr>))"
    and "\<And>peer. P (adopt peer s)" "\<And>peer. P (guard_drop peer s)"
    and "\<And>copies t. P (fst (nw_try_send copies t s))" "\<And>bufs metas. P (fst (nw_poll_recv bufs metas s))"
    and "\<And>n. n < length (w_threads s) \<Longrightarrow>
           P (thread_run (w_threads s ! n) (s\<lparr>w_threads := take n (w_threads s) @ drop (Suc n) (w_threads s)\<rparr>))"
    and "w_queue s = [] \<Longrightarrow> P (block_start ev s)"
  shows "P (nw_step ev s)"
  using assms by (cases ev) (auto simp: nw_step_def split: list.splits)

section \<open>Routes\<close>

definition at :: "queue_step \<Rightarrow> queue_step list \<Rightarrow> bool" where
  "at x q \<longleftrightarrow> (\<exists>rest. q = x # rest)"

lemma at_simps [simp]: "\<not> at x []" "at x (y # rest) \<longleftrightarrow> x = y"
  by (auto simp: at_def)

text \<open>What a block still has to do after its current step never touches the tables by itself.\<close>

fun later :: "queue_step \<Rightarrow> bool" where
  "later (ReserveRound _ _) = True"
| "later ReapClock = True"
| "later (SetLocal _) = True"
| "later (SendPending _ _) = True"
| "later _ = False"

definition peer_of :: "bool \<Rightarrow> sockaddr \<Rightarrow> socket_addr option" where
  "peer_of ipv6 conn = map_option (canonical ipv6) (sockaddr_to_addr conn)"

definition current_ok ::
  "bool \<Rightarrow> nwudp \<Rightarrow> (socket_addr \<rightharpoonup> u64) \<Rightarrow> (u64 \<rightharpoonup> socket_addr) \<Rightarrow> queue_step \<Rightarrow> bool" where
  "current_ok ipv6 h fl pe x =
     (case x of
        InsertFlow f a \<Rightarrow> \<exists>c. (f, c) \<in> conns h \<and> peer_of ipv6 c = Some a
      | InsertPeer f a \<Rightarrow> \<exists>c. (f, c) \<in> conns h \<and> peer_of ipv6 c = Some a
      | RemovePeer f \<Rightarrow> f \<notin> live h
      | RemoveFlow f a \<Rightarrow> f \<notin> live h \<and> pe f = None \<and> (\<forall>b. fl b = Some f \<longrightarrow> b = a)
      | _ \<Rightarrow> True)"

definition routes ::
  "bool \<Rightarrow> nwudp \<Rightarrow> (socket_addr \<rightharpoonup> u64) \<Rightarrow> (u64 \<rightharpoonup> socket_addr) \<Rightarrow> queue_step list \<Rightarrow> bool" where
  "routes ipv6 h fl pe q \<longleftrightarrow>
     table_ok h \<and> list_all later (tl q) \<and>
     (\<forall>a f. fl a = Some f \<longrightarrow> pe f = Some a \<or> at (InsertPeer f a) q \<or> at (RemoveFlow f a) q) \<and>
     (\<forall>a f. fl a = Some f \<longrightarrow> f \<in> live h \<or> at (RemovePeer f) q \<or> at (RemoveFlow f a) q) \<and>
     (\<forall>a f. pe f = Some a \<longrightarrow> f \<in> live h \<or> at (RemovePeer f) q) \<and>
     (\<forall>a f c. pe f = Some a \<and> (f, c) \<in> conns h \<longrightarrow> peer_of ipv6 c = Some a) \<and>
     (case q of [] \<Rightarrow> True | x # _ \<Rightarrow> current_ok ipv6 h fl pe x)"

abbreviation routes_of :: "nw_world \<Rightarrow> bool" where
  "routes_of s \<equiv> routes (in_ipv6 s) (in_handle s) (in_flows s) (in_peers s) (w_queue s)"

lemma routes_later:
  assumes "list_all later q"
  shows "routes ipv6 h fl pe q \<longleftrightarrow>
     table_ok h \<and> (\<forall>a f. fl a = Some f \<longrightarrow> pe f = Some a \<and> f \<in> live h) \<and> (\<forall>a f. pe f = Some a \<longrightarrow> f \<in> live h) \<and>
     (\<forall>a f c. pe f = Some a \<and> (f, c) \<in> conns h \<longrightarrow> peer_of ipv6 c = Some a)"
proof (cases q)
  case (Cons x rest)
  then have "later x" "list_all later rest" using assms by auto
  then show ?thesis using Cons by (cases x) (auto simp: routes_def current_ok_def)
qed (auto simp: routes_def)

text \<open>A step that is not one of the five that are in the middle of a change.\<close>

fun middle :: "queue_step \<Rightarrow> bool" where
  "middle (InsertFlow _ _) = True"
| "middle (InsertPeer _ _) = True"
| "middle (RemovePeer _) = True"
| "middle (RemoveFlow _ _) = True"
| "middle _ = False"

lemma routes_calm:
  assumes "\<not> middle x"
  shows "routes ipv6 h fl pe (x # rest) \<longleftrightarrow> list_all later rest \<and> routes ipv6 h fl pe []"
  using assms by (cases x) (auto simp: routes_def current_ok_def)

lemma routes_pop: "list_all later rest \<Longrightarrow> routes ipv6 h fl pe rest \<longleftrightarrow> routes ipv6 h fl pe []"
  by (simp add: routes_later)

text \<open>A change of the table that keeps its connections.\<close>

lemma routes_cong:
  assumes "routes ipv6 h fl pe q" "table_ok h'" "conns h' = conns h"
  shows "routes ipv6 h' fl pe q"
proof -
  have "live h' = live h" using assms(3) by (simp add: live_conns)
  moreover have "current_ok ipv6 h' fl pe = current_ok ipv6 h fl pe" unfolding current_ok_def live_conns assms(3) by (rule refl)
  ultimately show ?thesis using assms by (cases q) (simp_all add: routes_def)
qed

lemma routes_take:
  assumes "routes ipv6 h fl pe []" "take_flow h i = (h', Some f)" "list_all later rest"
  shows "routes ipv6 h' fl pe (RemovePeer (fl_id f) # rest)"
proof -
  have t: "table_ok h" using assms(1) by (simp add: routes_def)
  have i: "fl_id f = i" using take_flow_Some [OF assms(2)] by simp
  show ?thesis
    using assms(1,3) take_flow_table(1,3) [OF assms(2) t] conns_take [OF assms(2) t] i
    by (auto simp: routes_def current_ok_def)
qed

lemma routes_insert_flow:
  assumes "routes ipv6 h fl pe (InsertFlow f a # rest)"
  shows "routes ipv6 h (fl(a \<mapsto> f)) pe (InsertPeer f a # rest)"
proof -
  obtain c where "(f, c) \<in> conns h" using assms by (auto simp: routes_def current_ok_def)
  then have "f \<in> live h" by (force simp: live_conns)
  then show ?thesis using assms by (auto simp: routes_def current_ok_def)
qed

lemma routes_insert_peer:
  assumes "routes ipv6 h fl pe (InsertPeer f a # rest)"
  shows "routes ipv6 h fl (pe(f \<mapsto> a)) (CheckProtected f a # rest)"
proof -
  obtain c where c: "(f, c) \<in> conns h" "peer_of ipv6 c = Some a" using assms by (auto simp: routes_def current_ok_def)
  have t: "table_ok h" "list_all later rest" using assms by (simp_all add: routes_def)
  have same: "d = c" if "(f, d) \<in> conns h" for d using conns_unique [OF t(1) that c(1)] .
  have agree: "peer_of ipv6 d = Some b" if "pe g = Some b" "(g, d) \<in> conns h" for g b d
    using assms that by (simp add: routes_def)
  have fpe: "b = a" if "pe f = Some b" for b using agree [OF that c(1)] c(2) by simp
  have live: "f \<in> live h" using c(1) by (force simp: live_conns)
  have fl: "(pe(f \<mapsto> a)) g = Some b" "g \<in> live h" if "fl b = Some g" for b g
  proof -
    have "pe g = Some b \<or> f = g \<and> a = b" using assms that by (auto simp: routes_def)
    then show "(pe(f \<mapsto> a)) g = Some b" using fpe by auto
    show "g \<in> live h" using assms that by (auto simp: routes_def)
  qed
  have pe: "g \<in> live h" if "(pe(f \<mapsto> a)) g = Some b" for b g
    using assms that live by (auto simp: routes_def split: if_splits)
  have "peer_of ipv6 d = Some b" if "(pe(f \<mapsto> a)) g = Some b" "(g, d) \<in> conns h" for b g d
    using that same c(2) agree by (cases "g = f") auto
  with t(1) fl pe have "routes ipv6 h fl (pe(f \<mapsto> a)) []" unfolding routes_def by (simp del: fun_upd_apply) blast
  with t(2) show ?thesis by (simp add: routes_calm)
qed

lemma routes_remove_peer:
  assumes "routes ipv6 h fl pe (RemovePeer f # rest)"
  shows "case pe f of None \<Rightarrow> routes ipv6 h fl pe rest | Some a \<Rightarrow> routes ipv6 h fl (pe(f := None)) (RemoveFlow f a # rest)"
proof (cases "pe f")
  case None
  have later: "list_all later rest" using assms by (simp add: routes_def)
  have "g \<in> live h" if "pe g = Some b" for g b using that assms None by (fastforce simp: routes_def)
  then have "routes ipv6 h fl pe rest" using assms unfolding routes_later [OF later] by (simp add: routes_def)
  then show ?thesis using None by simp
next
  case (Some a)
  have "pe g = Some b" "g \<in> live h \<or> g = f" if "fl b = Some g" for g b
    using assms that by (auto simp: routes_def)
  moreover from this have "b = a" if "fl b = Some f" for b using that Some by fastforce
  ultimately have "(pe(f := None)) g = Some b \<or> g = f \<and> b = a" "g \<in> live h \<or> g = f \<and> b = a"
    if "fl b = Some g" for g b using that by (cases "g = f"; simp; blast)+
  then show ?thesis using assms Some by (auto simp: routes_def current_ok_def)
qed

lemma routes_remove_flow:
  assumes "routes ipv6 h fl pe (RemoveFlow f a # rest)"
  shows "routes ipv6 h (if fl a = Some f then fl(a := None) else fl) pe rest"
proof -
  let ?fl = "if fl a = Some f then fl(a := None) else fl"
  have only: "b = a" if "fl b = Some f" for b using assms that by (simp add: routes_def current_ok_def)
  have later: "list_all later rest" using assms by (simp add: routes_def)
  have "pe g = Some b \<and> g \<in> live h" if "?fl b = Some g" for b g
  proof -
    have "fl b = Some g" "g \<noteq> f" using that only [of b] by (auto split: if_splits)
    moreover from this have "pe g = Some b" using assms unfolding routes_def by fastforce
    ultimately show ?thesis using assms by (auto simp: routes_def)
  qed
  with assms show ?thesis unfolding routes_later [OF later] by (simp add: routes_def del: fun_upd_apply)
qed

text \<open>The routes between two changes: every one leads to a live flow of that peer.\<close>

lemma routes_idle:
  "routes ipv6 h fl pe [] \<longleftrightarrow>
     table_ok h \<and> (\<forall>a f. fl a = Some f \<longrightarrow> pe f = Some a \<and> f \<in> live h) \<and> (\<forall>a f. pe f = Some a \<longrightarrow> f \<in> live h) \<and>
     (\<forall>a f c. pe f = Some a \<and> (f, c) \<in> conns h \<longrightarrow> peer_of ipv6 c = Some a)"
  by (simp add: routes_later)

lemma routes_add:
  assumes "routes ipv6 h fl pe []" "h_next_id h \<noteq> - 1" "add_flow memory now conn h = (h', r)"
  shows "routes ipv6 h' fl pe []"
proof -
  have t: "table_ok h" using assms(1) by (simp add: routes_idle)
  have new: "h_next_id h + 1 \<notin> live h" using fresh_id [OF t assms(2)] .
  have pe: "g \<in> live h" if "pe g = Some a" for g a using assms(1) that by (simp add: routes_idle)
  have "peer_of ipv6 c = Some a" if "pe g = Some a" "(g, c) \<in> conns h'" for g a c
  proof -
    have "g \<noteq> h_next_id h + 1" using pe [OF that(1)] new by metis
    then have "(g, c) \<in> conns h" using that(2) conns_add [OF assms(3)] by blast
    then show ?thesis using assms(1) that(1) by (simp add: routes_idle)
  qed
  moreover have "live h \<subseteq> live h'" using live_add [OF assms(3)] by simp
  moreover have "pe f = Some a \<and> f \<in> live h" if "fl a = Some f" for a f using assms(1) that by (simp add: routes_idle)
  ultimately show ?thesis unfolding routes_idle using add_flow_table [OF t assms(2,3)] pe by (simp add: subset_iff) metis
qed

lemma queue_run_routes:
  assumes "routes_of (s\<lparr>w_queue := x # rest\<rparr>)" "h_next_id (in_handle s) \<noteq> - 1"
  shows "routes_of (queue_run x (s\<lparr>w_queue := rest\<rparr>))"
proof (cases "middle x")
  case True
  then show ?thesis
  proof (cases x)
    case (RemovePeer f)
    then show ?thesis using assms(1) routes_remove_peer [of "in_ipv6 s" "in_handle s" "in_flows s" "in_peers s" f rest]
      by (cases "in_peers s f") simp_all
  next
    case (RemoveFlow f a)
    then show ?thesis using assms(1) routes_remove_flow [of "in_ipv6 s" "in_handle s" "in_flows s" "in_peers s" f a rest]
      by (simp split: if_splits)
  qed (use assms(1) in \<open>simp_all add: routes_insert_flow routes_insert_peer\<close>)
next
  case False
  then have later: "list_all later rest" and base: "routes (in_ipv6 s) (in_handle s) (in_flows s) (in_peers s) []"
    using assms(1) by (simp_all add: routes_calm)
  have t: "table_ok (in_handle s)" using base by (simp add: routes_def)
  note pop = routes_pop [OF later] base
  show ?thesis
  proof (cases x)
    case (ReserveRound conn memory)
    obtain h r where "reserve_round (in_handle s) = (h, r)" by fastforce
    then show ?thesis
      using reserve_round_cases [OF _ t, of h r] routes_take [OF base, of _ h _ "ReserveRound conn memory # rest"]
        later pop ReserveRound by (auto simp: routes_calm split: reserve_result.splits)
  next
    case (AddFlow conn memory)
    then show ?thesis using routes_add [OF base assms(2)] pop by (simp add: routes_pop [OF later]) (metis prod.collapse)
  next
    case (ReapRound now)
    obtain h r where r: "reap_round now (in_handle s) = (h, r)" by fastforce
    show ?thesis
    proof (cases r)
      case (Some f)
      then show ?thesis
        using routes_take [OF base reap_round_spares(2) [OF _ t], of now h f "ReapClock # rest"] r later ReapRound by simp
    qed (use r pop ReapRound in simp)
  next
    case (ProtectFlow f)
    then show ?thesis using routes_cong [OF base protect_flow_table [OF t]] pop by simp
  qed (use pop False in \<open>simp_all add: routes_calm later split: option.split prod.split\<close>)
qed

lemma thread_run_routes:
  assumes "routes_of s"
  shows "routes_of (thread_run x s)"
proof -
  have t: "table_ok (in_handle s)" using assms by (simp add: routes_def)
  show ?thesis
  proof (cases x)
    case (AdoptProtect f)
    then show ?thesis using routes_cong [OF assms protect_flow_table [OF t]] by simp
  next
    case (SendTo f contents seg copies)
    let ?r = "nwudp_send copies (w_clock s) (in_handle s) f contents seg"
    have "routes (in_ipv6 s) (fst ?r) (in_flows s) (in_peers s) (w_queue s)"
      using routes_cong [OF assms nwudp_send_table [OF t]] by simp
    then show ?thesis using SendTo by (cases ?r) simp
  qed (use assms in \<open>simp_all split: option.split\<close>)
qed

lemma close_flow_routes:
  assumes "routes_of s" "w_queue s = []"
  shows "routes_of (close_flow f s)"
proof -
  obtain h r where "take_flow (in_handle s) f = (h, r)" by fastforce
  then show ?thesis
    using assms routes_take [of "in_ipv6 s" "in_handle s" "in_flows s" "in_peers s" f h _ "[]"]
    by (cases r) (simp_all add: close_flow_def)
qed

lemma block_start_routes:
  assumes "routes_of s" "w_queue s = []"
  shows "routes_of (block_start ev s)"
proof -
  have t: "table_ok (in_handle s)" using assms by (simp add: routes_def)
  have base: "routes (in_ipv6 s) (in_handle s) (in_flows s) (in_peers s) []" using assms by simp
  show ?thesis
  proof (cases ev)
    case (ConnectionReady f local)
    obtain h r where r: "flow_ready (w_clock s) f (in_handle s) = (h, r)" by fastforce
    then have h: "routes (in_ipv6 s) h (in_flows s) (in_peers s) []" "conns h = conns (in_handle s)"
      using routes_cong [OF base flow_ready_table [OF t]] conns_calls(2) by (metis fst_conv)+
    show ?thesis
    proof (cases r)
      case (Some g)
      then have "(f, fl_conn g) \<in> conns h"
        using r find_flow_Some [of "in_handle s" f g] h(2) by (force simp: flow_ready_def conns_def)
      then have "routes (in_ipv6 s) h (in_flows s) (in_peers s)
          (on_flow f (fl_conn g) local s @ [SendPending f (fl_pending g)])"
        using h(1) by (auto simp: on_flow_def routes_def current_ok_def peer_of_def split: option.split)
      then show ?thesis using Some r ConnectionReady assms(2) by (simp add: block_start_def)
    qed (use r ConnectionReady assms in \<open>simp add: block_start_def\<close>)
  next
    case (Message f bytes)
    show ?thesis
      using Message base assms(2) routes_cong [OF base touch_flow_table [OF t]]
      by (simp add: block_start_def routes_calm split: option.split)
  next
    case RunAsync
    then show ?thesis
      using close_flow_routes assms by (auto simp: block_start_def split: list.split)
  qed (use assms base close_flow_routes in \<open>simp_all add: block_start_def routes_calm\<close>)
qed

lemma nw_step_routes:
  assumes "routes_of s" "h_next_id (in_handle s) \<noteq> - 1"
  shows "routes_of (nw_step ev s)"
proof (rule nw_step_cases)
  fix x rest
  assume "w_queue s = x # rest"
  then have "routes_of (s\<lparr>w_queue := x # rest\<rparr>)" using assms(1) by simp
  from queue_run_routes [OF this assms(2)] show "routes_of (queue_run x (s\<lparr>w_queue := rest\<rparr>))" .
next
  show "routes_of (adopt peer s)" for peer using assms(1) by (simp add: adopt_def Let_def)
  show "routes_of (guard_drop peer s)" for peer using assms(1) by (simp add: guard_drop_def Let_def split: option.split)
  show "routes_of (fst (nw_try_send copies t s))" for copies t
    using assms(1) by (simp add: nw_try_send_def split: option.split)
  show "routes_of (fst (nw_poll_recv bufs metas s))" for bufs metas
    using assms(1) by (simp add: nw_poll_recv_def split: prod.split)
  show "w_queue s = [] \<Longrightarrow> routes_of (block_start ev s)" using assms(1) by (rule block_start_routes)
qed (use assms(1) thread_run_routes in simp_all)

section \<open>The table of the shim, whatever the threads do\<close>

text \<open>
  Every change the socket makes of the shim's table: a flow added, one taken, or calls that keep the
  flows and never take protection away.
\<close>

definition same_flows :: "nwudp \<Rightarrow> nwudp \<Rightarrow> bool" where
  "same_flows h h' \<longleftrightarrow> live h' = live h \<and> unprot h' \<subseteq> unprot h \<and> crowd h' \<le> crowd h \<and>
     h_max_unprotected_flows h' = h_max_unprotected_flows h \<and> h_next_id h' = h_next_id h"

lemma same_flows_calls [simp]:
  "same_flows h h" "same_flows h (fst (flow_ready now i h))" "same_flows h (touch_flow now i h)"
  "same_flows h (fst (nwudp_send copies now h i contents seg))"
  by (simp_all add: same_flows_def unprot_flow_ready unprot_touch unprot_send crowd_calls crowd_send)

lemma same_flows_protect: "table_ok h \<Longrightarrow> same_flows h (nwudp_protect_flow h i)"
  by (auto simp: same_flows_def unprot_protect crowd_calls)

lemma thread_run_same_flows:
  "table_ok (in_handle s) \<Longrightarrow> same_flows (in_handle s) (in_handle (thread_run x s))"
  by (cases x) (simp_all add: same_flows_protect case_prod_unfold split: option.split)

lemma later_not_at: "list_all later q \<Longrightarrow> \<not> later x \<Longrightarrow> \<not> at x q"
  by (cases q) auto

definition capacity :: "nat \<Rightarrow> nwudp \<Rightarrow> queue_step list \<Rightarrow> bool" where
  "capacity m h q \<longleftrightarrow> h_max_unprotected_flows h = m \<and> crowd h \<le> m \<and> (\<forall>c b. at (AddFlow c b) q \<longrightarrow> crowd h < m)"

abbreviation capacity_of :: "nat \<Rightarrow> nw_world \<Rightarrow> bool" where
  "capacity_of m s \<equiv> capacity m (in_handle s) (w_queue s)"

lemma capacity_same: "capacity m h q \<Longrightarrow> same_flows h h' \<Longrightarrow> capacity m h' q"
  by (fastforce simp: capacity_def same_flows_def)

lemma capacity_pop: "capacity m h q \<Longrightarrow> list_all later q' \<Longrightarrow> capacity m h q'"
  by (simp add: capacity_def later_not_at)

lemma capacity_take: "capacity m h q \<Longrightarrow> take_flow h i = (h', Some f) \<Longrightarrow> capacity m h' (RemovePeer n # rest)"
  using crowd_take [of h i h' f] take_flow_Some [of h i h' f] by (auto simp: capacity_def)

lemma capacity_push: "capacity m h q \<Longrightarrow> (\<And>c b. x \<noteq> AddFlow c b) \<Longrightarrow> capacity m h (x # rest)"
  by (auto simp: capacity_def)

lemma queue_run_capacity:
  assumes "capacity m (in_handle s) (x # rest)" "list_all later rest" "table_ok (in_handle s)"
  shows "capacity_of m (queue_run x (s\<lparr>w_queue := rest\<rparr>))"
proof -
  note pop = capacity_pop [OF assms(1,2)]
  show ?thesis
  proof (cases x)
    case (ReserveRound conn memory)
    obtain h r where r: "reserve_round (in_handle s) = (h, r)" by fastforce
    then show ?thesis
      using reserve_round_cases [OF r assms(3)] capacity_take [OF assms(1)] pop assms(1) ReserveRound
      by (cases r) (auto simp: capacity_def)
  next
    case (AddFlow conn memory)
    obtain h r where r: "add_flow memory (w_clock s) conn (in_handle s) = (h, r)" by fastforce
    have "capacity m h []" using crowd_add [OF r] settings_add [OF r] assms(1) AddFlow by (auto simp: capacity_def)
    then show ?thesis using capacity_pop [OF _ assms(2)] AddFlow r by simp
  next
    case (ReapRound now)
    obtain h r where r: "reap_round now (in_handle s) = (h, r)" by fastforce
    show ?thesis
    proof (cases r)
      case (Some f)
      then show ?thesis using capacity_take [OF assms(1) reap_round_spares(2) [OF _ assms(3)]] r ReapRound by simp
    qed (use r pop ReapRound in simp)
  next
    case (ProtectFlow f)
    then show ?thesis using capacity_same [OF pop same_flows_protect [OF assms(3)]] by simp
  qed (use pop capacity_push [OF pop] in \<open>simp_all split: option.split prod.split\<close>)
qed

lemma close_flow_capacity: "capacity_of m s \<Longrightarrow> capacity_of m (close_flow f s)"
  using capacity_take [of m "in_handle s" "w_queue s" f]
  by (auto simp: close_flow_def split: prod.split option.split)

lemma block_start_capacity:
  assumes "capacity_of m s" "w_queue s = []"
  shows "capacity_of m (block_start ev s)"
proof (cases ev)
  case (ConnectionReady f local)
  obtain h r where r: "flow_ready (w_clock s) f (in_handle s) = (h, r)" by fastforce
  then have "capacity m h []" using capacity_same [OF assms(1) same_flows_calls(2)] assms(2) by (metis fst_conv)
  then show ?thesis using assms r ConnectionReady
    by (auto simp: block_start_def on_flow_def capacity_def split: option.split)
next
  case (Message f bytes)
  then show ?thesis
    using assms capacity_same [OF assms(1) same_flows_calls(3)] capacity_push
    by (auto simp: block_start_def capacity_def split: option.split)
next
  case RunAsync
  then show ?thesis
    using assms close_flow_capacity by (auto simp: block_start_def split: list.split)
qed (use assms close_flow_capacity capacity_push in \<open>simp_all add: block_start_def\<close>)

lemma nw_step_capacity:
  assumes "capacity_of m s" "routes_of s"
  shows "capacity_of m (nw_step ev s)"
proof (rule nw_step_cases)
  have t: "table_ok (in_handle s)" using assms(2) by (simp add: routes_def)
  show "capacity_of m (queue_run x (s\<lparr>w_queue := rest\<rparr>))" if "w_queue s = x # rest" for x rest
    using queue_run_capacity [of m s x rest] assms that t by (simp add: routes_def)
  show "capacity_of m (thread_run (w_threads s ! n) (s\<lparr>w_threads := take n (w_threads s) @ drop (Suc n) (w_threads s)\<rparr>))" for n
  proof -
    let ?s = "s\<lparr>w_threads := take n (w_threads s) @ drop (Suc n) (w_threads s)\<rparr>"
    have "w_queue (thread_run x u) = w_queue u" for x u
      by (cases x) (simp_all split: option.split prod.split)
    then show ?thesis using capacity_same [OF assms(1)] thread_run_same_flows [of ?s "w_threads s ! n"] t by simp
  qed
  show "capacity_of m (adopt peer s)" for peer using assms(1) by (simp add: adopt_def Let_def)
  show "capacity_of m (guard_drop peer s)" for peer using assms(1) by (simp add: guard_drop_def Let_def split: option.split)
  show "capacity_of m (fst (nw_try_send copies t s))" for copies t
    using assms(1) by (simp add: nw_try_send_def split: option.split)
  show "capacity_of m (fst (nw_poll_recv bufs metas s))" for bufs metas
    using assms(1) by (simp add: nw_poll_recv_def split: prod.split)
  show "w_queue s = [] \<Longrightarrow> capacity_of m (block_start ev s)" using assms(1) by (rule block_start_capacity)
qed (use assms(1) in simp_all)

section \<open>Guards\<close>

text \<open>
  A guarded peer's flow that is not protected yet is about to be: the queue is in the block that made
  the route, or a thread that adopts the peer has still to look it up or to protect it.
\<close>

definition covered :: "queue_step list \<Rightarrow> thread_step set \<Rightarrow> u64 \<Rightarrow> socket_addr \<Rightarrow> bool" where
  "covered q ts f a \<longleftrightarrow> at (InsertPeer f a) q \<or> at (CheckProtected f a) q \<or> at (ProtectFlow f) q \<or>
     AdoptLookup a \<in> ts \<or> AdoptProtect f \<in> ts"

definition guarding ::
  "nwudp \<Rightarrow> (socket_addr \<rightharpoonup> u64) \<Rightarrow> (socket_addr \<rightharpoonup> nat) \<Rightarrow> queue_step list \<Rightarrow> thread_step set \<Rightarrow> bool" where
  "guarding h fl pr q ts \<longleftrightarrow> (\<forall>a f. pr a \<noteq> None \<and> fl a = Some f \<and> f \<in> unprot h \<longrightarrow> covered q ts f a)"

abbreviation guarding_of :: "nw_world \<Rightarrow> bool" where
  "guarding_of s \<equiv> guarding (in_handle s) (in_flows s) (in_protected s) (w_queue s) (set (w_threads s))"

lemma guardingI:
  "(\<And>a f. pr a \<noteq> None \<Longrightarrow> fl a = Some f \<Longrightarrow> f \<in> unprot h \<Longrightarrow> covered q ts f a) \<Longrightarrow> guarding h fl pr q ts"
  by (simp add: guarding_def)

lemma guardingD:
  "guarding h fl pr q ts \<Longrightarrow> pr a \<noteq> None \<Longrightarrow> fl a = Some f \<Longrightarrow> f \<in> unprot h \<Longrightarrow> covered q ts f a"
  by (simp add: guarding_def)

lemma guarding_mono:
  assumes "guarding h fl pr q ts" "unprot h' \<subseteq> unprot h"
    and "\<And>a. pr' a \<noteq> None \<Longrightarrow> pr a \<noteq> None"
    and "\<And>f a. fl a = Some f \<Longrightarrow> f \<in> unprot h' \<Longrightarrow> pr' a \<noteq> None \<Longrightarrow> covered q ts f a \<Longrightarrow> covered q' ts' f a"
  shows "guarding h' fl pr' q' ts'"
proof (rule guardingI)
  fix a f
  assume a: "pr' a \<noteq> None" "fl a = Some f" "f \<in> unprot h'"
  then have "covered q ts f a" using guardingD [OF assms(1) assms(3) [OF a(1)] a(2)] assms(2) by blast
  then show "covered q' ts' f a" using assms(4) a by blast
qed

text \<open>Between the steps of \<open>on_flow\<close> after the route and the protection, nothing is left to the queue.\<close>

lemma queue_run_guarding:
  assumes "guarding (in_handle s) (in_flows s) (in_protected s) (x # rest) (set (w_threads s))"
    and "routes_of (s\<lparr>w_queue := x # rest\<rparr>)" "h_next_id (in_handle s) \<noteq> - 1"
  shows "guarding_of (queue_run x (s\<lparr>w_queue := rest\<rparr>))"
proof -
  have t: "table_ok (in_handle s)" using assms(2) by (simp add: routes_def)
  have idle: "guarding h (in_flows s) (in_protected s) q (set (w_threads s))"
    if "unprot h \<subseteq> unprot (in_handle s)" "\<And>f a. \<not> at (InsertPeer f a) (x # rest)"
      "\<And>f a. \<not> at (CheckProtected f a) (x # rest)" "\<And>f. \<not> at (ProtectFlow f) (x # rest)" for h q
    using guarding_mono [OF assms(1) that(1)] that(2-) by (simp add: covered_def)
  show ?thesis
  proof (cases x)
    case (ReserveRound conn memory)
    obtain h r where r: "reserve_round (in_handle s) = (h, r)" by fastforce
    then show ?thesis using reserve_round_cases [OF r t] unprot_take [OF _ t] ReserveRound idle
      by (cases r) (simp_all, blast)
  next
    case (AddFlow conn memory)
    obtain h r where r: "add_flow memory (w_clock s) conn (in_handle s) = (h, r)" by fastforce
    have "f \<in> unprot (in_handle s)" if "in_flows s a = Some f" "f \<in> unprot h" for a f
    proof -
      have "f \<in> live (in_handle s)" using that(1) assms(2) AddFlow by (auto simp: routes_def)
      then have "f \<noteq> h_next_id (in_handle s) + 1" using fresh_id [OF t assms(3)] by metis
      then show ?thesis using unprot_add [OF r] that(2) by blast
    qed
    then show ?thesis using assms(1) AddFlow r by (fastforce simp: guarding_def covered_def)
  next
    case (ReapRound now)
    obtain h r where r: "reap_round now (in_handle s) = (h, r)" by fastforce
    then show ?thesis using reap_round_spares(2) [OF _ t] unprot_take [OF _ t] ReapRound idle
      by (cases r) (simp_all, blast)
  next
    case (InsertFlow f a)
    then show ?thesis using assms(1) by (auto simp: guarding_def covered_def split: if_splits)
  next
    case (InsertPeer f a)
    then show ?thesis using assms(1) by (auto simp: guarding_def covered_def)
  next
    case (CheckProtected f a)
    then show ?thesis using assms(1) by (fastforce simp: guarding_def covered_def)
  next
    case (ProtectFlow f)
    then show ?thesis using assms(1) unprot_protect [OF t] by (auto simp: guarding_def covered_def)
  next
    case (RemoveFlow f a)
    then show ?thesis using assms(1) by (auto simp: guarding_def covered_def split: if_splits)
  qed (use idle [OF subset_refl] in \<open>simp_all split: option.split prod.split\<close>)
qed

lemma thread_run_guarding:
  assumes "guarding (in_handle s) (in_flows s) (in_protected s) (w_queue s) (insert x (set (w_threads s)))"
    and "table_ok (in_handle s)"
  shows "guarding_of (thread_run x s)"
proof (cases x)
  case (AdoptLookup a)
  show ?thesis
  proof (cases "in_flows s a")
    case None
    have "guarding_of s" using None AdoptLookup by (intro guarding_mono [OF assms(1)]) (auto simp: covered_def)
    then show ?thesis using AdoptLookup None by simp
  next
    case (Some f)
    have "guarding (in_handle s) (in_flows s) (in_protected s) (w_queue s) (insert (AdoptProtect f) (set (w_threads s)))"
      using Some AdoptLookup by (intro guarding_mono [OF assms(1)]) (auto simp: covered_def)
    then show ?thesis using AdoptLookup Some by simp
  qed
next
  case (AdoptProtect f)
  have "guarding (nwudp_protect_flow (in_handle s) f) (in_flows s) (in_protected s) (w_queue s) (set (w_threads s))"
    using AdoptProtect unprot_protect [OF assms(2)] by (intro guarding_mono [OF assms(1)]) (auto simp: covered_def)
  then show ?thesis using AdoptProtect by simp
next
  case (SendTo f contents seg copies)
  have "guarding (fst (nwudp_send copies (w_clock s) (in_handle s) f contents seg)) (in_flows s) (in_protected s)
      (w_queue s) (set (w_threads s))"
    using SendTo unprot_send by (intro guarding_mono [OF assms(1)]) (auto simp: covered_def)
  then show ?thesis using SendTo by (simp add: case_prod_unfold)
next
  case (DropLookup a)
  have "guarding_of s" "\<And>f. guarding (in_handle s) (in_flows s) (in_protected s) (w_queue s) (insert (DropClose f) (set (w_threads s)))"
    using DropLookup by (auto intro!: guarding_mono [OF assms(1)] simp: covered_def)
  then show ?thesis using DropLookup by (simp split: option.split)
next
  case (DropClose f)
  have "guarding_of s" using DropClose by (intro guarding_mono [OF assms(1)]) (auto simp: covered_def)
  then show ?thesis using DropClose by simp
qed

lemma close_flow_guarding:
  assumes "guarding_of s" "w_queue s = []" "table_ok (in_handle s)"
  shows "guarding_of (close_flow f s)"
proof -
  obtain h r where r: "take_flow (in_handle s) f = (h, r)" by fastforce
  show ?thesis
  proof (cases r)
    case (Some g)
    have "guarding h (in_flows s) (in_protected s) [RemovePeer (fl_id g)] (set (w_threads s))"
      using unprot_take [of _ f h g] r Some assms(2,3) by (intro guarding_mono [OF assms(1)]) (auto simp: covered_def)
    then show ?thesis using Some r assms(2) by (simp add: close_flow_def)
  qed (use r assms in \<open>simp add: close_flow_def\<close>)
qed

lemma block_start_guarding:
  assumes "guarding_of s" "w_queue s = []" "table_ok (in_handle s)"
  shows "guarding_of (block_start ev s)"
proof -
  have go: "guarding h (in_flows s) (in_protected s) q (set (w_threads s))" if "unprot h \<subseteq> unprot (in_handle s)" for h q
    using that assms(2) by (intro guarding_mono [OF assms(1)]) (auto simp: covered_def)
  show ?thesis
  proof (cases ev)
    case (ConnectionReady f local)
    obtain h r where r: "flow_ready (w_clock s) f (in_handle s) = (h, r)" by fastforce
    then have "unprot h \<subseteq> unprot (in_handle s)" using unprot_flow_ready by (metis fst_conv)
    then show ?thesis using go assms(1) r ConnectionReady by (simp add: block_start_def split: option.split)
  next
    case (Message f bytes)
    then show ?thesis using go unprot_touch assms(1) by (simp add: block_start_def split: option.split)
  next
    case RunAsync
    then show ?thesis using assms close_flow_guarding by (auto simp: block_start_def split: list.split)
  qed (use assms go close_flow_guarding in \<open>simp_all add: block_start_def\<close>)
qed

lemma nw_step_guarding:
  assumes "guarding_of s" "routes_of s" "h_next_id (in_handle s) \<noteq> - 1"
  shows "guarding_of (nw_step ev s)"
proof (rule nw_step_cases)
  have t: "table_ok (in_handle s)" using assms(2) by (simp add: routes_def)
  show "guarding_of (queue_run x (s\<lparr>w_queue := rest\<rparr>))" if "w_queue s = x # rest" for x rest
    using queue_run_guarding [of s x rest] assms that by simp
  show "guarding_of (thread_run (w_threads s ! n) (s\<lparr>w_threads := take n (w_threads s) @ drop (Suc n) (w_threads s)\<rparr>))"
    if "n < length (w_threads s)" for n
  proof -
    have "set (w_threads s) = insert (w_threads s ! n) (set (take n (w_threads s) @ drop (Suc n) (w_threads s)))"
      using arg_cong [OF id_take_nth_drop [OF that], of set] by simp
    then show ?thesis using assms(1) t by (intro thread_run_guarding) simp_all
  qed
  show "guarding_of (adopt peer s)" for peer
  proof (rule guardingI)
    fix a f
    assume a: "in_protected (adopt peer s) a \<noteq> None" "in_flows (adopt peer s) a = Some f" "f \<in> unprot (in_handle (adopt peer s))"
    show "covered (w_queue (adopt peer s)) (set (w_threads (adopt peer s))) f a"
    proof (cases "a = canonical (in_ipv6 s) peer")
      case False
      then show ?thesis using a guardingD [OF assms(1)] by (fastforce simp: adopt_def Let_def covered_def)
    qed (simp add: adopt_def Let_def covered_def)
  qed
  show "guarding_of (guard_drop peer s)" for peer
    using assms(1) by (auto simp: guard_drop_def Let_def guarding_def covered_def split: option.split)
  show "guarding_of (fst (nw_try_send copies u s))" for copies u
    using assms(1) by (auto simp: nw_try_send_def guarding_def covered_def split: option.split)
  show "guarding_of (fst (nw_poll_recv bufs metas s))" for bufs metas
    using assms(1) by (simp add: nw_poll_recv_def split: prod.split)
  show "w_queue s = [] \<Longrightarrow> guarding_of (block_start ev s)" using assms(1) t by (simp add: block_start_guarding)
qed (use assms(1) in simp_all)

section \<open>The inbox, the guards and the waker\<close>

definition held_bytes :: "(socket_addr \<times> byte list) list \<Rightarrow> nat" where
  "held_bytes inbox = sum_list (map (length \<circ> snd) inbox)"

definition books_of :: "nw_world \<Rightarrow> bool" where
  "books_of s \<longleftrightarrow> snd (in_inbox s) = held_bytes (fst (in_inbox s)) \<and> snd (in_inbox s) \<le> INBOX_LIMIT \<and>
     (\<forall>a. in_protected s a = (case count_list (w_guards s) a of 0 \<Rightarrow> None | Suc n \<Rightarrow> Some (Suc n)))"

definition wake_of :: "nw_world \<Rightarrow> bool" where
  "wake_of s \<longleftrightarrow> (w_waiting s \<longrightarrow> in_waker s \<and> (fst (in_inbox s) = [] \<or> at Wake (w_queue s)))"

lemma drain_held:
  "drain bufs (inbox, held) = (got, inbox', held') \<Longrightarrow> held = held_bytes inbox \<Longrightarrow>
     held' = held_bytes inbox' \<and> held' \<le> held \<and> (got = [] \<longrightarrow> inbox' = inbox)"
proof (induction bufs "(inbox, held)" arbitrary: inbox held got rule: drain.induct)
  case (3 buf bufs peer bytes rest held)
  obtain got' where d: "drain bufs (rest, held - length bytes) = (got', inbox', held')" "got \<noteq> []"
    using 3(2) by (auto split: prod.splits)
  have "held - length bytes = held_bytes rest" using 3(3) by (simp add: held_bytes_def)
  with 3(1) [OF d(1)] d(2) show ?case by auto
qed (auto simp: held_bytes_def)

lemma count_list_remove1: "count_list (remove1 x xs) y = (if x = y then count_list xs y - 1 else count_list xs y)"
  by (induction xs) auto

lemma close_flow_frame [simp]:
  "in_inbox (close_flow f s) = in_inbox s" "in_protected (close_flow f s) = in_protected s"
  "w_guards (close_flow f s) = w_guards s" "w_waiting (close_flow f s) = w_waiting s" "in_waker (close_flow f s) = in_waker s"
  by (simp_all add: close_flow_def split: prod.split option.split)

lemma block_start_frame [simp]:
  "in_inbox (block_start ev s) = in_inbox s" "in_protected (block_start ev s) = in_protected s"
  "w_guards (block_start ev s) = w_guards s" "w_waiting (block_start ev s) = w_waiting s"
  "in_waker (block_start ev s) = in_waker s"
  by (simp_all add: block_start_def split: nw_event.split prod.split option.split list.split)

lemma thread_run_frame [simp]:
  "in_inbox (thread_run x s) = in_inbox s" "in_protected (thread_run x s) = in_protected s"
  "w_guards (thread_run x s) = w_guards s" "w_waiting (thread_run x s) = w_waiting s"
  "in_waker (thread_run x s) = in_waker s" "w_queue (thread_run x s) = w_queue s"
  by (cases x; simp split: prod.split option.split)+

lemma queue_run_frame [simp]:
  "in_protected (queue_run x s) = in_protected s" "w_guards (queue_run x s) = w_guards s"
  by (cases x; simp split: prod.split option.split reserve_result.split)+

lemma queue_run_inbox:
  "(\<And>peer bytes. x \<noteq> PushInbox peer bytes) \<Longrightarrow> in_inbox (queue_run x s) = in_inbox s"
  by (cases x) (auto split: prod.split option.split reserve_result.split)

lemma queue_run_wake:
  "x \<noteq> Wake \<Longrightarrow> w_waiting (queue_run x s) = w_waiting s \<and> in_waker (queue_run x s) = in_waker s"
  by (cases x) (simp_all split: prod.split option.split reserve_result.split)

lemma nw_step_books:
  assumes "books_of s"
  shows "books_of (nw_step ev s)"
proof (rule nw_step_cases)
  show "books_of (queue_run x (s\<lparr>w_queue := rest\<rparr>))" for x rest
  proof (cases "\<exists>peer bytes. x = PushInbox peer bytes")
    case True
    then show ?thesis using assms by (auto simp: books_of_def held_bytes_def split: prod.split)
  qed (use assms in \<open>simp add: books_of_def queue_run_inbox\<close>)
  show "books_of (adopt peer s)" for peer
    using assms by (simp add: books_of_def adopt_def Let_def split: nat.split)
  show "books_of (guard_drop peer s)" for peer
    using assms by (auto simp: books_of_def guard_drop_def Let_def count_list_remove1 split: nat.split option.split)
  show "books_of (fst (nw_poll_recv bufs metas s))" for bufs metas
  proof -
    obtain inbox held where i: "in_inbox s = (inbox, held)" by fastforce
    obtain got inbox' held' where d: "drain (take metas bufs) (inbox, held) = (got, inbox', held')" by (metis prod_cases3)
    show ?thesis using assms drain_held [OF d] d i by (simp add: books_of_def nw_poll_recv_def)
  qed
  show "books_of (fst (nw_try_send copies u s))" for copies u
    using assms by (simp add: books_of_def nw_try_send_def split: option.split)
qed (use assms in \<open>simp_all add: books_of_def\<close>)

lemma nw_step_wake:
  assumes "wake_of s"
  shows "wake_of (nw_step ev s)"
proof (rule nw_step_cases)
  show "wake_of (queue_run x (s\<lparr>w_queue := rest\<rparr>))" if "w_queue s = x # rest" for x rest
  proof (cases "x = Wake \<or> (\<exists>peer bytes. x = PushInbox peer bytes)")
    case True
    then show ?thesis using assms that by (cases "in_inbox s") (auto simp: wake_of_def split: if_splits)
  next
    case False
    then have "in_inbox (queue_run x u) = in_inbox u" for u using queue_run_inbox by blast
    then show ?thesis using assms that False queue_run_wake [of x "s\<lparr>w_queue := rest\<rparr>"] by (auto simp: wake_of_def)
  qed
  show "wake_of (adopt peer s)" for peer using assms by (simp add: wake_of_def adopt_def Let_def)
  show "wake_of (guard_drop peer s)" for peer
    using assms by (simp add: wake_of_def guard_drop_def Let_def split: option.split)
  show "wake_of (fst (nw_poll_recv bufs metas s))" for bufs metas
    by (auto simp: wake_of_def nw_poll_recv_def split: prod.split)
  show "wake_of (fst (nw_try_send copies u s))" for copies u
    using assms by (simp add: wake_of_def nw_try_send_def split: option.split)
  show "w_queue s = [] \<Longrightarrow> wake_of (block_start ev s)" using assms by (simp add: wake_of_def)
qed (use assms in \<open>simp_all add: wake_of_def\<close>)

section \<open>Every reachable state\<close>

definition nw_ok :: "nat \<Rightarrow> nw_world \<Rightarrow> bool" where
  "nw_ok m s \<longleftrightarrow> routes_of s \<and> capacity_of m s \<and> guarding_of s \<and> books_of s \<and> wake_of s"

lemma nw_step_next_id:
  "h_next_id (in_handle (nw_step ev s)) = h_next_id (in_handle s) \<or> h_next_id (in_handle (nw_step ev s)) = h_next_id (in_handle s) + 1"
proof -
  let ?P = "\<lambda>u. h_next_id (in_handle u) = h_next_id (in_handle s) \<or> h_next_id (in_handle u) = h_next_id (in_handle s) + 1"
  have take: "h_next_id (fst (take_flow h i)) = h_next_id h" for h i
    by (simp add: take_flow_def split: option.split)
  have close: "h_next_id (in_handle (close_flow f u)) = h_next_id (in_handle u)" for f u
    using take [of "in_handle u" f] by (cases "take_flow (in_handle u) f") (simp add: close_flow_def split: option.split)
  have reap: "h_next_id (fst (reap_round now h)) = h_next_id h" for h now
    by (simp add: reap_round_def Let_def take split: prod.split)
  have reserve: "h_next_id (fst (reserve_round h)) = h_next_id h" for h
    by (auto simp: reserve_round_def take_flow_None split: prod.split option.split dest: take_flow_Some)
  have 1: "?P (queue_run x (s\<lparr>w_queue := rest\<rparr>))" for x rest
  proof (cases x)
    case (ReserveRound conn memory)
    then show ?thesis using reserve [of "in_handle s"] by (auto split: prod.split reserve_result.split)
  next
    case (ReapRound now)
    then show ?thesis using reap [of now "in_handle s"] by (auto split: prod.split option.split)
  next
    case (AddFlow conn memory)
    then show ?thesis by (simp add: add_flow_def Let_def)
  qed (simp_all split: prod.split option.split)
  have 2: "?P (thread_run (w_threads s ! n) (s\<lparr>w_threads := take n (w_threads s) @ drop (Suc n) (w_threads s)\<rparr>))" for n
    by (cases "w_threads s ! n") (simp_all add: case_prod_unfold split: option.split)
  have 3: "?P (block_start ev s)"
    by (cases ev) (simp_all add: block_start_def close case_prod_unfold split: option.split list.split)
  have 4: "?P (adopt peer s)" for peer by (simp add: adopt_def Let_def)
  have 5: "?P (guard_drop peer s)" for peer by (simp add: guard_drop_def Let_def split: option.split)
  have 6: "?P (fst (nw_try_send copies u s))" for copies u by (simp add: nw_try_send_def split: option.split)
  have 7: "?P (fst (nw_poll_recv bufs metas s))" for bufs metas by (simp add: nw_poll_recv_def split: prod.split)
  show ?thesis by (rule nw_step_cases [where P = ?P and s = s and ev = ev, OF _ _ 1 4 5 6 7 2 3]) simp_all
qed

lemma nw_run_ok:
  "nw_ok m s \<Longrightarrow> unat (h_next_id (in_handle s)) + length evs < 2 ^ 64 \<Longrightarrow> nw_ok m (nw_run evs s)"
proof (induction evs arbitrary: s)
  case (Cons ev evs)
  have ne: "h_next_id (in_handle s) \<noteq> - 1"
  proof
    assume "h_next_id (in_handle s) = - 1"
    then have "unat (h_next_id (in_handle s)) = 2 ^ 64 - 1" by (simp add: unsigned_minus_1_eq_mask mask_eq_exp_minus_1)
    with Cons(3) show False by simp
  qed
  have ok: "nw_ok m (nw_step ev s)"
    using Cons(2) nw_step_routes [OF _ ne] nw_step_capacity nw_step_guarding [OF _ _ ne] nw_step_books nw_step_wake
    by (simp add: nw_ok_def)
  have "unat (h_next_id (in_handle (nw_step ev s))) \<le> unat (h_next_id (in_handle s)) + 1"
    using nw_step_next_id [of ev s] unat_next_id [OF ne] by auto
  then have "unat (h_next_id (in_handle (nw_step ev s))) + length evs < 2 ^ 64" using Cons(3) by simp
  then show ?case using Cons(1) [OF ok] by (simp add: nw_run_def)
qed (simp add: nw_run_def)

lemma listen_ok:
  assumes "nwsocket_listen nw_listen addr m now = Inr s"
  shows "nw_ok m s" "h_next_id (in_handle s) = 0" "in_ipv6 s = (\<not> is_ipv4 (sa_ip addr))"
proof -
  have s: "s = (nwsocket_new (\<not> is_ipv4 (sa_ip addr)) addr now)\<lparr>in_handle := nwudp_create\<lparr>h_max_unprotected_flows := m\<rparr>\<rparr>"
    using assms by (auto simp: nwsocket_listen_def nwsocket_new_def Let_def and_then_eq_Inr split: if_splits)
  then show "nw_ok m s" "h_next_id (in_handle s) = 0" "in_ipv6 s = (\<not> is_ipv4 (sa_ip addr))"
    by (simp_all add: nw_ok_def routes_idle capacity_def guarding_def books_of_def wake_of_def held_bytes_def nwsocket_new_def
        nwudp_create_def table_ok_def live_def unprotected_flows_def)
qed

lemma reachable_ok:
  "nwsocket_listen nw_listen addr m now = Inr s \<Longrightarrow> length evs < 2 ^ 64 \<Longrightarrow> nw_ok m (nw_run evs s)"
  using nw_run_ok listen_ok(1,2) by (metis add_0 unat_0)

section \<open>A protected flow stays\<close>

definition kept :: "u64 \<Rightarrow> nwudp \<Rightarrow> bool" where
  "kept f h \<longleftrightarrow> f \<in> live h \<and> f \<notin> unprot h"

lemma kept_iff: "table_ok h \<Longrightarrow> kept f h \<longleftrightarrow> (\<exists>g \<in> set (h_flows h). fl_id g = f \<and> fl_protected g)"
  using table_ok_unique [of h] by (fastforce simp: kept_def live_def unprot_def)

lemma kept_same: "kept f h \<Longrightarrow> same_flows h h' \<Longrightarrow> kept f h'"
  by (auto simp: kept_def same_flows_def)

lemma kept_take: "kept f h \<Longrightarrow> take_flow h i = (h', Some g) \<Longrightarrow> table_ok h \<Longrightarrow> i \<noteq> f \<Longrightarrow> kept f h'"
  using take_flow_table(3) [of h i h' g] unprot_take [of h i h' g] by (auto simp: kept_def)

lemma unprotected_not_kept: "take_flow h (fl_id g) = (h', Some g) \<Longrightarrow> table_ok h \<Longrightarrow> \<not> fl_protected g \<Longrightarrow> kept f h \<Longrightarrow> fl_id g \<noteq> f"
  using take_flow_table(4) [of h "fl_id g" h' g] by (auto simp: kept_def unprot_def)

lemma queue_run_kept:
  assumes "kept f (in_handle s)" "table_ok (in_handle s)" "h_next_id (in_handle s) \<noteq> - 1"
  shows "kept f (in_handle (queue_run x s))"
proof (cases x)
  case (ReserveRound conn memory)
  obtain h r where r: "reserve_round (in_handle s) = (h, r)" by fastforce
  show ?thesis
  proof (cases r)
    case (Evicted g)
    then have g: "\<not> fl_protected g" "take_flow (in_handle s) (fl_id g) = (h, Some g)"
      using reserve_round_cases [OF r assms(2)] by auto
    show ?thesis using kept_take [OF assms(1) g(2) assms(2) unprotected_not_kept [OF g(2) assms(2) g(1) assms(1)]] ReserveRound r Evicted
      by simp
  qed (use assms(1) ReserveRound r in simp_all)
next
  case (ReapRound now)
  obtain h r where r: "reap_round now (in_handle s) = (h, r)" by fastforce
  show ?thesis
  proof (cases r)
    case (Some g)
    then have g: "\<not> fl_protected g" "take_flow (in_handle s) (fl_id g) = (h, Some g)"
      using reap_round_spares [OF _ assms(2), of now h g] r by auto
    show ?thesis using kept_take [OF assms(1) g(2) assms(2) unprotected_not_kept [OF g(2) assms(2) g(1) assms(1)]] ReapRound r Some
      by simp
  qed (use assms(1) ReapRound r in simp)
next
  case (AddFlow conn memory)
  obtain h r where r: "add_flow memory (w_clock s) conn (in_handle s) = (h, r)" by fastforce
  have "f \<noteq> h_next_id (in_handle s) + 1" using fresh_id [OF assms(2,3)] assms(1) by (metis kept_def)
  then have "kept f h" using assms(1) live_add [OF r] unprot_add [OF r] by (auto simp: kept_def)
  then show ?thesis using AddFlow r by simp
next
  case (ProtectFlow g)
  then show ?thesis using kept_same [OF assms(1) same_flows_protect [OF assms(2)]] by simp
qed (use assms(1) in \<open>simp_all split: option.split prod.split\<close>)

lemma close_flow_kept: "kept f (in_handle s) \<Longrightarrow> table_ok (in_handle s) \<Longrightarrow> g \<noteq> f \<Longrightarrow> kept f (in_handle (close_flow g s))"
  using kept_take [of f "in_handle s" g] by (auto simp: close_flow_def split: prod.split option.split)

lemma nw_step_kept:
  assumes "kept f (in_handle s)" "table_ok (in_handle s)" "h_next_id (in_handle s) \<noteq> - 1"
    and "ev \<noteq> ConnectionFailed f" "f \<notin> set (w_async s)"
  shows "kept f (in_handle (nw_step ev s))"
proof (rule nw_step_cases [where P = "\<lambda>u. kept f (in_handle u)" and s = s and ev = ev])
  show "kept f (in_handle (queue_run x (s\<lparr>w_queue := rest\<rparr>)))" for x rest
    using assms by (intro queue_run_kept) simp_all
  show "kept f (in_handle (thread_run (w_threads s ! n) (s\<lparr>w_threads := take n (w_threads s) @ drop (Suc n) (w_threads s)\<rparr>)))" for n
    using kept_same [OF assms(1)] thread_run_same_flows [of "s\<lparr>w_threads := take n (w_threads s) @ drop (Suc n) (w_threads s)\<rparr>"]
      assms(2) by simp
  show "kept f (in_handle (block_start ev s))"
  proof (cases ev)
    case (ConnectionReady g local)
    obtain h r where r: "flow_ready (w_clock s) g (in_handle s) = (h, r)" by fastforce
    then have "kept f h" using kept_same [OF assms(1) same_flows_calls(2)] by (metis fst_conv)
    then show ?thesis using ConnectionReady assms(1) r by (simp add: block_start_def split: option.split)
  next
    case (Message g bytes)
    then show ?thesis using assms(1) kept_same [OF assms(1) same_flows_calls(3)] by (simp add: block_start_def split: option.split)
  next
    case RunAsync
    then show ?thesis using assms close_flow_kept by (auto simp: block_start_def split: list.split)
  qed (use assms close_flow_kept in \<open>auto simp: block_start_def\<close>)
  show "kept f (in_handle (adopt peer s))" for peer using assms(1) by (simp add: adopt_def Let_def)
  show "kept f (in_handle (guard_drop peer s))" for peer using assms(1) by (simp add: guard_drop_def Let_def split: option.split)
  show "kept f (in_handle (fst (nw_try_send copies u s)))" for copies u
    using assms(1) by (simp add: nw_try_send_def split: option.split)
  show "kept f (in_handle (fst (nw_poll_recv bufs metas s)))" for bufs metas
    using assms(1) by (simp add: nw_poll_recv_def split: prod.split)
qed (use assms(1) in simp_all)

lemma nw_run_Cons [simp]: "nw_run [] s = s" "nw_run (ev # evs) s = nw_run evs (nw_step ev s)"
  by (simp_all add: nw_run_def)

lemma next_id_bound:
  "unat (h_next_id (in_handle s)) + length evs < 2 ^ 64 \<Longrightarrow>
     unat (h_next_id (in_handle (nw_run evs s))) \<le> unat (h_next_id (in_handle s)) + length evs"
proof (induction evs arbitrary: s)
  case (Cons ev evs)
  have "unat (h_next_id (in_handle (nw_step ev s))) \<le> unat (h_next_id (in_handle s)) + 1"
    using nw_step_next_id [of ev s] unat_next_id [of "in_handle s"] unat_0 [where 'a = 64]
    by (metis add.commute add_0 add_eq_0_iff2 le_add1 order_refl unat_next_id)
  then show ?case using Cons(1) [of "nw_step ev s"] Cons(2) by simp
qed simp

lemma nw_run_kept:
  assumes "nw_ok m s" "unat (h_next_id (in_handle s)) + length evs < 2 ^ 64" "kept f (in_handle s)"
    and "ConnectionFailed f \<notin> set evs" "\<forall>n < length evs. f \<notin> set (w_async (nw_run (take n evs) s))"
  shows "kept f (in_handle (nw_run evs s))"
  using assms
proof (induction evs arbitrary: s)
  case (Cons ev evs)
  have ne: "h_next_id (in_handle s) \<noteq> - 1"
    using Cons(3) by (auto simp: unsigned_minus_1_eq_mask mask_eq_exp_minus_1)
  have t: "table_ok (in_handle s)" using Cons(2) by (simp add: nw_ok_def routes_def)
  have "kept f (in_handle (nw_step ev s))"
    using nw_step_kept [OF Cons(4) t ne, of ev] Cons(5,6) by auto
  moreover have "nw_ok m (nw_step ev s)" using nw_run_ok [OF Cons(2), of "[ev]"] Cons(3) by simp
  moreover have "unat (h_next_id (in_handle (nw_step ev s))) + length evs < 2 ^ 64"
    using next_id_bound [of s "[ev]"] Cons(3) by simp
  moreover have "f \<notin> set (w_async (nw_run (take n evs) (nw_step ev s)))" if "n < length evs" for n
    using Cons(6) [rule_format, of "Suc n"] that by simp
  ultimately show ?case using Cons(1) [of "nw_step ev s"] Cons(5) by simp
qed simp

section \<open>What the socket promises\<close>

text \<open>C23. Whatever the dispatch queue and the other threads do and in whatever order, the state of a listening socket
  is well formed.  The flows have different numbers, none is zero, and a flow holds back datagrams only while it is not
  ready, at most 64.  There are never more unprotected flows than the limit.  The inbox knows how many bytes it holds,
  and holds at most its limit, so its count never wraps.  The guard count of a peer is the number of its guards alive.
  Between two blocks of the queue every route leads to a live flow to exactly that peer.\<close>

theorem nw_state_typed:
  assumes "nwsocket_listen nw_listen addr m now = Inr s0" "length evs < 2 ^ 64" "s = nw_run evs s0"
  shows "distinct (map fl_id (h_flows (in_handle s))) \<and>
    (\<forall>f \<in> set (h_flows (in_handle s)). fl_id f \<noteq> 0 \<and> length (fl_pending f) \<le> 64 \<and> (fl_ready f \<longrightarrow> fl_pending f = [])) \<and>
    length (filter (\<lambda>f. \<not> fl_protected f) (h_flows (in_handle s))) \<le> m \<and>
    snd (in_inbox s) = sum_list (map (\<lambda>(peer, bytes). length bytes) (fst (in_inbox s))) \<and> snd (in_inbox s) \<le> INBOX_LIMIT \<and>
    (\<forall>a. in_protected s a = (if a \<in> set (w_guards s) then Some (count_list (w_guards s) a) else None)) \<and>
    (w_queue s = [] \<longrightarrow> (\<forall>a fid. in_flows s a = Some fid \<longrightarrow> in_peers s fid = Some a \<and>
       (\<exists>f \<in> set (h_flows (in_handle s)). fl_id f = fid \<and>
          (\<exists>remote. sockaddr_to_addr (fl_conn f) = Some remote \<and> canonical (in_ipv6 s) remote = a))))"
proof -
  have ok: "nw_ok m s" using reachable_ok [OF assms(1,2)] assms(3) by simp
  then have t: "table_ok (in_handle s)" by (simp add: nw_ok_def routes_def)
  have route: "in_peers s fid = Some a \<and> (\<exists>f \<in> set (h_flows (in_handle s)). fl_id f = fid \<and>
          (\<exists>remote. sockaddr_to_addr (fl_conn f) = Some remote \<and> canonical (in_ipv6 s) remote = a))"
    if "w_queue s = []" "in_flows s a = Some fid" for a fid
  proof -
    have r: "routes (in_ipv6 s) (in_handle s) (in_flows s) (in_peers s) []" using ok that(1) by (simp add: nw_ok_def)
    then have p: "in_peers s fid = Some a" "fid \<in> live (in_handle s)" using that(2) by (simp_all add: routes_idle)
    then obtain f where f: "f \<in> set (h_flows (in_handle s))" "fl_id f = fid" by (auto simp: live_def)
    then have "(fid, fl_conn f) \<in> conns (in_handle s)" by (auto simp: conns_def)
    then have "peer_of (in_ipv6 s) (fl_conn f) = Some a" using r p(1) by (simp add: routes_idle)
    then show ?thesis using p(1) f by (auto simp: peer_of_def)
  qed
  have "in_protected s a = (if a \<in> set (w_guards s) then Some (count_list (w_guards s) a) else None)" for a
    using ok count_list_0_iff [of "w_guards s" a] by (cases "count_list (w_guards s) a") (simp_all add: nw_ok_def books_of_def)
  moreover have "sum_list (map (\<lambda>(peer, bytes). length bytes) inbox) = held_bytes inbox" for inbox :: "(socket_addr \<times> byte list) list"
    by (simp add: held_bytes_def comp_def case_prod_unfold)
  moreover have "length (filter (\<lambda>f. \<not> fl_protected f) (h_flows (in_handle s))) \<le> m"
    using ok by (simp add: nw_ok_def capacity_def unprotected_flows_def)
  ultimately show ?thesis using ok t route
    by (intro conjI) (auto simp: nw_ok_def books_of_def table_ok_def PENDING_MAX_def live_def)
qed

definition example_socket :: nw_world where
  "example_socket =
     (nwsocket_new False (SocketAddr (V4 0) 2222) 1)\<lparr>in_handle := nwudp_create\<lparr>h_max_unprotected_flows := 8\<rparr>\<rparr>"

definition example_conn :: sockaddr where "example_conn = Inet [127, 0, 0, 1] [0x1F, 0x90]"
definition example_peer :: socket_addr where "example_peer = SocketAddr (V4 0x7F000001) 8080"

text \<open>A peer connects and is adopted.\<close>

definition example_schedule :: "nw_event list" where
  "example_schedule =
     [NewConnection example_conn True, RunQueue, RunQueue, ConnectionReady 1 NullAddr, RunQueue, RunQueue, RunQueue, RunQueue,
      Adopt example_peer, RunThread 0, RunThread 0]"

lemma example_listens:
  "nwsocket_listen (\<lambda>host port. True) (SocketAddr (V4 0) 2222) 8 1 = Inr example_socket"
  by (simp add: nwsocket_listen_def example_socket_def Let_def and_then_def is_unspecified_def nwsocket_new_def)

lemma example_state:
  "w_queue (nw_run example_schedule example_socket) = []"
  "in_flows (nw_run example_schedule example_socket) example_peer = Some 1"
  by code_simp+

theorem nw_state_typed_witness:
  "nwsocket_listen (\<lambda>host port. True) (SocketAddr (V4 0) 2222) 8 1 = Inr example_socket \<and>
   in_flows (nw_run example_schedule example_socket) example_peer = Some 1 \<and>
   in_peers (nw_run example_schedule example_socket) 1 = Some example_peer \<and>
   snd (in_inbox (nw_run example_schedule example_socket)) \<le> INBOX_LIMIT"
proof -
  have "length example_schedule < 2 ^ 64" by (simp add: example_schedule_def)
  from nw_state_typed [OF example_listens this refl] show ?thesis using example_listens example_state by simp
qed

text \<open>C18. A guarded peer is never cut off by the shim's housekeeping.  Take any reachable moment at which the peer has a
  guard and a route, the queue is between two blocks and no thread is in the middle of adopting the peer.  Then its flow
  is protected, whether the guard came before the flow or after it.  It stays in the table, protected, through everything
  that follows, reaper rounds and floods of new connections included, until its connection fails or a thread asks to
  close it.\<close>

theorem guarded_flow_kept:
  assumes "nwsocket_listen nw_listen addr m now = Inr s0" "length evs + length evs' < 2 ^ 64" "s = nw_run evs s0"
    and "a \<in> set (w_guards s)" "in_flows s a = Some fid" "w_queue s = []"
    and "AdoptLookup a \<notin> set (w_threads s)" "AdoptProtect fid \<notin> set (w_threads s)"
    and "ConnectionFailed fid \<notin> set evs'" "\<forall>n < length evs'. fid \<notin> set (w_async (nw_run (take n evs') s))"
  shows "\<exists>f \<in> set (h_flows (in_handle (nw_run evs' s))). fl_id f = fid \<and> fl_protected f"
proof -
  have ok: "nw_ok m s" using reachable_ok [OF assms(1)] assms(2,3) by simp
  have n: "unat (h_next_id (in_handle s)) + length evs' < 2 ^ 64"
    using next_id_bound [of s0 evs] listen_ok(2) [OF assms(1)] assms(2,3) by simp
  have "fid \<in> live (in_handle s)" using ok assms(5,6) by (simp add: nw_ok_def routes_idle)
  moreover have "in_protected s a \<noteq> None"
    using ok assms(4) count_list_0_iff [of "w_guards s" a] by (auto simp: nw_ok_def books_of_def split: nat.split)
  then have "fid \<notin> unprot (in_handle s)"
    using ok assms(5-8) by (auto simp: nw_ok_def guarding_def covered_def)
  ultimately have "kept fid (in_handle (nw_run evs' s))"
    using nw_run_kept [OF ok n _ assms(9,10)] by (simp add: kept_def)
  moreover have "table_ok (in_handle (nw_run evs' s))" using nw_run_ok [OF ok n] by (simp add: nw_ok_def routes_def)
  ultimately show ?thesis using kept_iff by blast
qed

definition example_reaping :: "nw_event list" where
  "example_reaping = [Tick 9000000000, ReapTimer, RunQueue, RunQueue]"

lemma example_adopted:
  "example_peer \<in> set (w_guards (nw_run example_schedule example_socket))"
  "w_threads (nw_run example_schedule example_socket) = []"
  "list_all (\<lambda>n. w_async (nw_run (take n example_reaping) (nw_run example_schedule example_socket)) = []) [0..<4]"
  by code_simp+

theorem guarded_flow_kept_witness:
  "in_flows (nw_run example_schedule example_socket) example_peer = Some 1 \<and>
   (\<exists>f \<in> set (h_flows (in_handle (nw_run example_reaping (nw_run example_schedule example_socket)))). fl_id f = 1 \<and> fl_protected f)"
proof -
  have "length example_schedule + length example_reaping < 2 ^ 64" by (simp add: example_schedule_def example_reaping_def)
  note kept = guarded_flow_kept [OF example_listens this refl example_adopted(1) example_state(2,1)]
  have "\<forall>n < length example_reaping. 1 \<notin> set (w_async (nw_run (take n example_reaping) (nw_run example_schedule example_socket)))"
    using example_adopted(3) by (simp add: list_all_iff example_reaping_def)
  then show ?thesis using kept example_adopted(2) example_state(2) by (simp add: example_reaping_def)
qed

text \<open>No datagram waits unnoticed: whenever the queue is between two blocks and the endpoint sleeps after an empty
  poll, with no wake-up since, the inbox is empty.\<close>

theorem no_lost_wakeup:
  assumes "nwsocket_listen nw_listen addr m now = Inr s0" "length evs < 2 ^ 64" "s = nw_run evs s0"
    and "w_waiting s" "w_queue s = []"
  shows "in_inbox s = ([], 0) \<and> in_waker s"
proof -
  have "nw_ok m s" using reachable_ok [OF assms(1,2)] assms(3) by simp
  then show ?thesis using assms(4,5) by (cases "in_inbox s") (auto simp: nw_ok_def wake_of_def books_of_def held_bytes_def)
qed

definition example_waiting :: "nw_event list" where
  "example_waiting = example_schedule @ [Receive [1500] 1, Message 1 [7], RunQueue, RunQueue, RunQueue, Receive [1500] 1, Receive [1500] 1]"

theorem no_lost_wakeup_witness:
  "w_waiting (nw_run example_waiting example_socket) \<and> in_inbox (nw_run example_waiting example_socket) = ([], 0)"
proof -
  have w: "w_waiting (nw_run example_waiting example_socket)" "w_queue (nw_run example_waiting example_socket) = []"
    by code_simp+
  have "length example_waiting < 2 ^ 64" by (simp add: example_waiting_def example_schedule_def)
  from no_lost_wakeup [OF example_listens this refl w] w show ?thesis by simp
qed

text \<open>C38. The reaper reads the clock before it takes the lock.  When a thread sends on the only unprotected flow in
  between, the flow's last activity is after the reading, the unsigned difference wraps around, and the reaper closes
  the flow as idle although it was used a moment ago.\<close>

theorem active_flow_reaped:
  assumes "w_queue s = ReapRound now # rest" "table_ok (in_handle s)"
    and "filter (\<lambda>f. \<not> fl_protected f) (h_flows (in_handle s)) = [f]"
    and "now < fl_last_activity f" "fl_last_activity f < now + 1000000000"
  shows "fl_id f \<notin> fl_id ` set (h_flows (in_handle (nw_step RunQueue s)))"
proof -
  let ?h = "in_handle s"
  have f: "f \<in> set (h_flows ?h)" "\<not> fl_protected f" using arg_cong [OF assms(3), of set] by auto
  then have nz: "fl_id f \<noteq> 0" using assms(2) by (auto simp: table_ok_def live_def)
  obtain v oldest u where sc: "scan (h_flows ?h) scan_start = (v, oldest, u)" by (metis prod_cases3)
  have act: "fl_last_activity f < - 1" using assms(5) by (metis word_order.not_eq_extremum less_le_trans word_order.extremum leD)
  have "v = fl_id f \<and> oldest = fl_last_activity f"
    using scan_finds [OF sc] assms(3) act by (auto simp: unprotected_flows_def)
  moreover have "NWUDP_UNPROTECTED_IDLE_NS \<le> now - fl_last_activity f"
  proof -
    have "unat (now + 1000000000) \<le> unat now + 1000000000" by (simp add: unat_word_ariths(1) mod_less_eq_dividend)
    then have "unat (fl_last_activity f) < unat now + 1000000000" using assms(5) by (simp add: word_less_nat_alt)
    moreover have "unat now < unat (fl_last_activity f)" using assms(4) by (simp add: word_less_nat_alt)
    moreover have "unat (now - fl_last_activity f) = 2 ^ 64 + unat now - unat (fl_last_activity f)"
      using assms(4) by (simp add: unat_sub_if' word_le_nat_alt word_less_nat_alt)
    ultimately have "3000000000 \<le> unat (now - fl_last_activity f)" using unat_lt2p [of "fl_last_activity f"] by simp
    then show ?thesis by (simp add: NWUDP_UNPROTECTED_IDLE_NS_def word_le_nat_alt)
  qed
  ultimately have reap: "reap_round now ?h = take_flow ?h (fl_id f)" using sc nz by (simp add: reap_round_def Let_def)
  have "fl_id f \<in> live ?h" using f(1) by (simp add: live_def)
  then obtain h g where t: "take_flow ?h (fl_id f) = (h, Some g)" using take_flow_None by (metis option.exhaust prod.collapse)
  have "fl_id f \<notin> fl_id ` set (h_flows h)"
    using take_flow_table(3) [OF t assms(2)] unfolding live_def by blast
  then show ?thesis using reap t assms(1) by (simp add: nw_step_def)
qed

definition example_race :: "nw_event list" where
  "example_race =
     take 8 example_schedule
     @ [Tick 10, ReapTimer, RunQueue, Tick 11,
        Send 1 \<lparr>tr_destination = example_peer, tr_ecn = None, tr_contents = [7], tr_segment_size = None, tr_src_ip = None\<rparr>,
        RunThread 0]"

theorem active_flow_reaped_witness:
  "map fl_last_activity (h_flows (in_handle (nw_run example_race example_socket))) = [11] \<and>
   w_queue (nw_run example_race example_socket) = [ReapRound 10] \<and>
   1 \<notin> fl_id ` set (h_flows (in_handle (nw_step RunQueue (nw_run example_race example_socket))))"
proof -
  let ?s = "nw_run example_race example_socket"
  let ?f = "\<lparr>fl_id = 1, fl_conn = example_conn, fl_ready = True, fl_protected = False, fl_last_activity = 11, fl_pending = []\<rparr>"
  have q: "w_queue ?s = [ReapRound 10]" by code_simp
  have h: "h_flows (in_handle ?s) = [?f]" by code_simp
  have "length example_race < 2 ^ 64" by (simp add: example_race_def example_schedule_def)
  then have "table_ok (in_handle ?s)" using reachable_ok [OF example_listens] by (simp add: nw_ok_def routes_def)
  from active_flow_reaped [OF q this, of ?f] q h show ?thesis by simp
qed

end
