(* ===== verification/Cli.thy ===== *)
theory Cli
  imports Config
begin

text \<open>
  \<open>hush/src/cli.rs\<close>: which of its commands the client runs, targets \<open>[user@]host[:port]\<close>, and the
  forwards of \<open>-L\<close> and \<open>-R\<close>.  Parsing the options themselves is the library \<open>usage_rs\<close>'s: the
  parsers it derives are a record of functions on the words of the command line.
\<close>

section \<open>Commands\<close>

datatype usage_error = Help | Version | Failure

text \<open>\<open>parse_or_exit\<close>: the process exits with the code on the left.\<close>

definition parse_or_exit :: "(string list \<Rightarrow> usage_error + 'a) \<Rightarrow> string list \<Rightarrow> nat + 'a" where
  "parse_or_exit parse_from words =
     (case parse_from words of
        Inr cli \<Rightarrow> Inr cli
      | Inl Help \<Rightarrow> Inl 0
      | Inl Version \<Rightarrow> Inl 0
      | Inl Failure \<Rightarrow> Inl 2)"

record ForwardArg =
  fa_listen_host :: string
  fa_listen_port :: u16
  fa_target_host :: string
  fa_target_port :: u16

record Args =
  ar_verbose :: bool
  ar_insecure :: bool
  ar_port :: "u16 option"
  ar_tty :: bool
  ar_no_tty :: bool
  ar_data_dir :: "string option"
  ar_identity_file :: "string option"
  ar_no_shell :: bool
  ar_forward_agent :: bool
  ar_local_forward :: "ForwardArg list"
  ar_remote_forward :: "ForwardArg list"
  ar_target :: string
  ar_command :: "string list"

record CpArgs =
  cp_verbose :: bool
  cp_insecure :: bool
  cp_port :: "u16 option"
  cp_no_compression :: bool
  cp_data_dir :: "string option"
  cp_identity_file :: "string option"
  cp_max_bytes :: "u64 option"
  cp_max_entries :: "u64 option"
  cp_paths :: "string list"

record RemoteArgs =
  ra_insecure :: bool
  ra_port :: "u16 option"
  ra_data_dir :: "string option"
  ra_identity_file :: "string option"
  ra_word :: string

datatype shell_script = ZshScript | BashScript

datatype Cli = CliSession Args | CliCopy CpArgs | CliCompletions shell_script | CliCompleteRemote RemoteArgs

record usage_lib =
  us_args :: "string list \<Rightarrow> usage_error + Args"
  us_cp_args :: "string list \<Rightarrow> usage_error + CpArgs"
  us_remote_args :: "string list \<Rightarrow> usage_error + RemoteArgs"

text \<open>\<open>Path::file_stem\<close>: the file name up to its last dot, unless that is its first character.\<close>

definition file_stem :: "string \<Rightarrow> string option" where
  "file_stem p =
     map_option (\<lambda>file. if file = ''..'' then file
                        else case rsplit_once (CHR ''.'') file of
                               None \<Rightarrow> file
                             | Some (before, _) \<Rightarrow> if before = [] then file else before) (file_name p)"

definition COMPLETE_REMOTE :: string where "COMPLETE_REMOTE = ''__complete-remote''"

text \<open>The words are compared with constants of plain characters, so that one that is no text differs.\<close>

definition nth_arg :: "string list \<Rightarrow> nat \<Rightarrow> string option" where
  "nth_arg args i = (if i < length args then Some (args ! i) else None)"

definition parse_from_env :: "usage_lib \<Rightarrow> string list \<Rightarrow> nat + Cli" where
  "parse_from_env U args =
     (if nth_arg args 1 = Some COMPLETE_REMOTE
      then map_sum id CliCompleteRemote (parse_or_exit (us_remote_args U) (drop 2 args))
      else
        let argv0 = (case Option.bind (nth_arg args 0) file_stem of Some s \<Rightarrow> s | None \<Rightarrow> ''hush'')
        in if argv0 = ''hcp'' then map_sum id CliCopy (parse_or_exit (us_cp_args U) (drop 1 args))
           else if nth_arg args 1 = Some ''cp''
           then map_sum id CliCopy (parse_or_exit (us_cp_args U) (drop 1 (take 1 args @ drop 2 args)))
           else if nth_arg args 1 = Some ''--completions''
           then (case nth_arg args 2 of
                   Some s \<Rightarrow> if s = ''zsh'' then Inr (CliCompletions ZshScript)
                             else if s = ''bash'' then Inr (CliCompletions BashScript) else Inl 2
                 | None \<Rightarrow> Inl 2)
           else map_sum id CliSession (parse_or_exit (us_args U) (drop 1 args)))"

section \<open>Targets\<close>

record Target =
  tg_user :: "string option"
  tg_host :: string
  tg_host_alias :: string
  tg_port :: "u16 option"

definition parse_port_number :: "string \<Rightarrow> u16 res" where
  "parse_port_number s = ok_or (Foreign ''invalid digit found in string'') (parse_u16 s)"

definition parse_optional_host_port :: "string \<Rightarrow> (string \<times> u16 option) res" where
  "parse_optional_host_port input =
     (case strip_prefix ''['' input of
        Some rest \<Rightarrow>
          (case split_once (CHR '']'') rest of
             None \<Rightarrow> Inl (Bail ''missing closing ']' in IPv6 host'')
           | Some (host, suffix) \<Rightarrow>
               if suffix = [] then Inr (host, None)
               else (case strip_prefix '':'' suffix of
                       None \<Rightarrow> Inl (Bail ''unexpected text after bracketed host'')
                     | Some port \<Rightarrow> and_then (parse_port_number port) (\<lambda>port. Inr (host, Some port))))
      | None \<Rightarrow>
          (case rsplit_once (CHR '':'') input of
             Some (host, port) \<Rightarrow>
               if host \<noteq> [] \<and> CHR '':'' \<notin> set host
               then and_then (parse_port_number port) (\<lambda>port. Inr (host, Some port))
               else Inr (input, None)
           | None \<Rightarrow> Inr (input, None)))"

definition target_parse :: "string \<Rightarrow> u16 option \<Rightarrow> Target res" where
  "target_parse input port_override =
     (let (user, rest) = (case rsplit_once (CHR ''@'') input of
                            Some (user, rest) \<Rightarrow> (Some user, rest)
                          | None \<Rightarrow> (None, input))
      in and_then (parse_optional_host_port rest) (\<lambda>(host, port).
           Inr \<lparr>tg_user = user, tg_host = host, tg_host_alias = host,
                tg_port = (case port_override of Some p \<Rightarrow> Some p | None \<Rightarrow> port)\<rparr>))"

section \<open>Forwards\<close>

fun cli_split_loop :: "string list \<Rightarrow> string \<Rightarrow> nat \<Rightarrow> string \<Rightarrow> string list" where
  "cli_split_loop parts current depth [] = parts @ [current]"
| "cli_split_loop parts current depth (ch # chars) =
     (if ch = CHR ''['' then cli_split_loop parts (current @ [ch]) (depth + 1) chars
      else if ch = CHR '']'' then cli_split_loop parts (current @ [ch]) (depth - 1) chars
      else if ch = CHR '':'' \<and> depth = 0 then cli_split_loop (parts @ [current]) [] depth chars
      else cli_split_loop parts (current @ [ch]) depth chars)"

definition cli_split_colon_bracketed :: "string \<Rightarrow> string list" where
  "cli_split_colon_bracketed input = cli_split_loop [] [] 0 input"

definition cli_unbracket_host :: "string \<Rightarrow> string" where
  "cli_unbracket_host host =
     (case Option.bind (strip_prefix ''['' host) (strip_suffix '']'') of Some inner \<Rightarrow> inner | None \<Rightarrow> host)"

definition parse_forward :: "string \<Rightarrow> string + ForwardArg" where
  "parse_forward s =
     (case (case cli_split_colon_bracketed s of
              [lp, th, tp] \<Rightarrow> Some (''127.0.0.1'', lp, th, tp)
            | [lh, lp, th, tp] \<Rightarrow> Some (cli_unbracket_host lh, lp, th, tp)
            | _ \<Rightarrow> None) of
        None \<Rightarrow> Inl ''expected [listen_host:]listen_port:target_host:target_port''
      | Some (lh, lp, th, tp) \<Rightarrow>
          (case parse_u16 lp of
             None \<Rightarrow> Inl ''bad listen port''
           | Some lport \<Rightarrow>
               (case parse_u16 tp of
                  None \<Rightarrow> Inl ''bad target port''
                | Some tport \<Rightarrow>
                    Inr \<lparr>fa_listen_host = lh, fa_listen_port = lport,
                         fa_target_host = cli_unbracket_host th, fa_target_port = tport\<rparr>)))"

section \<open>Facts\<close>

lemma cli_split_loop_fold:
  "cli_split_loop parts current depth s =
     (case foldl split_colon_step (parts, current, depth) s of (parts, current, _) \<Rightarrow> parts @ [current])"
  by (induction s arbitrary: parts current depth) (simp_all add: split_colon_step_def)

lemma cli_split_colon_bracketed_eq: "cli_split_colon_bracketed s = split_colon_bracketed s"
  by (simp add: cli_split_colon_bracketed_def split_colon_bracketed_def cli_split_loop_fold)

lemma cli_unbracket_host_eq: "cli_unbracket_host h = unbracket_host h"
  by (simp add: cli_unbracket_host_def unbracket_host_def split: option.splits)

text \<open>A text that is closed for colons has no closing bracket missing after one of its colons.\<close>

lemma closed_from_unclosed: "closed_from d s \<Longrightarrow> CHR '']'' \<notin> set s \<Longrightarrow> d = 0"
  by (induction s arbitrary: d) (auto split: if_splits)

lemma closed_from_colon:
  "closed_from d (a @ CHR '':'' # b) \<Longrightarrow> CHR '']'' \<in> set b"
proof (induction a arbitrary: d)
  case Nil
  then show ?case using closed_from_unclosed [of d b] by auto
qed (auto split: if_splits)

lemma parse_u16_no_bracket: "parse_u16 s = Some p \<Longrightarrow> CHR '']'' \<notin> set s"
proof -
  assume "parse_u16 s = Some p"
  then obtain n where "parse_uint 65535 s = Some n" by (auto simp: parse_u16_def)
  then have "s \<noteq> []" "\<forall>c \<in> set s. is_digit c \<or> c = CHR ''+''"
    by (auto simp: parse_uint_def Let_def list_all_iff split: if_splits list.splits)
  then show ?thesis by (auto dest: digit_not_special(3))
qed

lemma optional_port_position:
  assumes "parse_optional_host_port s = Inr (h, Some p)"
  shows "\<exists>a b. s = a @ CHR '':'' # b \<and> parse_u16 b = Some p"
proof (cases "strip_prefix ''['' s")
  case None
  with assms obtain a b where "rsplit_once (CHR '':'') s = Some (a, b)" "parse_u16 b = Some p"
    by (auto simp: parse_optional_host_port_def parse_port_number_def ok_or_def and_then_eq_Inr
        split: option.splits if_splits)
  then show ?thesis by (auto simp: rsplit_once_Some)
next
  case (Some rest)
  then have s: "s = CHR ''['' # rest" by (cases s) (auto split: if_splits)
  obtain host suffix where sp: "split_once (CHR '']'') rest = Some (host, suffix)" "suffix \<noteq> []"
    using assms Some by (auto simp: parse_optional_host_port_def split: option.splits if_splits)
  with assms Some obtain b where "strip_prefix '':'' suffix = Some b" "parse_u16 b = Some p"
    by (auto simp: parse_optional_host_port_def parse_port_number_def ok_or_def and_then_eq_Inr
        split: option.splits)
  moreover from this(1) have "suffix = CHR '':'' # b" by (cases suffix) (auto split: if_splits)
  moreover have "rest = host @ CHR '']'' # suffix" using sp by (simp add: split_once_Some)
  ultimately have "s = (CHR ''['' # host @ '']'') @ CHR '':'' # b" using s by simp
  with \<open>parse_u16 b = Some p\<close> show ?thesis by blast
qed

text \<open>A text without a colon outside brackets never yields a port.\<close>

lemma target_parse_closed:
  assumes "closed_from 0 s" "target_parse s override = Inr t"
  shows "tg_port t = override"
proof -
  obtain user rest where rest: "(case rsplit_once (CHR ''@'') s of Some (u, r) \<Rightarrow> (Some u, r) | None \<Rightarrow> (None, s)) = (user, rest)"
    by fastforce
  then obtain pre where pre: "s = pre @ rest"
    by (auto simp: rsplit_once_Some split: option.splits)
  from assms(2) rest obtain host port where hp: "parse_optional_host_port rest = Inr (host, port)"
      and t: "tg_port t = (case override of Some p \<Rightarrow> Some p | None \<Rightarrow> port)"
    by (auto simp: target_parse_def and_then_eq_Inr)
  have "port = None"
  proof (rule ccontr)
    assume "port \<noteq> None"
    then obtain p where "port = Some p" by blast
    with hp obtain a b where ab: "rest = a @ CHR '':'' # b" "parse_u16 b = Some p"
      using optional_port_position by blast
    have "CHR '']'' \<in> set b" using assms(1) pre ab(1) closed_from_colon [of 0 "pre @ a" b] by simp
    with ab(2) show False using parse_u16_no_bracket by blast
  qed
  with t show ?thesis by (simp split: option.splits)
qed

section \<open>Properties\<close>

text \<open>A forward as it is written on the command line.\<close>

definition ssh_forward_of :: "ForwardArg \<Rightarrow> SshForward" where
  "ssh_forward_of v =
     \<lparr>listen_host = fa_listen_host v, listen_port = fa_listen_port v,
      target_host = fa_target_host v, target_port = fa_target_port v\<rparr>"

text \<open>A forward given to \<open>-L\<close> or \<open>-R\<close> means what the same text means in ssh_config: the two parsers,
  written separately, accept the same texts and read the same forward from them.\<close>

theorem forwards_agree:
  "map_sum (\<lambda>_. ()) ssh_forward_of (parse_forward s) = map_sum (\<lambda>_. ()) id (parse_colon_forward s)"
  by (simp add: parse_forward_def parse_colon_forward_def cli_split_colon_bracketed_eq
      cli_unbracket_host_eq parse_port_def ok_or_def ssh_forward_of_def Let_def
      split: list.splits option.splits)

text \<open>A target written out, an IPv6 address in brackets.\<close>

definition show_target_arg :: "string option \<Rightarrow> string \<Rightarrow> u16 option \<Rightarrow> string" where
  "show_target_arg user host port =
     (case user of None \<Rightarrow> [] | Some u \<Rightarrow> u @ ''@'') @ show_host host @
     (case port of None \<Rightarrow> [] | Some p \<Rightarrow> '':'' @ show_nat (unat p))"

lemma optional_host_port_show:
  assumes "host \<noteq> []" "no_brackets host"
  shows "parse_optional_host_port (show_host host @ (case port of None \<Rightarrow> [] | Some p \<Rightarrow> '':'' @ show_nat (unat p))) =
    Inr (host, port)"
proof -
  have colon: "CHR '':'' \<notin> set (show_nat n)" for n
    using show_nat_digits [of n] by (auto simp: list_all_iff dest: digit_not_special)
  show ?thesis
  proof (cases "CHR '':'' \<in> set host")
    case True
    then have "split_once (CHR '']'') (host @ CHR '']'' # x) = Some (host, x)" for x
      using assms by (simp add: split_once_Some)
    with True show ?thesis
      by (auto simp: parse_optional_host_port_def show_host_def parse_port_number_def ok_or_def split: option.splits)
  next
    case False
    have nb: "strip_prefix ''['' (host @ x) = None" for x using assms by (cases host) auto
    have "rsplit_once (CHR '':'') (host @ CHR '':'' # show_nat n) = Some (host, show_nat n)" for n
      using colon by (simp add: rsplit_once_Some)
    then show ?thesis using assms False nb nb [of "[]"]
      by (cases port) (simp_all add: parse_optional_host_port_def show_host_def parse_port_number_def ok_or_def
          rsplit_once_None [THEN iffD2])
  qed
qed

text \<open>Every target can be written: from \<open>[user@]host[:port]\<close> with any user (even one with an \<open>@\<close>), any
  host name or address, an IPv6 address in brackets, and any port, the client reads back that user,
  host and port, and a port given by \<open>-p\<close> replaces the target's.\<close>

theorem target_roundtrip:
  assumes "host \<noteq> []" "no_brackets host" "CHR ''@'' \<notin> set host"
  shows "target_parse (show_target_arg user host port) override =
    Inr \<lparr>tg_user = user, tg_host = host, tg_host_alias = host,
         tg_port = (case override of Some p \<Rightarrow> Some p | None \<Rightarrow> port)\<rparr>"
proof -
  let ?rest = "show_host host @ (case port of None \<Rightarrow> [] | Some p \<Rightarrow> '':'' @ show_nat (unat p))"
  have digit: "is_digit c \<Longrightarrow> c \<noteq> CHR ''@''" for c by (auto simp: is_digit_def code_def)
  have at: "CHR ''@'' \<notin> set ?rest"
    using assms show_nat_digits digit
    by (auto simp: show_host_def list_all_iff split: option.splits)
  have split: "rsplit_once (CHR ''@'') (u @ CHR ''@'' # ?rest) = Some (u, ?rest)" for u
    using at by (simp add: rsplit_once_Some)
  have whole: "show_target_arg v host port = (case v of None \<Rightarrow> ?rest | Some u \<Rightarrow> u @ CHR ''@'' # ?rest)" for v
    by (simp add: show_target_arg_def split: option.splits)
  note rest = optional_host_port_show [OF assms(1,2), of port]
  show ?thesis
  proof (cases user)
    case None
    then show ?thesis using rsplit_once_None [THEN iffD2, OF at] rest
      by (simp only: whole target_parse_def option.case Let_def prod.case result_simps)
  next
    case (Some u)
    then show ?thesis using split [of u] rest
      by (simp only: whole target_parse_def option.case Let_def prod.case result_simps)
  qed
qed

theorem target_roundtrip_witness:
  "target_parse ''a@b@[fe80::2]:22'' None =
     Inr \<lparr>tg_user = Some ''a@b'', tg_host = ''fe80::2'', tg_host_alias = ''fe80::2'', tg_port = Some 22\<rparr>"
proof -
  have "show_target_arg (Some ''a@b'') ''fe80::2'' (Some 22) = ''a@b@[fe80::2]:22''" by code_simp
  then show ?thesis using target_roundtrip [of "''fe80::2''" "Some ''a@b''" "Some 22" None] by simp
qed

end
