(* ===== verification/Terminal.thy ===== *)
theory Terminal
  imports Protocol
begin

unbundle bit_operations_syntax

text \<open>
  The client's terminal: the filter that recognises the disconnect escape in what the user types
  (\<open>hush/src/session.rs\<close>, \<open>EscapeFilter\<close>), the tracker of the alternate screen in what the remote side
  prints (\<open>AltScreenTracker\<close>), and the cleanup of the terminal (\<open>hush/src/os.rs\<close>).
\<close>

section \<open>Keys\<close>

datatype EscapeKey = KEnter | KTilde | KDot | KOther | KIgnore

record EscapeFilter =
  ef_enabled :: bool
  at_line_start :: bool
  held :: "byte list"
  partial :: "byte list"

definition MAX_PARTIAL_CSI_LEN :: nat where "MAX_PARTIAL_CSI_LEN = 256"

definition KITTY_MOD_SHIFT :: u32 where "KITTY_MOD_SHIFT = 1"

definition KITTY_MOD_CAPS_LOCK :: u32 where "KITTY_MOD_CAPS_LOCK = 64"

definition KITTY_MOD_NUM_LOCK :: u32 where "KITTY_MOD_NUM_LOCK = 128"

definition KITTY_EVENT_RELEASE :: u32 where "KITTY_EVENT_RELEASE = 3"

definition KITTY_KEY_CAPS_LOCK :: u32 where "KITTY_KEY_CAPS_LOCK = 57358"

definition KITTY_KEY_NUM_LOCK :: u32 where "KITTY_KEY_NUM_LOCK = 57360"

definition KITTY_KEY_KP_ENTER :: u32 where "KITTY_KEY_KP_ENTER = 57414"

definition KITTY_KEY_LEFT_SHIFT :: u32 where "KITTY_KEY_LEFT_SHIFT = 57441"

definition KITTY_KEY_ISO_LEVEL5_SHIFT :: u32 where "KITTY_KEY_ISO_LEVEL5_SHIFT = 57454"

text \<open>The iterator's \<open>next\<close> on the fields of a split.\<close>

fun next_field :: "'a list \<Rightarrow> 'a option \<times> 'a list" where
  "next_field [] = (None, [])"
| "next_field (x # xs) = (Some x, xs)"

definition kitty_number :: "string option \<Rightarrow> u32 \<Rightarrow> u32 option" where
  "kitty_number field dflt =
     (case field of None \<Rightarrow> Some dflt | Some f \<Rightarrow> if f = [] then Some dflt else parse_u32 f)"

definition classify_kitty_key :: "byte list \<Rightarrow> EscapeKey option" where
  "classify_kitty_key params =
     Option.bind (str_from_utf8 params) (\<lambda>s.
     let (f, fields) = next_field (split_on (CHR '';'') s) in
     Option.bind f (\<lambda>f.
     let (k, keys) = next_field (split_on (CHR '':'') f) in
     Option.bind (kitty_number k 0) (\<lambda>key.
     let (sh, _) = next_field keys;
         shifted = Option.bind sh parse_u32;
         (m, fields) = next_field fields;
         (m1, modifiers) = next_field (split_on (CHR '':'') (case m of None \<Rightarrow> [] | Some m \<Rightarrow> m)) in
     Option.bind (kitty_number m1 1) (\<lambda>m1.
     let mods = sat_sub m1 1 AND NOT (KITTY_MOD_CAPS_LOCK OR KITTY_MOD_NUM_LOCK) in
     Option.bind (kitty_number (fst (next_field modifiers)) 1) (\<lambda>event.
     let text = fst (next_field fields) in
     if event = KITTY_EVENT_RELEASE
        \<or> KITTY_KEY_CAPS_LOCK \<le> key \<and> key \<le> KITTY_KEY_NUM_LOCK
        \<or> KITTY_KEY_LEFT_SHIFT \<le> key \<and> key \<le> KITTY_KEY_ISO_LEVEL5_SHIFT
     then Some KIgnore
     else if key = 13 \<or> key = KITTY_KEY_KP_ENTER then Some KEnter
     else
       let ch = (case text of
                   Some t \<Rightarrow> if CHR '':'' \<notin> set t then parse_u32 t else None
                 | None \<Rightarrow>
                     if mods AND NOT KITTY_MOD_SHIFT \<noteq> 0 then None
                     else if mods AND KITTY_MOD_SHIFT \<noteq> 0 then
                       (case shifted of Some c \<Rightarrow> Some c | None \<Rightarrow> if key = 96 then Some 126 else None)
                     else Some key)
       in Some (if ch = Some 126 then KTilde else if ch = Some 46 then KDot else KOther))))))"

definition classify_csi :: "byte list \<Rightarrow> byte \<Rightarrow> EscapeKey" where
  "classify_csi params final_byte =
     (if params = [] \<and> (final_byte = 0x49 \<or> final_byte = 0x4f) then KIgnore
      else if params \<noteq> [] \<and> hd params \<in> {0x3c, 0x3d, 0x3e, 0x3f} then KIgnore
      else if final_byte = 0x75 then (case classify_kitty_key params of Some k \<Rightarrow> k | None \<Rightarrow> KOther)
      else KOther)"

text \<open>The loop over the bytes after the introducer; \<open>i\<close> is the index of the next of them.\<close>

fun csi_scan :: "byte list \<Rightarrow> nat \<Rightarrow> byte list \<Rightarrow> (nat \<times> EscapeKey) option" where
  "csi_scan rest i [] = None"
| "csi_scan rest i (b # bs) =
     (if 0x20 \<le> b \<and> b \<le> 0x3f then csi_scan rest (i + 1) bs
      else if 0x40 \<le> b \<and> b \<le> 0x7e then Some (i + 3, classify_csi (take i rest) b)
      else Some (i + 2, KOther))"

definition next_escape_key :: "byte list \<Rightarrow> (nat \<times> EscapeKey) option" where
  "next_escape_key input =
     (if take 2 input = [0x1b, 0x5b] then
        (case csi_scan (drop 2 input) 0 (drop 2 input) of
           Some r \<Rightarrow> Some r
         | None \<Rightarrow> if MAX_PARTIAL_CSI_LEN < length input then Some (length input, KOther) else None)
      else if take 1 input \<in> {[0x0d], [0x0a]} then Some (1, KEnter)
      else if take 1 input = [0x7e] then Some (1, KTilde)
      else if take 1 input = [0x2e] then Some (1, KDot)
      else Some (1, KOther))"

lemma csi_scan_len: "csi_scan rest i bs = Some (l, k) \<Longrightarrow> i + 2 \<le> l \<and> l \<le> i + 2 + length bs"
  by (induction rest i bs rule: csi_scan.induct) (auto split: if_splits)

lemma take_two: "take 2 xs = [a, b] \<longleftrightarrow> (\<exists>r. xs = a # b # r)"
  by (cases xs rule: remdups_adj.cases) auto

lemma next_escape_key_csi:
  "next_escape_key (0x1b # 0x5b # r) =
     (case csi_scan r 0 r of
        Some x \<Rightarrow> Some x
      | None \<Rightarrow> if MAX_PARTIAL_CSI_LEN < length r + 2 then Some (length r + 2, KOther) else None)"
  by (simp add: next_escape_key_def split: option.split)

definition byte_key :: "byte list \<Rightarrow> EscapeKey" where
  "byte_key input =
     (if take 1 input \<in> {[0x0d], [0x0a]} then KEnter else if take 1 input = [0x7e] then KTilde
      else if take 1 input = [0x2e] then KDot else KOther)"

lemma next_escape_key_single:
  "\<nexists>r. input = 0x1b # 0x5b # r \<Longrightarrow> next_escape_key input = Some (1, byte_key input)"
  by (simp add: next_escape_key_def take_two byte_key_def)

lemma next_escape_key_len:
  assumes "next_escape_key input = Some (l, k)" "input \<noteq> []"
  shows "0 < l \<and> l \<le> length input"
proof (cases "\<exists>r. input = 0x1b # 0x5b # r")
  case True
  then show ?thesis
    using assms by (auto simp: next_escape_key_csi split: if_splits option.splits dest!: csi_scan_len)
next
  case False
  then show ?thesis
    using assms by (auto simp: next_escape_key_single Suc_le_eq)
qed

section \<open>The escape filter\<close>

definition escape_new :: "bool \<Rightarrow> EscapeFilter" where
  "escape_new enabled = \<lparr>ef_enabled = enabled, at_line_start = True, held = [], partial = []\<rparr>"

text \<open>The second match of \<open>handle\<close>, reached unless the first returns.\<close>

definition handle_key :: "EscapeFilter \<Rightarrow> EscapeKey \<Rightarrow> byte list \<Rightarrow> byte list \<Rightarrow> EscapeFilter \<times> byte list" where
  "handle_key f key bytes out =
     (if key = KTilde \<and> at_line_start f then (f\<lparr>held := held f @ bytes\<rparr>, out)
      else if key = KIgnore then (f, out @ bytes)
      else (f\<lparr>at_line_start := (key = KEnter)\<rparr>, out @ bytes))"

definition handle :: "EscapeFilter \<Rightarrow> EscapeKey \<Rightarrow> byte list \<Rightarrow> byte list \<Rightarrow> bool \<times> EscapeFilter \<times> byte list" where
  "handle f key bytes out =
     (if held f \<noteq> [] then
        (if key = KDot then (True, f, out)
         else if key = KIgnore then (False, f\<lparr>held := held f @ bytes\<rparr>, out)
         else (False, handle_key (f\<lparr>held := [], at_line_start := False\<rparr>) key bytes (out @ held f)))
      else (False, handle_key f key bytes out))"

function push_loop :: "EscapeFilter \<Rightarrow> byte list \<Rightarrow> byte list \<Rightarrow> bool \<times> EscapeFilter \<times> byte list" where
  "push_loop f input out =
     (if input = [] then (False, f, out)
      else case next_escape_key input of
             None \<Rightarrow> (False, f\<lparr>partial := partial f @ input\<rparr>, out)
           | Some (len, key) \<Rightarrow>
               (case handle f key (take len input) out of
                  (True, r) \<Rightarrow> (True, r)
                | (False, f, out) \<Rightarrow> push_loop f (drop len input) out))"
  by pat_completeness auto
termination
  by (relation "measure (\<lambda>(f, input, out). length input)") (auto dest: next_escape_key_len)

declare push_loop.simps [simp del]

definition push :: "EscapeFilter \<Rightarrow> byte list \<Rightarrow> byte list \<Rightarrow> bool \<times> EscapeFilter \<times> byte list" where
  "push f input out =
     (if \<not> ef_enabled f then (False, f, out @ input)
      else push_loop (f\<lparr>partial := []\<rparr>) (partial f @ input) out)"

definition finish :: "EscapeFilter \<Rightarrow> byte list \<Rightarrow> EscapeFilter \<times> byte list" where
  "finish f out = (f\<lparr>held := [], partial := []\<rparr>, out @ held f @ partial f)"

section \<open>The alternate screen\<close>

datatype AltScreen = AltOff | AltPlain | AltSaveCursor

datatype CsiState = Ground | Escape | Entry | PrivateParams | Ignore

record AltScreenTracker =
  alt :: AltScreen
  csi_state :: CsiState
  param :: u32
  seq_mode :: "AltScreen option"

definition tracker_default :: AltScreenTracker where
  "tracker_default = \<lparr>alt = AltOff, csi_state = Ground, param = 0, seq_mode = None\<rparr>"

definition end_param :: "AltScreenTracker \<Rightarrow> AltScreenTracker" where
  "end_param t =
     (if param t = 47 \<or> param t = 1047 then t\<lparr>seq_mode := Some AltPlain, param := 0\<rparr>
      else if param t = 1049 then t\<lparr>seq_mode := Some AltSaveCursor, param := 0\<rparr>
      else t\<lparr>param := 0\<rparr>)"

definition tracker_byte :: "AltScreenTracker \<Rightarrow> byte \<Rightarrow> AltScreenTracker" where
  "tracker_byte t byte =
     (let st = csi_state t in
      if byte = 0x1b then t\<lparr>csi_state := Escape\<rparr>
      else if byte = 0x18 \<or> byte = 0x1a then t\<lparr>csi_state := Ground\<rparr>
      else if st = Ground then t\<lparr>csi_state := Ground\<rparr>
      else if st = Escape \<and> byte = 0x5b then t\<lparr>csi_state := Entry\<rparr>
      else if st = Escape then t\<lparr>csi_state := Ground\<rparr>
      else if byte \<le> 0x1f then t
      else if st = Entry \<and> byte = 0x3f then t\<lparr>param := 0, seq_mode := None, csi_state := PrivateParams\<rparr>
      else if st = PrivateParams \<and> 0x30 \<le> byte \<and> byte \<le> 0x39 then
        t\<lparr>param := sat_add (sat_mul (param t) 10) (ucast (byte - 0x30)), csi_state := PrivateParams\<rparr>
      else if st = PrivateParams \<and> byte = 0x3b then (end_param t)\<lparr>csi_state := PrivateParams\<rparr>
      else if st = PrivateParams \<and> (byte = 0x68 \<or> byte = 0x6c) then
        (let t = end_param t
         in (case seq_mode t of
               None \<Rightarrow> t
             | Some mode \<Rightarrow> t\<lparr>alt := if byte = 0x68 then mode else AltOff\<rparr>)\<lparr>csi_state := Ground\<rparr>)
      else if 0x40 \<le> byte \<and> byte \<le> 0x7e then t\<lparr>csi_state := Ground\<rparr>
      else t\<lparr>csi_state := Ignore\<rparr>)"

definition tracker_push :: "AltScreenTracker \<Rightarrow> byte list \<Rightarrow> bool \<times> AltScreenTracker" where
  "tracker_push t out = (let t' = foldl tracker_byte t out in (alt t' \<noteq> alt t, t'))"

section \<open>Cleaning the terminal up\<close>

text \<open>\<open>ESC [\<close> followed by the given text.\<close>

definition csi :: "string \<Rightarrow> byte list" where
  "csi s = 0x1b # 0x5b # as_bytes s"

definition TERMINAL_CLEANUP_BEFORE_ALT_SCREEN :: "byte list" where
  "TERMINAL_CLEANUP_BEFORE_ALT_SCREEN =
     csi ''<u'' @ csi ''=0u'' @ csi ''?9;1000;1001;1002;1003;1005;1006;1015;1016l'' @ csi ''?1004l''
     @ csi ''?2004;2005;2006l'' @ csi ''?2026l'' @ csi ''?1l'' @ csi ''?5l'' @ csi ''?6l''
     @ csi ''?7h'' @ csi ''?12l'' @ csi ''?25h''"

definition TERMINAL_CLEANUP_AFTER_ALT_SCREEN :: "byte list" where
  "TERMINAL_CLEANUP_AFTER_ALT_SCREEN = csi ''?66l'' @ csi ''0 q'' @ csi ''0m''"

definition terminal_cleanup_sequences :: "AltScreen \<Rightarrow> byte list" where
  "terminal_cleanup_sequences a =
     TERMINAL_CLEANUP_BEFORE_ALT_SCREEN
     @ (case a of AltOff \<Rightarrow> [] | AltPlain \<Rightarrow> csi ''?1047l'' | AltSaveCursor \<Rightarrow> csi ''?1049l'')
     @ TERMINAL_CLEANUP_AFTER_ALT_SCREEN"

text \<open>The atomic that carries the screen to the cleanup code holds the discriminant.\<close>

fun alt_as_u8 :: "AltScreen \<Rightarrow> byte" where
  "alt_as_u8 AltOff = 0"
| "alt_as_u8 AltPlain = 1"
| "alt_as_u8 AltSaveCursor = 2"

definition remote_alt_screen :: "byte \<Rightarrow> AltScreen" where
  "remote_alt_screen x =
     (if x = alt_as_u8 AltPlain then AltPlain
      else if x = alt_as_u8 AltSaveCursor then AltSaveCursor else AltOff)"

text \<open>
  \<open>write_all_fd\<close>: the answers of the successive \<open>write\<close> calls are given; the result is what reached
  the descriptor and the outcome, None if the answers run out while the loop still writes.
\<close>

fun write_all_fd :: "(io_error + nat) list \<Rightarrow> byte list \<Rightarrow> byte list \<times> (io_error + unit) option" where
  "write_all_fd answers [] = ([], Some (Inr ()))"
| "write_all_fd [] (b # buf) = ([], None)"
| "write_all_fd (Inr n # answers) (b # buf) =
     (if n = 0 then ([], Some (Inr ()))
      else (case write_all_fd answers (drop n (b # buf)) of (w, r) \<Rightarrow> (take n (b # buf) @ w, r)))"
| "write_all_fd (Inl e # answers) (b # buf) =
     (if io_error_kind e = Interrupted then write_all_fd answers (b # buf) else ([], Some (Inl e)))"

text \<open>
  Raw mode.  The terminal is its attributes, whether the descriptors are terminals, what was written
  to standard output, and the atomic with the remote side's screen.
\<close>

record 't tty =
  tty_stdin :: bool
  tty_stdout :: bool
  tty_attr :: 't
  tty_out :: "byte list"
  tty_alt :: byte

record 't RawModeGuard =
  rm_saved :: 't
  rm_active :: bool

definition enable_if_terminal ::
  "('t tty \<Rightarrow> io_error + 't) \<Rightarrow> ('t \<Rightarrow> 't) \<Rightarrow> ('t tty \<Rightarrow> 't \<Rightarrow> 't tty \<times> (io_error + unit)) \<Rightarrow> 't
     \<Rightarrow> (io_error \<Rightarrow> string) \<Rightarrow> 't tty \<Rightarrow> 't tty \<times> 't RawModeGuard res" where
  "enable_if_terminal tcgetattr cfmakeraw tcsetattr zeroed io_text w =
     (if \<not> tty_stdin w then (w, Inr \<lparr>rm_saved = zeroed, rm_active = False\<rparr>)
      else case tcgetattr w of
             Inl e \<Rightarrow> (w, Inl (Bail (''tcgetattr failed: '' @ io_text e)))
           | Inr saved \<Rightarrow>
               (case tcsetattr w (cfmakeraw saved) of
                  (w, Inl e) \<Rightarrow> (w, Inl (Bail (''tcsetattr failed: '' @ io_text e)))
                | (w, Inr _) \<Rightarrow> (w, Inr \<lparr>rm_saved = saved, rm_active = True\<rparr>)))"

definition cleanup_terminal_features :: "(io_error + nat) list \<Rightarrow> 't tty \<Rightarrow> 't tty" where
  "cleanup_terminal_features answers w =
     (if tty_stdout w
      then w\<lparr>tty_out := tty_out w
                @ fst (write_all_fd answers (terminal_cleanup_sequences (remote_alt_screen (tty_alt w))))\<rparr>
      else w)"

definition raw_mode_drop ::
  "('t tty \<Rightarrow> 't \<Rightarrow> 't tty \<times> (io_error + unit)) \<Rightarrow> (io_error + nat) list \<Rightarrow> 't RawModeGuard \<Rightarrow> 't tty \<Rightarrow> 't tty" where
  "raw_mode_drop tcsetattr answers g w =
     (if rm_active g then fst (tcsetattr (cleanup_terminal_features answers w) (rm_saved g)) else w)"

definition terminal_size :: "(u16 \<times> u16 \<times> u16 \<times> u16) option \<Rightarrow> TermSize" where
  "terminal_size ioctl =
     (case ioctl of
        None \<Rightarrow> \<lparr>rows = 24, cols = 80, width_px = 0, height_px = 0\<rparr>
      | Some (r, c, x, y) \<Rightarrow> \<lparr>rows = max r 1, cols = max c 1, width_px = x, height_px = y\<rparr>)"

section \<open>What the filter keeps and when it fires\<close>

lemma handle_keeps:
  assumes "handle f k b out = (e, f', out')"
  shows "ef_enabled f' = ef_enabled f" "partial f' = partial f"
    "\<not> e \<Longrightarrow> out' @ held f' = out @ held f @ b"
    "e \<Longrightarrow> f' = f \<and> out' = out \<and> k = KDot \<and> held f \<noteq> []"
  using assms by (auto simp: handle_def handle_key_def split: if_splits)

lemma push_loop_Nil: "push_loop f [] out = (False, f, out)"
  by (simp add: push_loop.simps)

lemma push_loop_unfinished:
  "input \<noteq> [] \<Longrightarrow> next_escape_key input = None \<Longrightarrow>
     push_loop f input out = (False, f\<lparr>partial := partial f @ input\<rparr>, out)"
  by (subst push_loop.simps) simp

lemma push_loop_key:
  assumes "input \<noteq> []" "next_escape_key input = Some (len, key)"
    "handle f key (take len input) out = (e1, f1, out1)"
  shows "push_loop f input out = (if e1 then (True, f1, out1) else push_loop f1 (drop len input) out1)"
  using assms by (subst push_loop.simps) simp

lemmas push_loop_steps = push_loop_Nil push_loop_unfinished push_loop_key

lemma push_loop_keeps:
  assumes "push_loop f input out = (e, f', out')" "partial f = []"
  shows "ef_enabled f' = ef_enabled f"
    and "\<not> e \<Longrightarrow> out' @ held f' @ partial f' = out @ held f @ input"
    and "e \<Longrightarrow> held f' \<noteq> [] \<and> (\<exists>rest. out @ held f @ input = out' @ held f' @ rest)"
proof (atomize (full), use assms in \<open>induction f input out rule: push_loop.induct\<close>)
  case (1 f input out)
  show ?case
  proof (cases "input = [] \<or> next_escape_key input = None")
    case True
    then show ?thesis using 1(2,3) by (cases "input = []") (auto simp: push_loop_steps)
  next
    case False
    then obtain len key where key: "input \<noteq> []" "next_escape_key input = Some (len, key)" by auto
    obtain e1 f1 out1 where h: "handle f key (take len input) out = (e1, f1, out1)"
      by (metis prod_cases3)
    note k = handle_keeps[OF h]
    show ?thesis
    proof (cases e1)
      case True
      then show ?thesis using 1(2) key h k(4) by (auto simp: push_loop_key)
    next
      case False
      have eq: "out1 @ held f1 @ drop len input = out @ held f @ input"
        using k(3)[OF False] by (metis append.assoc append_take_drop_id)
      have "push_loop f1 (drop len input) out1 = (e, f', out')"
        using 1(2) key h False by (simp add: push_loop_key)
      then have "ef_enabled f' = ef_enabled f1 \<and>
          (\<not> e \<longrightarrow> out' @ held f' @ partial f' = out1 @ held f1 @ drop len input) \<and>
          (e \<longrightarrow> held f' \<noteq> [] \<and> (\<exists>rest. out1 @ held f1 @ drop len input = out' @ held f' @ rest))"
        using 1(1)[OF key(1) key(2) refl h[symmetric]] 1(3) k(2) False by simp
      then show ?thesis using k(1) eq by simp
    qed
  qed
qed

text \<open>The keys in an input, and what is left of an unfinished one.\<close>

function cut_keys :: "byte list \<Rightarrow> (EscapeKey \<times> byte list) list \<times> byte list" where
  "cut_keys input =
     (if input = [] then ([], [])
      else case next_escape_key input of
             None \<Rightarrow> ([], input)
           | Some (len, key) \<Rightarrow>
               (case cut_keys (drop len input) of (ts, r) \<Rightarrow> ((key, take len input) # ts, r)))"
  by pat_completeness auto
termination
  by (relation "measure length") (auto dest: next_escape_key_len)

declare cut_keys.simps [simp del]

lemma cut_Nil: "cut_keys [] = ([], [])"
  by (simp add: cut_keys.simps)

lemma cut_unfinished: "input \<noteq> [] \<Longrightarrow> next_escape_key input = None \<Longrightarrow> cut_keys input = ([], input)"
  by (subst cut_keys.simps) simp

lemma cut_key:
  assumes "input \<noteq> []" "next_escape_key input = Some (len, key)"
  shows "cut_keys input = ((key, take len input) # fst (cut_keys (drop len input)), snd (cut_keys (drop len input)))"
  using assms by (subst cut_keys.simps) (simp add: case_prod_beta)

lemmas cut_steps = cut_Nil cut_unfinished cut_key

fun handle_keys ::
  "EscapeFilter \<Rightarrow> (EscapeKey \<times> byte list) list \<Rightarrow> byte list \<Rightarrow> bool \<times> EscapeFilter \<times> byte list" where
  "handle_keys f [] out = (False, f, out)"
| "handle_keys f ((k, b) # ts) out =
     (case handle f k b out of (True, r) \<Rightarrow> (True, r) | (False, f, out) \<Rightarrow> handle_keys f ts out)"

lemma push_loop_cut:
  "push_loop f input out =
     (case handle_keys f (fst (cut_keys input)) out of
        (True, r) \<Rightarrow> (True, r)
      | (False, f, out) \<Rightarrow> (False, f\<lparr>partial := partial f @ snd (cut_keys input)\<rparr>, out))"
proof (induction f input out rule: push_loop.induct)
  case (1 f input out)
  show ?case
  proof (cases "input = [] \<or> next_escape_key input = None")
    case True
    then show ?thesis by (cases "input = []") (auto simp: push_loop_steps cut_steps)
  next
    case False
    then obtain len key where key: "input \<noteq> []" "next_escape_key input = Some (len, key)" by auto
    obtain e1 f1 out1 where h: "handle f key (take len input) out = (e1, f1, out1)"
      by (metis prod_cases3)
    show ?thesis
      unfolding push_loop_key[OF key h] cut_key[OF key] fst_conv snd_conv
      using 1[OF key(1) key(2) refl h[symmetric]] h by (cases e1) simp_all
  qed
qed

lemma cut_bytes: "concat (map snd (fst (cut_keys input))) @ snd (cut_keys input) = input"
proof (induction input rule: cut_keys.induct)
  case (1 input)
  then show ?case
    by (cases "input = []"; cases "next_escape_key input") (auto simp: cut_steps)
qed

lemma cut_nonempty: "(k, b) \<in> set (fst (cut_keys input)) \<Longrightarrow> b \<noteq> []"
proof (induction input rule: cut_keys.induct)
  case (1 input)
  show ?case
  proof (cases "input = [] \<or> next_escape_key input = None")
    case True
    then show ?thesis using 1(2) by (cases "input = []") (simp_all add: cut_steps)
  next
    case False
    then obtain len key where key: "input \<noteq> []" "next_escape_key input = Some (len, key)" by auto
    then show ?thesis
      using 1 next_escape_key_len[OF key(2,1)] unfolding cut_key[OF key] by auto
  qed
qed

text \<open>
  The escape as a language of keys: a tilde on a fresh line, then a dot, with nothing but ignored
  reports between them.  A line is fresh at the start of the session and after Enter.
\<close>

definition fresh_line :: "bool \<Rightarrow> EscapeKey list \<Rightarrow> bool" where
  "fresh_line b ks = foldl (\<lambda>b k. if k = KIgnore then b else k = KEnter) b ks"

definition dot_next :: "EscapeKey list \<Rightarrow> bool" where
  "dot_next ks \<longleftrightarrow> (\<exists>igs post. ks = igs @ KDot # post \<and> set igs \<subseteq> {KIgnore})"

definition escapes :: "bool \<Rightarrow> EscapeKey list \<Rightarrow> bool" where
  "escapes b ks \<longleftrightarrow> (\<exists>pre rest. ks = pre @ KTilde # rest \<and> fresh_line b pre \<and> dot_next rest)"

lemma dot_next_Nil [simp]: "\<not> dot_next []"
  by (simp add: dot_next_def)

lemma dot_next_Cons [simp]: "dot_next (k # ks) \<longleftrightarrow> k = KDot \<or> k = KIgnore \<and> dot_next ks"
  by (auto simp: dot_next_def Cons_eq_append_conv) (metis append_Nil empty_iff list.set(1) subsetI, fastforce)

lemma escapes_Nil [simp]: "\<not> escapes b []"
  by (simp add: escapes_def)

lemma escapes_Cons [simp]:
  "escapes b (k # ks) \<longleftrightarrow>
     k = KTilde \<and> b \<and> dot_next ks \<or> escapes (if k = KIgnore then b else k = KEnter) ks"
proof -
  have *: "fresh_line b (k # pre) = fresh_line (if k = KIgnore then b else k = KEnter) pre"
    "fresh_line b [] = b" for pre
    by (simp_all add: fresh_line_def)
  show ?thesis
  proof (intro iffI; (elim disjE conjE)?)
    assume "escapes b (k # ks)"
    then obtain pre rest where "k # ks = pre @ KTilde # rest" "fresh_line b pre" "dot_next rest"
      by (auto simp: escapes_def)
    then show "k = KTilde \<and> b \<and> dot_next ks \<or> escapes (if k = KIgnore then b else k = KEnter) ks"
      by (cases pre; auto simp: * escapes_def; blast)
  next
    assume "k = KTilde" b "dot_next ks"
    then show "escapes b (k # ks)"
      unfolding escapes_def by (metis *(2) append_Nil)
  next
    assume "escapes (if k = KIgnore then b else k = KEnter) ks"
    then show "escapes b (k # ks)"
      unfolding escapes_def *(1)[symmetric] by (metis append_Cons)
  qed
qed

lemma handle_keys_escapes:
  assumes "\<forall>(k, b) \<in> set ts. b \<noteq> []"
  shows "fst (handle_keys f ts out) \<longleftrightarrow>
     held f \<noteq> [] \<and> dot_next (map fst ts) \<or> escapes (at_line_start f \<and> held f = []) (map fst ts)"
  using assms
proof (induction f ts out rule: handle_keys.induct)
  case (2 f k b ts out)
  obtain e1 f1 out1 where h: "handle f k b out = (e1, f1, out1)"
    by (metis prod_cases3)
  show ?case
    using 2(1)[OF h[symmetric]] 2(2) h
    by (cases "held f = []"; cases "at_line_start f"; cases k)
       (auto simp: handle_def handle_key_def)
qed simp


subsection \<open>Reading in pieces\<close>

text \<open>An unfinished control sequence: everything after the introducer is a parameter byte.\<close>

definition open_csi :: "byte list \<Rightarrow> bool" where
  "open_csi s \<longleftrightarrow> take 2 s = [0x1b, 0x5b] \<and> list_all (\<lambda>b. 0x20 \<le> b \<and> b \<le> 0x3f) (drop 2 s)"

text \<open>
  A place where the input may be cut without changing which keys are read: not right after an escape
  character, and not inside an unfinished sequence that is already over the limit.
\<close>

definition clean_break :: "byte list \<Rightarrow> bool" where
  "clean_break a \<longleftrightarrow> (a = [] \<or> last a \<noteq> 0x1b) \<and>
     (\<forall>i < length a. open_csi (drop i a) \<longrightarrow> length (drop i a) \<le> MAX_PARTIAL_CSI_LEN)"

lemma clean_break_drop: "clean_break a \<Longrightarrow> clean_break (drop n a)"
  unfolding clean_break_def
  by (auto simp: last_drop)

lemma csi_scan_None: "csi_scan rest i bs = None \<longleftrightarrow> list_all (\<lambda>b. 0x20 \<le> b \<and> b \<le> 0x3f) bs"
  by (induction rest i bs rule: csi_scan.induct) auto

lemma csi_scan_append:
  "csi_scan rest i bs = Some r \<Longrightarrow> i + length bs = length rest \<Longrightarrow> csi_scan (rest @ ys) i (bs @ ys) = Some r"
  by (induction rest i bs rule: csi_scan.induct) (auto split: if_splits)

lemma next_escape_key_append:
  assumes "next_escape_key a = Some (len, key)" "a \<noteq> []" "clean_break a"
  shows "next_escape_key (a @ b) = Some (len, key)"
proof (cases "\<exists>r. a = 0x1b # 0x5b # r")
  case True
  then obtain r where r: "a = 0x1b # 0x5b # r" by blast
  have "csi_scan r 0 r = Some (len, key)"
  proof (cases "csi_scan r 0 r")
    case None
    then have "open_csi (drop 0 a)"
      using r by (simp add: open_csi_def csi_scan_None)
    then have "length a \<le> MAX_PARTIAL_CSI_LEN"
      using assms(3) r unfolding clean_break_def by (metis assms(2) drop0 length_greater_0_conv)
    then show ?thesis using assms(1) r None by (simp add: next_escape_key_csi)
  qed (use assms(1) r in \<open>simp add: next_escape_key_csi\<close>)
  then show ?thesis
    using csi_scan_append[of r 0 r "(len, key)" b] r by (simp add: next_escape_key_csi)
next
  case False
  have "\<nexists>r. a @ b = 0x1b # 0x5b # r"
    using False assms(2,3) by (cases a rule: remdups_adj.cases) (auto simp: clean_break_def)
  then show ?thesis
    using assms(1,2) False by (cases a) (auto simp: next_escape_key_single byte_key_def)
qed

lemma cut_keys_append:
  "clean_break a \<Longrightarrow>
     cut_keys (a @ b) = (fst (cut_keys a) @ fst (cut_keys (snd (cut_keys a) @ b)), snd (cut_keys (snd (cut_keys a) @ b)))"
proof (induction a rule: cut_keys.induct)
  case (1 a)
  show ?case
  proof (cases "a = [] \<or> next_escape_key a = None")
    case True
    then show ?thesis by (cases "a = []") (simp_all add: cut_steps)
  next
    case False
    then obtain len key where key: "a \<noteq> []" "next_escape_key a = Some (len, key)" by auto
    have ab: "a @ b \<noteq> []" "next_escape_key (a @ b) = Some (len, key)"
      using key next_escape_key_append[OF key(2,1) 1(2)] by auto
    have len: "len \<le> length a" using next_escape_key_len[OF key(2,1)] by simp
    show ?thesis
      unfolding cut_key[OF key] cut_key[OF ab]
      using 1(1)[OF key(1) key(2) refl clean_break_drop[OF 1(2)]] len by simp
  qed
qed

lemma handle_keys_append:
  "handle_keys f (ts @ us) out =
     (case handle_keys f ts out of (True, r) \<Rightarrow> (True, r) | (False, f, out) \<Rightarrow> handle_keys f us out)"
  by (induction f ts out rule: handle_keys.induct) (auto split: prod.split bool.split)

lemma handle_keys_keeps:
  "handle_keys f ts out = (e, f', out') \<Longrightarrow> ef_enabled f' = ef_enabled f \<and> partial f' = partial f"
proof (induction f ts out rule: handle_keys.induct)
  case (2 f k b ts out)
  obtain e1 f1 out1 where h: "handle f k b out = (e1, f1, out1)"
    by (metis prod_cases3)
  show ?case
    using 2(1)[OF h[symmetric]] 2(2) h handle_keeps[OF h] by (cases e1) simp_all
qed simp

lemma push_append:
  assumes "clean_break (partial f @ a)"
  shows "push f (a @ b) out =
     (case push f a out of (True, r) \<Rightarrow> (True, r) | (False, f, out) \<Rightarrow> push f b out)"
proof (cases "ef_enabled f")
  case True
  let ?f = "f\<lparr>partial := []\<rparr>" and ?a = "cut_keys (partial f @ a)"
  obtain e1 f1 out1 where h: "handle_keys ?f (fst ?a) out = (e1, f1, out1)"
    by (metis prod_cases3)
  have k: "ef_enabled f1" "partial f1 = []" "f1\<lparr>partial := []\<rparr> = f1"
    using handle_keys_keeps[OF h] True by auto
  have c: "cut_keys (partial f @ a @ b) =
      (fst ?a @ fst (cut_keys (snd ?a @ b)), snd (cut_keys (snd ?a @ b)))"
    using cut_keys_append[OF assms, of b] by simp
  show ?thesis
  proof (cases e1)
    case True
    then show ?thesis
      using \<open>ef_enabled f\<close> h by (simp add: push_def push_loop_cut c handle_keys_append)
  next
    case False
    then have a: "push f a out = (False, f1\<lparr>partial := snd ?a\<rparr>, out1)"
      using \<open>ef_enabled f\<close> h k by (simp add: push_def push_loop_cut)
    show ?thesis
      using \<open>ef_enabled f\<close> h k False
      by (simp add: a)
         (simp add: push_def push_loop_cut c handle_keys_append k(3) split: prod.split bool.split)
  qed
qed (simp add: push_def)

section \<open>The alternate screen\<close>

definition param_mode :: "nat \<Rightarrow> AltScreen option" where
  "param_mode n = (if n = 47 \<or> n = 1047 then Some AltPlain else if n = 1049 then Some AltSaveCursor else None)"

text \<open>The mode named last by a list of parameters.\<close>

fun last_mode :: "AltScreen option \<Rightarrow> nat list \<Rightarrow> AltScreen option" where
  "last_mode m [] = m"
| "last_mode m (n # ns) = last_mode (case param_mode n of None \<Rightarrow> m | Some a \<Rightarrow> Some a) ns"

text \<open>A private mode sequence as the remote side prints it.\<close>

definition private_seq :: "nat list \<Rightarrow> char \<Rightarrow> byte list" where
  "private_seq ns c = csi (''?'' @ join_pieces (CHR '';'') (map show_nat ns) @ [c])"

lemma tracker_digit:
  assumes "csi_state t = PrivateParams" "is_digit c"
  shows "tracker_byte t (word_of_nat (code c)) =
           t\<lparr>param := sat_add (sat_mul (param t) 10) (word_of_nat (code c - 48))\<rparr>"
proof -
  let ?b = "word_of_nat (code c) :: byte"
  have u: "unat ?b = code c" by simp
  have d: "48 \<le> code c" "code c \<le> 57" using assms(2) by (simp_all add: is_digit_def)
  have "?b \<noteq> 0x1b" "?b \<noteq> 0x18" "?b \<noteq> 0x1a" "\<not> ?b \<le> 0x1f" "0x30 \<le> ?b" "?b \<le> 0x39"
    using d by (simp_all only: word_unat_eq_iff word_le_nat_alt u) simp_all
  moreover have "ucast (?b - 0x30) = (word_of_nat (code c - 48) :: u32)"
    using d by (simp only: word_unat_eq_iff) (simp add: unat_sub word_le_nat_alt unat_of_nat_small unsigned_ucast_eq take_bit_nat_eq_self)
  ultimately show ?thesis
    using assms(1) by (simp add: tracker_byte_def Let_def)
qed

text \<open>A number as the saturating accumulator holds it.\<close>

definition u32_cap :: "nat \<Rightarrow> u32" where
  "u32_cap n = word_of_nat (min n (2 ^ 32 - 1))"

lemma unat_u32_cap: "unat (u32_cap n) = min n (2 ^ 32 - 1)"
proof -
  have "min n (2 ^ 32 - 1) < 2 ^ LENGTH(32)" by simp
  then show ?thesis unfolding u32_cap_def by (rule unat_of_nat_small)
qed

lemma u32_cap_0 [simp]: "u32_cap 0 = 0"
  by (simp add: u32_cap_def)

lemma u32_cap_step: "d < 10 \<Longrightarrow> sat_add (sat_mul (u32_cap v) 10) (word_of_nat d) = u32_cap (10 * v + d)"
  by (subst word_unat_eq_iff)
     (simp add: unat_sat_add unat_sat_mul unat_u32_cap unat_of_nat_small min_def)

lemma u32_cap_eq: "unat k < 2 ^ 32 - 1 \<Longrightarrow> u32_cap n = k \<longleftrightarrow> n = unat k"
  by (subst word_unat_eq_iff) (auto simp: unat_u32_cap min_def split: if_splits)

lemma tracker_digits:
  assumes "csi_state t = PrivateParams" "list_all is_digit s" "param t = u32_cap v"
  shows "foldl tracker_byte t (as_bytes s) =
           t\<lparr>param := u32_cap (foldl (\<lambda>n c. 10 * n + (code c - 48)) v s)\<rparr>"
  using assms
proof (induction s arbitrary: t v)
  case (Cons c s)
  have "is_digit c" "code c - 48 < 10" using Cons.prems(2) by (auto simp: is_digit_def)
  then show ?case
    using Cons.prems Cons.IH[of "t\<lparr>param := u32_cap (10 * v + (code c - 48))\<rparr>" "10 * v + (code c - 48)"]
    by (simp add: as_bytes_def tracker_digit u32_cap_step)
qed (simp add: as_bytes_def)

lemma tracker_number:
  assumes "csi_state t = PrivateParams" "param t = 0"
  shows "foldl tracker_byte t (as_bytes (show_nat n)) = t\<lparr>param := u32_cap n\<rparr>"
  using tracker_digits[of t "show_nat n" 0] assms show_nat_digits[of n]
  by (simp add: digits_val_def)

lemma end_param_cap:
  "end_param (t\<lparr>param := u32_cap n\<rparr>) =
     t\<lparr>param := 0, seq_mode := (case param_mode n of None \<Rightarrow> seq_mode t | Some m \<Rightarrow> Some m)\<rparr>"
  by (cases t) (simp add: end_param_def param_mode_def u32_cap_eq)

lemma tracker_semicolon:
  "csi_state t = PrivateParams \<Longrightarrow> tracker_byte t 0x3b = (end_param t)\<lparr>csi_state := PrivateParams\<rparr>"
  by (simp add: tracker_byte_def)

lemma tracker_params:
  assumes "csi_state t = PrivateParams" "param t = 0"
  shows "end_param (foldl tracker_byte t (as_bytes (join_pieces (CHR '';'') (map show_nat ns)))) =
           t\<lparr>param := 0, seq_mode := last_mode (seq_mode t) ns\<rparr>
       \<and> csi_state (foldl tracker_byte t (as_bytes (join_pieces (CHR '';'') (map show_nat ns)))) = PrivateParams"
  using assms
proof (induction "seq_mode t" ns arbitrary: t rule: last_mode.induct)
  case 1
  then show ?case
    using end_param_cap[where t = t and n = 0] by (cases t) (simp add: as_bytes_def param_mode_def)
next
  case (2 n ns)
  have n: "foldl tracker_byte t (as_bytes (show_nat n)) = t\<lparr>param := u32_cap n\<rparr>"
    using 2(2,3) by (rule tracker_number)
  show ?case
  proof (cases ns)
    case Nil
    then show ?thesis
      using n 2(2,3) end_param_cap[where t = t and n = n] by simp
  next
    case (Cons n' ns')
    let ?t = "t\<lparr>param := 0, seq_mode := (case param_mode n of None \<Rightarrow> seq_mode t | Some m \<Rightarrow> Some m)\<rparr>"
    have "tracker_byte (t\<lparr>param := u32_cap n\<rparr>) 0x3b = ?t"
      using 2(2,3) end_param_cap[where t = t and n = n] by (cases t) (simp add: tracker_semicolon)
    then show ?thesis
      using n 2(1)[of ?t] 2(2,3) Cons by (simp add: as_bytes_def code_def)
  qed
qed

lemma tracker_final:
  assumes "csi_state t = PrivateParams"
  shows "tracker_byte t 0x68 = (end_param t)\<lparr>csi_state := Ground,
      alt := (case seq_mode (end_param t) of None \<Rightarrow> alt (end_param t) | Some m \<Rightarrow> m)\<rparr>"
    "tracker_byte t 0x6c = (end_param t)\<lparr>csi_state := Ground,
      alt := (case seq_mode (end_param t) of None \<Rightarrow> alt (end_param t) | Some m \<Rightarrow> AltOff)\<rparr>"
  using assms by (simp_all add: tracker_byte_def Let_def split: option.split)

lemma foldl_private_seq:
  assumes "c = CHR ''h'' \<or> c = CHR ''l''"
  shows "foldl tracker_byte t (private_seq ns c) =
     t\<lparr>csi_state := Ground, param := 0, seq_mode := last_mode None ns,
        alt := (case last_mode None ns of
                  None \<Rightarrow> alt t | Some m \<Rightarrow> if c = CHR ''h'' then m else AltOff)\<rparr>"
proof -
  let ?t = "t\<lparr>param := 0, seq_mode := None, csi_state := PrivateParams\<rparr>"
  let ?p = "foldl tracker_byte ?t (as_bytes (join_pieces (CHR '';'') (map show_nat ns)))"
  have "foldl tracker_byte t (private_seq ns c) = tracker_byte ?p (word_of_nat (code c))"
    by (simp add: private_seq_def csi_def as_bytes_def code_def tracker_byte_def)
  also have "\<dots> = tracker_byte ?p (if c = CHR ''h'' then 0x68 else 0x6c)"
    using assms by (auto simp: code_def)
  finally show ?thesis
    using tracker_params[of ?t ns] assms by (cases t) (auto simp: tracker_final split: option.split)
qed

lemma tracker_other_csi:
  "foldl tracker_byte t (csi ''<u'') = t\<lparr>csi_state := Ground\<rparr>"
  "foldl tracker_byte t (csi ''=0u'') = t\<lparr>csi_state := Ground\<rparr>"
  "foldl tracker_byte t (csi ''0 q'') = t\<lparr>csi_state := Ground\<rparr>"
  "foldl tracker_byte t (csi ''0m'') = t\<lparr>csi_state := Ground\<rparr>"
  by (simp_all add: csi_def as_bytes_def code_def tracker_byte_def)

lemma cleanup_seqs:
  "csi ''?9;1000;1001;1002;1003;1005;1006;1015;1016l'' =
     private_seq [9, 1000, 1001, 1002, 1003, 1005, 1006, 1015, 1016] (CHR ''l'')"
  "csi ''?1004l'' = private_seq [1004] (CHR ''l'')"
  "csi ''?2004;2005;2006l'' = private_seq [2004, 2005, 2006] (CHR ''l'')"
  "csi ''?2026l'' = private_seq [2026] (CHR ''l'')"
  "csi ''?1l'' = private_seq [1] (CHR ''l'')" "csi ''?5l'' = private_seq [5] (CHR ''l'')"
  "csi ''?6l'' = private_seq [6] (CHR ''l'')" "csi ''?7h'' = private_seq [7] (CHR ''h'')"
  "csi ''?12l'' = private_seq [12] (CHR ''l'')" "csi ''?25h'' = private_seq [25] (CHR ''h'')"
  "csi ''?66l'' = private_seq [66] (CHR ''l'')" "csi ''?1047l'' = private_seq [1047] (CHR ''l'')"
  "csi ''?1049l'' = private_seq [1049] (CHR ''l'')"
  by code_simp+

lemma tracker_cleanup:
  "alt (foldl tracker_byte t TERMINAL_CLEANUP_BEFORE_ALT_SCREEN) = alt t"
  "alt (foldl tracker_byte t TERMINAL_CLEANUP_AFTER_ALT_SCREEN) = alt t"
  unfolding TERMINAL_CLEANUP_BEFORE_ALT_SCREEN_def TERMINAL_CLEANUP_AFTER_ALT_SCREEN_def cleanup_seqs
  by (simp_all add: foldl_private_seq tracker_other_csi param_mode_def)

lemma tracker_push_foldl [simp]: "snd (tracker_push t out) = foldl tracker_byte t out"
  by (simp add: tracker_push_def Let_def)

lemma remote_alt_screen_u8 [simp]: "remote_alt_screen (alt_as_u8 a) = a"
  by (cases a) (simp_all add: remote_alt_screen_def)

lemma write_all_fd_ok:
  "write_all_fd answers buf = (w, r) \<Longrightarrow> \<exists>rest. buf = w @ rest"
proof (induction answers buf arbitrary: w r rule: write_all_fd.induct)
  case (3 n answers b buf)
  then show ?case
    by (auto split: if_splits prod.splits) (metis append.assoc append_take_drop_id)
qed (auto split: if_splits)

text \<open>With a terminal that takes at least a byte per call and never fails, all of it is written.\<close>

lemma write_all_fd_all:
  assumes "\<forall>a \<in> set answers. \<exists>n. a = Inr (Suc n)" "length buf \<le> length answers"
  shows "write_all_fd answers buf = (buf, Some (Inr ()))"
  using assms
proof (induction answers buf rule: write_all_fd.induct)
  case (3 n answers b buf)
  then obtain m where "n = Suc m" by auto
  then show ?case using 3 by simp
qed auto

section \<open>Properties\<close>

text \<open>Nothing the user types is lost or reordered by the escape filter.  For every state of the
  filter and every piece of input, a filter that is off passes the input on as it is.  Otherwise
  either the filter does not fire, and what it
  has passed on, then what it still holds, then the unfinished sequence it carries, is exactly what it
  had before followed by the input; or it fires, and then what it passed on and held is a prefix of
  the input, so that nothing typed after the escape reaches the remote side.\<close>

theorem escape_filter_conserves:
  "case push f input out of (fired, f', out') \<Rightarrow>
     (if \<not> ef_enabled f then \<not> fired \<and> f' = f \<and> out' = out @ input
      else if fired
      then held f' \<noteq> [] \<and> (\<exists>rest. out @ held f @ partial f @ input = out' @ held f' @ rest)
      else out' @ held f' @ partial f' = out @ held f @ partial f @ input)"
proof -
  obtain e f' out' where p: "push f input out = (e, f', out')" by (metis prod_cases3)
  show ?thesis
  proof (cases "ef_enabled f")
    case True
    then have "push_loop (f\<lparr>partial := []\<rparr>) (partial f @ input) out = (e, f', out')"
      using p by (simp add: push_def)
    from push_loop_keeps[OF this] show ?thesis using True by (simp add: p)
  next
    case False
    then show ?thesis using p by (auto simp: push_def)
  qed
qed


text \<open>How the terminal's input is cut into reads does not matter: pushing two pieces one after the
  other has the effect of pushing them together, unless the first piece ends in an escape character
  (which is passed on at once as the Escape key) or in an unfinished sequence over the limit.\<close>

theorem push_in_pieces:
  assumes "clean_break (partial f @ a)"
  shows "push f (a @ b) out =
     (case push f a out of (True, r) \<Rightarrow> (True, r) | (False, f, out) \<Rightarrow> push f b out)"
  using assms by (rule push_append)

theorem push_in_pieces_witness:
  "clean_break [0x0d, 0x7e, 0x1b, 0x5b, 0x34]
   \<and> fst (push (escape_new True) [0x0d, 0x7e, 0x1b, 0x5b, 0x34, 0x36, 0x75] [])"
proof
  show c: "clean_break [0x0d, 0x7e, 0x1b, 0x5b, 0x34]"
    by (auto simp: clean_break_def MAX_PARTIAL_CSI_LEN_def)
  have "clean_break (partial (escape_new True) @ [0x0d, 0x7e, 0x1b, 0x5b, 0x34])"
    using c by (simp add: escape_new_def)
  from push_in_pieces[OF this, of "[0x36, 0x75]" "[]"]
  have "push (escape_new True) [0x0d, 0x7e, 0x1b, 0x5b, 0x34, 0x36, 0x75] [] =
     (case push (escape_new True) [0x0d, 0x7e, 0x1b, 0x5b, 0x34] [] of
        (True, r) \<Rightarrow> (True, r) | (False, f, out) \<Rightarrow> push f [0x36, 0x75] out)"
    by simp
  moreover have "fst (case push (escape_new True) [0x0d, 0x7e, 0x1b, 0x5b, 0x34] [] of
        (True, r) \<Rightarrow> (True, r) | (False, f, out) \<Rightarrow> push f [0x36, 0x75] out)"
    by code_simp
  ultimately show "fst (push (escape_new True) [0x0d, 0x7e, 0x1b, 0x5b, 0x34, 0x36, 0x75] [])"
    by simp
qed

text \<open>The tracker reads private mode sequences as a terminal does: from any state, after
  setting or resetting any list of modes, of any size, the screen is the one named last in the list,
  off for a reset, and unchanged when none of them names a screen.\<close>

theorem alt_screen_sequence:
  "alt (snd (tracker_push t (private_seq ns (CHR ''h'')))) =
     (case last_mode None ns of None \<Rightarrow> alt t | Some m \<Rightarrow> m)
   \<and> alt (snd (tracker_push t (private_seq ns (CHR ''l'')))) =
     (case last_mode None ns of None \<Rightarrow> alt t | Some m \<Rightarrow> AltOff)"
  by (simp add: foldl_private_seq split: option.split)

text \<open>The cleanup leaves the terminal on its main screen.  Whatever the remote side printed, a
  terminal that follows its output and then the cleanup sequences for the screen the tracker saw is
  off the alternate screen; and when the tracker saw the main screen, no part of the cleanup asks for
  a screen to be left.\<close>

theorem cleanup_leaves_alt_screen:
  "alt (foldl tracker_byte t (terminal_cleanup_sequences (remote_alt_screen (alt_as_u8 (alt t))))) = AltOff
   \<and> terminal_cleanup_sequences AltOff = TERMINAL_CLEANUP_BEFORE_ALT_SCREEN @ TERMINAL_CLEANUP_AFTER_ALT_SCREEN
   \<and> alt (foldl tracker_byte t (terminal_cleanup_sequences AltOff)) = alt t"
  unfolding remote_alt_screen_u8
  by (cases "alt t")
     (simp_all add: terminal_cleanup_sequences_def tracker_cleanup cleanup_seqs foldl_private_seq param_mode_def)

end
