(* ===== verification/ClientSession.thy ===== *)
theory ClientSession
  imports Terminal
begin

text \<open>
  \<open>hush/src/session.rs\<close> and the signal watchers of \<open>hush/src/os.rs\<close>: what the client does between
  opening a session and exiting.  Each task is a function of the script of what it receives: the
  results of successive reads, the side streams the server opens, the events of the \<open>select\<close> loops
  in the order they are taken.  A script that ends before the task does gives None: the task still
  waits.
\<close>

section \<open>The request\<close>

definition STDIO_BUFFER_LEN :: nat where "STDIO_BUFFER_LEN = 8192"

definition choose_mode ::
  "bool \<Rightarrow> bool \<Rightarrow> string option \<Rightarrow> bool \<Rightarrow> bool \<Rightarrow> string option \<Rightarrow> TermSize \<Rightarrow> SessionMode" where
  "choose_mode force_tty no_tty term_override stdin_tty stdout_tty env_term tsize =
     (if no_tty then Pipes
      else if force_tty \<or> stdin_tty \<and> stdout_tty then
        Pty (case term_override of
               Some t \<Rightarrow> t
             | None \<Rightarrow> (case env_term of Some t \<Rightarrow> t | None \<Rightarrow> ''xterm-256color'')) tsize
      else Pipes)"

definition session_env :: "SessionMode \<Rightarrow> (string \<times> string) list \<Rightarrow> EnvVar list" where
  "session_env mode vars =
     (case mode of Pty t _ \<Rightarrow> [\<lparr>ev_key = ''TERM'', ev_value = t\<rparr>] | Pipes \<Rightarrow> [])
     @ map (\<lambda>(k, v). \<lparr>ev_key = k, ev_value = v\<rparr>)
         (filter (\<lambda>(k, v). k = ''LANG'' \<or> starts_with ''LC_'' k) vars)"

section \<open>Standard input\<close>

datatype StdinPumpExit = PumpEof | PumpEscape

text \<open>
  \<open>wr\<close> writes to the stream and \<open>fin\<close> finishes it.  Waiting for the peer to acknowledge the end
  changes nothing the client can see.
\<close>

fun stdio_loop ::
  "('s \<Rightarrow> byte list \<Rightarrow> 's res) \<Rightarrow> ('s \<Rightarrow> 's res) \<Rightarrow> EscapeFilter \<Rightarrow> 's \<Rightarrow> (io_error + byte list) list
     \<Rightarrow> 's \<times> StdinPumpExit res option" where
  "stdio_loop wr fin escape s [] = (s, None)"
| "stdio_loop wr fin escape s (Inl e # reads) = (s, Some (Inl (Io e)))"
| "stdio_loop wr fin escape s (Inr buf # reads) =
     (if buf = [] then
        (let out = snd (finish escape [])
         in case (if out = [] then Inr s else wr s out) of
              Inl e \<Rightarrow> (s, Some (Inl e))
            | Inr s \<Rightarrow> (case fin s of Inl e \<Rightarrow> (s, Some (Inl e)) | Inr s \<Rightarrow> (s, Some (Inr PumpEof))))
      else case push escape buf [] of
             (True, _) \<Rightarrow> (s, Some (Inr PumpEscape))
           | (False, escape, out) \<Rightarrow>
               (case (if out = [] then Inr s else wr s out) of
                  Inl e \<Rightarrow> (s, Some (Inl e))
                | Inr s \<Rightarrow> stdio_loop wr fin escape s reads))"

definition stdio_to_quic ::
  "('s \<Rightarrow> byte list \<Rightarrow> 's res) \<Rightarrow> ('s \<Rightarrow> 's res) \<Rightarrow> bool \<Rightarrow> 's \<Rightarrow> (io_error + byte list) list
     \<Rightarrow> 's \<times> StdinPumpExit res option" where
  "stdio_to_quic wr fin stdin_tty s reads = stdio_loop wr fin (escape_new stdin_tty) s reads"

text \<open>Whether the pump tells the session that the escape was typed.\<close>

definition pump_signals_escape :: "StdinPumpExit res option \<Rightarrow> bool" where
  "pump_signals_escape r =
     (case r of Some (Inr PumpEscape) \<Rightarrow> True | Some (Inr PumpEof) \<Rightarrow> False | Some (Inl _) \<Rightarrow> False
      | None \<Rightarrow> False)"

section \<open>Standard output\<close>

text \<open>A read of the stream is an error, the end (None) or data; \<open>fl\<close> flushes.\<close>

fun quic_to_writer ::
  "('s \<Rightarrow> byte list \<Rightarrow> 's res) \<Rightarrow> ('s \<Rightarrow> 's res) \<Rightarrow> 's \<Rightarrow> (error + byte list option) list \<Rightarrow> 's \<times> unit res option" where
  "quic_to_writer wr fl s [] = (s, None)"
| "quic_to_writer wr fl s (Inl e # reads) = (s, Some (Inl e))"
| "quic_to_writer wr fl s (Inr d # reads) =
     (if d = None \<or> d = Some [] then
        (case fl s of Inl e \<Rightarrow> (s, Some (Inl e)) | Inr s \<Rightarrow> (s, Some (Inr ())))
      else case wr s (the d) of
             Inl e \<Rightarrow> (s, Some (Inl e))
           | Inr s \<Rightarrow> (case fl s of Inl e \<Rightarrow> (s, Some (Inl e)) | Inr s \<Rightarrow> quic_to_writer wr fl s reads))"

datatype std_fd = StdoutFd | StderrFd | OtherFd int

definition quic_to_stdio ::
  "(std_fd \<Rightarrow> 's \<Rightarrow> byte list \<Rightarrow> 's res) \<Rightarrow> (std_fd \<Rightarrow> 's \<Rightarrow> 's res) \<Rightarrow> (int \<Rightarrow> string) \<Rightarrow> std_fd \<Rightarrow> 's
     \<Rightarrow> (error + byte list option) list \<Rightarrow> 's \<times> unit res option" where
  "quic_to_stdio wr fl show_int fd s reads =
     (case fd of
        StdoutFd \<Rightarrow> quic_to_writer (wr StdoutFd) (fl StdoutFd) s reads
      | StderrFd \<Rightarrow> quic_to_writer (wr StderrFd) (fl StderrFd) s reads
      | OtherFd n \<Rightarrow> (s, Some (Inl (Bail (''unsupported output descriptor '' @ show_int n)))))"

text \<open>Writing to the terminal appends to what it shows; \<open>fails\<close> says when a write or a flush fails.\<close>

definition tty_write :: "('t tty \<Rightarrow> error option) \<Rightarrow> 't tty \<Rightarrow> byte list \<Rightarrow> 't tty res" where
  "tty_write fails w b = (case fails w of Some e \<Rightarrow> Inl e | None \<Rightarrow> Inr (w\<lparr>tty_out := tty_out w @ b\<rparr>))"

definition tty_flush :: "('t tty \<Rightarrow> error option) \<Rightarrow> 't tty \<Rightarrow> 't tty res" where
  "tty_flush fails w = (case fails w of Some e \<Rightarrow> Inl e | None \<Rightarrow> Inr w)"

fun terminal_loop ::
  "('t tty \<Rightarrow> error option) \<Rightarrow> AltScreenTracker \<Rightarrow> 't tty \<Rightarrow> (error + byte list option) list
     \<Rightarrow> 't tty \<times> unit res option" where
  "terminal_loop fails t w [] = (w, None)"
| "terminal_loop fails t w (Inl e # reads) = (w, Some (Inl e))"
| "terminal_loop fails t w (Inr d # reads) =
     (if d = None \<or> d = Some [] then
        (case tty_flush fails w of Inl e \<Rightarrow> (w, Some (Inl e)) | Inr w \<Rightarrow> (w, Some (Inr ())))
      else
        (let (changed, t) = tracker_push t (the d);
             w = (if changed then w\<lparr>tty_alt := alt_as_u8 (alt t)\<rparr> else w)
         in case tty_write fails w (the d) of
              Inl e \<Rightarrow> (w, Some (Inl e))
            | Inr w \<Rightarrow>
                (case tty_flush fails w of
                   Inl e \<Rightarrow> (w, Some (Inl e))
                 | Inr w \<Rightarrow> terminal_loop fails t w reads)))"

definition quic_to_terminal ::
  "('t tty \<Rightarrow> error option) \<Rightarrow> 't tty \<Rightarrow> (error + byte list option) list \<Rightarrow> 't tty \<times> unit res option" where
  "quic_to_terminal fails w reads = terminal_loop fails tracker_default w reads"

section \<open>Control\<close>

definition expect_session_ready ::
  "(byte list \<Rightarrow> StreamResponse res) \<Rightarrow> error \<Rightarrow> (StreamResponse \<Rightarrow> string) \<Rightarrow> byte list \<Rightarrow> byte list res" where
  "expect_session_ready des eof dbg recv =
     and_then (read_frame des eof recv) (\<lambda>(r, recv).
       case r of
         SessionReady \<Rightarrow> Inr recv
       | RespError err \<Rightarrow> Inl (Bail err)
       | _ \<Rightarrow> Inl (Bail (''unexpected control response: '' @ dbg r)))"

text \<open>The side streams as they are accepted: an error of the connection, or the bytes of a stream.\<close>

fun read_exit_status ::
  "(byte list \<Rightarrow> StreamOpen res) \<Rightarrow> error \<Rightarrow> (error + byte list) list \<Rightarrow> ProcessExit res option" where
  "read_exit_status des eof [] = None"
| "read_exit_status des eof (Inl e # streams) = Some (Inl e)"
| "read_exit_status des eof (Inr b # streams) =
     (case read_frame des eof b of
        Inl e \<Rightarrow> Some (Inl e)
      | Inr (SessionExitStatus status, _) \<Rightarrow> Some (Inr status)
      | Inr (SessionError err, _) \<Rightarrow> Some (Inl (Bail err))
      | Inr _ \<Rightarrow> read_exit_status des eof streams)"

text \<open>
  The loop of \<open>run_pipes\<close> that waits for the standard error stream: the rest of that stream, the
  status that came before it, and the side streams not yet accepted.
\<close>

fun await_stderr ::
  "(byte list \<Rightarrow> StreamOpen res) \<Rightarrow> error \<Rightarrow> ProcessExit res option \<Rightarrow> (error + byte list) list
     \<Rightarrow> (byte list \<times> ProcessExit res option \<times> (error + byte list) list) res option" where
  "await_stderr des eof deferred [] = None"
| "await_stderr des eof deferred (Inl e # streams) = Some (Inl e)"
| "await_stderr des eof deferred (Inr b # streams) =
     (case read_frame des eof b of
        Inl e \<Rightarrow> Some (Inl e)
      | Inr (SessionStderr, recv) \<Rightarrow> Some (Inr (recv, deferred, streams))
      | Inr (SessionExitStatus status, _) \<Rightarrow> await_stderr des eof (Some (Inr status)) streams
      | Inr (SessionError err, _) \<Rightarrow> await_stderr des eof (Some (Inl (Bail err))) streams
      | Inr _ \<Rightarrow> await_stderr des eof deferred streams)"

text \<open>The status task of \<open>run_pipes\<close>.\<close>

definition status_task ::
  "(byte list \<Rightarrow> StreamOpen res) \<Rightarrow> error \<Rightarrow> ProcessExit res option \<Rightarrow> (error + byte list) list
     \<Rightarrow> ProcessExit res option" where
  "status_task des eof deferred streams =
     (case deferred of Some result \<Rightarrow> Some result | None \<Rightarrow> read_exit_status des eof streams)"

datatype SessionEnd = EndRemote ProcessExit | EndEscape | EndError error

definition completed_status :: "error + ProcessExit res \<Rightarrow> SessionEnd" where
  "completed_status status =
     (case status of
        Inr (Inr st) \<Rightarrow> EndRemote st
      | Inr (Inl err) \<Rightarrow> EndError err
      | Inl err \<Rightarrow> EndError err)"

datatype session_event =
    StatusDone "error + ProcessExit res" | EscapeTyped | LocalSignal RemoteSignal

text \<open>What the process does last: exit with a code after printing to standard error, or raise a signal.\<close>

datatype process_end = ExitWith int | RaiseSignal RemoteSignal

definition finish_session :: "SessionEnd \<Rightarrow> process_end" where
  "finish_session e =
     (case e of
        EndRemote (ExitCode n) \<Rightarrow> ExitWith n
      | EndRemote (ExitSignal sig) \<Rightarrow> RaiseSignal sig
      | EndEscape \<Rightarrow> ExitWith 255
      | EndError _ \<Rightarrow> ExitWith 255)"

text \<open>
  The \<open>select\<close> loop of \<open>run_pipes\<close>: how the session ends, whether the watchdog that turns a second
  of silence after SIGTERM into the client's own death was started, and whether the connection was closed.
\<close>

fun pipes_loop :: "bool \<Rightarrow> session_event list \<Rightarrow> (SessionEnd \<times> bool \<times> bool) option" where
  "pipes_loop watchdog [] = None"
| "pipes_loop watchdog (StatusDone status # evs) = Some (completed_status status, watchdog, False)"
| "pipes_loop watchdog (EscapeTyped # evs) = Some (EndEscape, watchdog, True)"
| "pipes_loop watchdog (LocalSignal sig # evs) = pipes_loop (watchdog \<or> sig = SIGTERM) evs"

text \<open>The \<open>select\<close> of \<open>run_pty\<close>, which watches no local signals.\<close>

fun pty_select :: "session_event list \<Rightarrow> (SessionEnd \<times> bool) option" where
  "pty_select [] = None"
| "pty_select (StatusDone status # evs) = Some (completed_status status, False)"
| "pty_select (EscapeTyped # evs) = Some (EndEscape, True)"
| "pty_select (LocalSignal sig # evs) = pty_select evs"

text \<open>
  \<open>run_pty\<close>: raw mode on, the request written and acknowledged, the output shown until the session
  ends, raw mode off.  An error on the way returns and drops the guard, too.  \<open>opened\<close> is the outcome
  of opening the stream and writing the request, \<open>hello\<close> what the server answers on it, \<open>reads\<close> what
  the output task reads before the client gives up waiting for it.
\<close>

definition run_pty ::
  "('t tty \<Rightarrow> 't tty \<times> 't RawModeGuard res) \<Rightarrow> ('t RawModeGuard \<Rightarrow> 't tty \<Rightarrow> 't tty)
     \<Rightarrow> (byte list \<Rightarrow> StreamResponse res) \<Rightarrow> error \<Rightarrow> (StreamResponse \<Rightarrow> string) \<Rightarrow> ('t tty \<Rightarrow> error option)
     \<Rightarrow> unit res \<Rightarrow> byte list \<Rightarrow> (error + byte list option) list \<Rightarrow> session_event list
     \<Rightarrow> 't tty \<Rightarrow> 't tty \<times> (error + process_end) option" where
  "run_pty enable dropg des eof dbg fails opened hello reads evs w =
     (case enable w of
        (w, Inl e) \<Rightarrow> (w, Some (Inl e))
      | (w, Inr raw) \<Rightarrow>
          (case and_then opened (\<lambda>_. expect_session_ready des eof dbg hello) of
             Inl e \<Rightarrow> (dropg raw w, Some (Inl e))
           | Inr _ \<Rightarrow>
               (let w = fst (quic_to_terminal fails w reads)
                in case pty_select evs of
                     None \<Rightarrow> (w, None)
                   | Some (end_, closed) \<Rightarrow> (dropg raw w, Some (Inr (finish_session end_))))))"

section \<open>Watchers\<close>

text \<open>
  What is sent over the connection and to the session for each signal.  Failing to queue either is
  ignored.
\<close>

fun watch_signals :: "RemoteSignal list \<Rightarrow> StreamOpen list \<times> RemoteSignal list" where
  "watch_signals [] = ([], [])"
| "watch_signals (sig # sigs) =
     (case watch_signals sigs of (tx, local_tx) \<Rightarrow> (SignalMsg sig # tx, sig # local_tx))"

definition watch_resize :: "TermSize list \<Rightarrow> StreamOpen list" where
  "watch_resize sizes = map Resize sizes"

text \<open>Each queued message travels on a stream of its own.\<close>

fun stream_open_writer ::
  "(StreamOpen \<Rightarrow> byte list res) \<Rightarrow> unit res list \<Rightarrow> StreamOpen list \<Rightarrow> (int \<times> byte list) list
     \<Rightarrow> (int \<times> byte list) list \<times> unit res option" where
  "stream_open_writer ser opens [] streams = (streams, Some (Inr ()))"
| "stream_open_writer ser [] (h # hs) streams = (streams, None)"
| "stream_open_writer ser (Inl e # opens) (h # hs) streams = (streams, Some (Inl e))"
| "stream_open_writer ser (Inr _ # opens) (h # hs) streams =
     (case write_frame ser vec_write [] h of
        Inl e \<Rightarrow> (streams, Some (Inl e))
      | Inr b \<Rightarrow> stream_open_writer ser opens hs (streams @ [(priority_value PrioShell, b)]))"

section \<open>Facts about the tasks\<close>

lemma push_cases:
  obtains (off) "\<not> ef_enabled f" "push f buf [] = (False, f, buf)"
  | (fires) f' out' rest where "ef_enabled f" "push f buf [] = (True, f', out')" "held f' \<noteq> []"
      "held f @ partial f @ buf = out' @ held f' @ rest"
  | (passes) f' out' where "ef_enabled f" "ef_enabled f'" "push f buf [] = (False, f', out')"
      "out' @ held f' @ partial f' = held f @ partial f @ buf"
proof -
  obtain e f' out' where p: "push f buf [] = (e, f', out')" by (metis prod_cases3)
  show thesis
  proof (cases "ef_enabled f")
    case True
    then have "push_loop (f\<lparr>partial := []\<rparr>) (partial f @ buf) [] = (e, f', out')"
      using p by (simp add: push_def)
    from push_loop_keeps[OF this] show thesis
      using True p that(2)[of f' out'] that(3)[of f' out'] by (cases e) auto
  qed (use p that(1) in \<open>auto simp: push_def\<close>)
qed

text \<open>The pump on a whole input: what is sent, held and carried is what was typed.\<close>

lemma stdio_loop_conserves:
  assumes "[] \<notin> set bufs" "ef_enabled f \<or> held f = [] \<and> partial f = []"
  shows "case stdio_loop vec_write Inr f s (map Inr bufs @ [Inr []]) of
           (s', r) \<Rightarrow>
             r = Some (Inr PumpEof) \<and> s' = s @ held f @ partial f @ concat bufs
           \<or> r = Some (Inr PumpEscape) \<and> ef_enabled f
             \<and> (\<exists>rest. rest \<noteq> [] \<and> s @ held f @ partial f @ concat bufs = s' @ rest)"
  using assms
proof (induction bufs arbitrary: f s)
  case Nil
  then show ?case by (simp add: finish_def Let_def)
next
  case (Cons buf bufs)
  show ?case
  proof (cases rule: push_cases[of f buf])
    case off
    then show ?thesis
      using Cons.prems Cons.IH[of f "s @ buf"] by (auto split: prod.split)
  next
    case (fires f' out' rest)
    then show ?thesis
      using Cons.prems by (auto intro!: exI[of _ "out' @ held f' @ rest @ concat bufs"])
  next
    case (passes f' out')
    have eq: "s @ held f @ partial f @ concat (buf # bufs) = (s @ out') @ held f' @ partial f' @ concat bufs"
      using passes(4) by (metis append.assoc concat.simps(2))
    have l: "stdio_loop vec_write Inr f s (map Inr (buf # bufs) @ [Inr []]) =
        stdio_loop vec_write Inr f' (s @ out') (map Inr bufs @ [Inr []])"
      using passes(3) Cons.prems(1) by auto
    show ?thesis
      unfolding l eq using Cons.IH[of f' "s @ out'"] Cons.prems(1) passes(1,2) by simp
  qed
qed

abbreviation never_fails :: "'t tty \<Rightarrow> error option" where
  "never_fails \<equiv> \<lambda>_. None"

lemma terminal_loop_tracks:
  assumes "tty_alt w = alt_as_u8 (alt t)"
  shows "\<exists>bs r. terminal_loop never_fails t w reads =
     (w\<lparr>tty_out := tty_out w @ bs, tty_alt := alt_as_u8 (alt (foldl tracker_byte t bs))\<rparr>, r)"
  using assms
proof (induction reads arbitrary: t w)
  case Nil
  then show ?case by (intro exI[of _ "[]"]) (simp add: eq_commute)
next
  case (Cons d reads)
  show ?case
  proof (cases "\<exists>b. d = Inr (Some b) \<and> b \<noteq> []")
    case False
    then have "\<exists>r. terminal_loop never_fails t w (d # reads) = (w, r)"
      by (cases d) (auto simp: tty_flush_def)
    then show ?thesis using Cons.prems by (metis append_Nil2 foldl_Nil tty.surjective tty.update_convs(4,5))
  next
    case True
    then obtain b where b: "d = Inr (Some b)" "b \<noteq> []" by blast
    let ?t = "foldl tracker_byte t b"
    let ?w = "w\<lparr>tty_alt := alt_as_u8 (alt ?t), tty_out := tty_out w @ b\<rparr>"
    have "terminal_loop never_fails t w (d # reads) = terminal_loop never_fails ?t ?w reads"
      using b Cons.prems by (cases w) (auto simp: tracker_push_def tty_write_def tty_flush_def Let_def)
    moreover obtain bs r where "terminal_loop never_fails ?t ?w reads =
        (?w\<lparr>tty_out := tty_out ?w @ bs, tty_alt := alt_as_u8 (alt (foldl tracker_byte ?t bs))\<rparr>, r)"
      using Cons.IH[of ?w ?t] by auto
    ultimately show ?thesis
      by (intro exI[of _ "b @ bs"] exI[of _ r]) simp
  qed
qed

text \<open>Leaving raw mode, on a terminal that works.\<close>

definition working_tty ::
  "('t tty \<Rightarrow> io_error + 't) \<Rightarrow> ('t tty \<Rightarrow> 't \<Rightarrow> 't tty \<times> (io_error + unit)) \<Rightarrow> bool" where
  "working_tty tcgetattr tcsetattr \<longleftrightarrow>
     (\<forall>w. tcgetattr w = Inr (tty_attr w)) \<and> (\<forall>w a. tcsetattr w a = (w\<lparr>tty_attr := a\<rparr>, Inr ()))"

lemma raw_mode_drop_works:
  assumes "working_tty tcgetattr tcsetattr" "rm_active g" "tty_stdout w"
    "write_all_fd answers (terminal_cleanup_sequences (remote_alt_screen (tty_alt w)))
       = (terminal_cleanup_sequences (remote_alt_screen (tty_alt w)), r)"
  shows "raw_mode_drop tcsetattr answers g w =
     w\<lparr>tty_out := tty_out w @ terminal_cleanup_sequences (remote_alt_screen (tty_alt w)),
        tty_attr := rm_saved g\<rparr>"
  using assms by (simp add: raw_mode_drop_def cleanup_terminal_features_def working_tty_def)

lemma cleanup_off:
  "alt (foldl tracker_byte t (bs @ terminal_cleanup_sequences (alt (foldl tracker_byte t bs)))) = AltOff"
  by (cases "alt (foldl tracker_byte t bs)")
     (simp_all add: terminal_cleanup_sequences_def tracker_cleanup cleanup_seqs foldl_private_seq param_mode_def)

lemma enable_works:
  assumes "working_tty tcgetattr tcsetattr" "tty_stdin w"
  shows "enable_if_terminal tcgetattr cfmakeraw tcsetattr zeroed io_text w =
     (w\<lparr>tty_attr := cfmakeraw (tty_attr w)\<rparr>, Inr \<lparr>rm_saved = tty_attr w, rm_active = True\<rparr>)"
  using assms by (simp add: enable_if_terminal_def working_tty_def)

text \<open>What a status message tells.\<close>

fun status_of :: "StreamOpen \<Rightarrow> ProcessExit res option" where
  "status_of (SessionExitStatus st) = Some (Inr st)"
| "status_of (SessionError err) = Some (Inl (Bail err))"
| "status_of _ = None"

definition side_streams :: "(byte list \<Rightarrow> StreamOpen res) \<Rightarrow> error \<Rightarrow> byte list list \<Rightarrow> StreamOpen list \<Rightarrow> bool" where
  "side_streams des eof bs ms = list_all2 (\<lambda>b m. \<exists>r. read_frame des eof b = Inr (m, r)) bs ms"

lemma side_streams_Cons:
  "side_streams des eof bs (m # ms) \<longleftrightarrow>
     (\<exists>b bs' r. bs = b # bs' \<and> read_frame des eof b = Inr (m, r) \<and> side_streams des eof bs' ms)"
  by (auto simp: side_streams_def list_all2_Cons2)

lemma side_streams_Nil [simp]: "side_streams des eof bs [] \<longleftrightarrow> bs = []"
  by (simp add: side_streams_def)

lemma read_exit_status_finds:
  assumes "side_streams des eof bs ms" "List.map_filter status_of ms = st # rest"
  shows "read_exit_status des eof (map Inr bs) = Some st"
  using assms
proof (induction ms arbitrary: bs)
  case (Cons m ms)
  then show ?case
    by (cases m) (auto simp: side_streams_Cons map_filter_simps)
qed (simp add: map_filter_simps)

lemma await_stderr_finds:
  assumes "side_streams des eof bs ms" "ms = pre @ SessionStderr # post" "SessionStderr \<notin> set pre"
  shows "\<exists>recv bs'. side_streams des eof bs' post \<and>
     await_stderr des eof d (map Inr bs) =
       Some (Inr (recv, (case rev (List.map_filter status_of pre) of [] \<Rightarrow> d | st # _ \<Rightarrow> Some st), map Inr bs'))"
  using assms
proof (induction pre arbitrary: bs ms d)
  case Nil
  then show ?case by (auto simp: side_streams_Cons map_filter_simps)
next
  case (Cons m pre)
  obtain b bs' r where b: "bs = b # bs'" "read_frame des eof b = Inr (m, r)"
    "side_streams des eof bs' (pre @ SessionStderr # post)"
    using Cons.prems(1,2) by (auto simp: side_streams_Cons)
  have m: "m \<noteq> SessionStderr" "SessionStderr \<notin> set pre" using Cons.prems(3) by auto
  let ?d = "case status_of m of None \<Rightarrow> d | Some st \<Rightarrow> Some st"
  have "await_stderr des eof d (map Inr bs) = await_stderr des eof ?d (map Inr bs')"
    using b m by (cases m) auto
  moreover have "(case rev (List.map_filter status_of (m # pre)) of [] \<Rightarrow> d | st # _ \<Rightarrow> Some st) =
      (case rev (List.map_filter status_of pre) of [] \<Rightarrow> ?d | st # _ \<Rightarrow> Some st)"
    by (cases "status_of m") (auto simp: map_filter_simps split: list.split)
  ultimately show ?case
    using Cons.IH[OF b(3) refl m(2), of ?d] by simp
qed

section \<open>Properties\<close>

text \<open>Everything the user types reaches the server, unless the disconnect escape is typed.  For
  every way the input is cut into reads, the pump sends exactly what was typed and ends with the
  input; or it reports the escape, which it does only when standard input is a terminal, and then
  it has sent a proper prefix of what was typed.\<close>

theorem stdin_reaches_server:
  assumes "[] \<notin> set bufs"
  shows "case stdio_to_quic vec_write Inr stdin_tty [] (map Inr bufs @ [Inr []]) of
           (sent, r) \<Rightarrow>
             r = Some (Inr PumpEof) \<and> sent = concat bufs
           \<or> r = Some (Inr PumpEscape) \<and> stdin_tty \<and> (\<exists>rest. rest \<noteq> [] \<and> concat bufs = sent @ rest)"
  using stdio_loop_conserves[OF assms, of "escape_new stdin_tty" "[]"]
  by (simp add: stdio_to_quic_def escape_new_def)

theorem stdin_reaches_server_witness:
  "[] \<notin> set [as_bytes ''ls'', [0x0d, 0x7e], as_bytes ''x'']
   \<and> stdio_to_quic vec_write Inr True [] (map Inr [as_bytes ''ls'', [0x0d, 0x7e], as_bytes ''x''] @ [Inr []])
     = (as_bytes ''ls'' @ [0x0d, 0x7e] @ as_bytes ''x'', Some (Inr PumpEof))"
proof
  show ne: "[] \<notin> set [as_bytes ''ls'', [0x0d, 0x7e], as_bytes ''x'']" by (simp add: as_bytes_def)
  have "snd (stdio_to_quic vec_write Inr True [] (map Inr [as_bytes ''ls'', [0x0d, 0x7e], as_bytes ''x''] @ [Inr []]))
     = Some (Inr PumpEof)"
    by code_simp
  then show "stdio_to_quic vec_write Inr True [] (map Inr [as_bytes ''ls'', [0x0d, 0x7e], as_bytes ''x''] @ [Inr []])
     = (as_bytes ''ls'' @ [0x0d, 0x7e] @ as_bytes ''x'', Some (Inr PumpEof))"
    using stdin_reaches_server[OF ne, of True] by (auto split: prod.splits)
qed


definition example_tty :: "nat tty" where
  "example_tty = \<lparr>tty_stdin = True, tty_stdout = True, tty_attr = 5, tty_out = [], tty_alt = 0\<rparr>"

definition example_pty_run :: "nat tty \<times> (error + process_end) option" where
  "example_pty_run =
     run_pty (enable_if_terminal (\<lambda>w. Inr (tty_attr w)) Suc (\<lambda>w a. (w\<lparr>tty_attr := a\<rparr>, Inr ())) 0 (\<lambda>_. []))
       (raw_mode_drop (\<lambda>w a. (w\<lparr>tty_attr := a\<rparr>, Inr ())) (replicate 300 (Inr 1)))
       (\<lambda>_. Inr SessionReady) (Bail []) (\<lambda>_. []) (\<lambda>_. None) (Inr ()) [0, 0, 0, 0]
       [Inr (Some (private_seq [1049] (CHR ''h'')))] [EscapeTyped] example_tty"


text \<open>A client without a terminal learns how the remote process ended, whichever order the
  server's side streams arrive in: if one of them announces standard error and one carries the
  status, the client attaches to standard error and its status task yields that status.\<close>

theorem status_never_lost:
  assumes "side_streams des eof bs ms" "SessionStderr \<in> set ms" "List.map_filter status_of ms = [st]"
  shows "\<exists>recv deferred rest.
     await_stderr des eof None (map Inr bs) = Some (Inr (recv, deferred, rest))
     \<and> status_task des eof deferred rest = Some st"
proof -
  obtain pre post where ms: "ms = pre @ SessionStderr # post" "SessionStderr \<notin> set pre"
    using assms(2) by (meson split_list_first)
  obtain recv bs' where a: "side_streams des eof bs' post"
    "await_stderr des eof None (map Inr bs) =
       Some (Inr (recv, (case rev (List.map_filter status_of pre) of [] \<Rightarrow> None | st # _ \<Rightarrow> Some st), map Inr bs'))"
    using await_stderr_finds[OF assms(1) ms] by blast
  have split: "List.map_filter status_of pre @ List.map_filter status_of post = [st]"
    using assms(3) ms(1) by (simp add: List.map_filter_def)
  show ?thesis
  proof (cases "List.map_filter status_of pre")
    case Nil
    then show ?thesis
      using a split read_exit_status_finds[OF a(1), of st "[]"] by (simp add: status_task_def)
  next
    case (Cons s ss)
    then show ?thesis using a split by (simp add: status_task_def)
  qed
qed

definition example_side_des :: "byte list \<Rightarrow> StreamOpen res" where
  "example_side_des b =
     (if b = [1] then Inr SessionStderr else if b = [2] then Inr (SessionExitStatus (ExitCode 3))
      else Inl (Bail []))"

theorem status_never_lost_witness:
  "\<exists>recv deferred rest.
     await_stderr example_side_des (Bail []) None (map Inr [[0, 0, 0, 1, 2], [0, 0, 0, 1, 1]])
       = Some (Inr (recv, deferred, rest))
     \<and> status_task example_side_des (Bail []) deferred rest = Some (Inr (ExitCode 3))"
proof (rule status_never_lost[where ms = "[SessionExitStatus (ExitCode 3), SessionStderr]"])
  have "read_frame example_side_des (Bail []) [0, 0, 0, 1, 2] = Inr (SessionExitStatus (ExitCode 3), [])"
    "read_frame example_side_des (Bail []) [0, 0, 0, 1, 1] = Inr (SessionStderr, [])"
    by code_simp+
  then show "side_streams example_side_des (Bail []) [[0, 0, 0, 1, 2], [0, 0, 0, 1, 1]]
      [SessionExitStatus (ExitCode 3), SessionStderr]"
    by (simp add: side_streams_def)
qed (simp_all add: map_filter_simps)

end
