(* ===== verification/Files.thy ===== *)
theory Files
  imports Paths
begin

text \<open>
  The file operations the server and the client use to keep their private state, and the private
  files of \<open>hush-core/src/tls.rs\<close> built on them: atomic replacement, guarded reads and lock files.

  A world is a map from paths to nodes together with what the operating system will answer: for each
  call whether it fails, how much of a failing write reaches the file, what the random source gives,
  and which signals interrupt a wait for a lock.  It also records every state the files have been in,
  so that a crash at any moment can be spoken about.  Paths are not resolved: two spellings of one
  place are two places, and a link only matters for the file it is.
\<close>

section \<open>The world\<close>

datatype node = NFile "byte list" nat | NDir nat | NLink string

type_synonym nodes = "string \<Rightarrow> node option"

record world =
  files :: nodes
  past :: "nodes list"
  calls :: nat
  draws :: nat
  w_fault :: "nat \<Rightarrow> io_error option"
  w_partial :: "nat \<Rightarrow> nat"
  w_random :: "nat \<Rightarrow> byte list option"
  w_flock :: "io_error list"

type_synonym 'a io = "world \<Rightarrow> world \<times> (io_error + 'a)"

type_synonym 'a action = "world \<Rightarrow> world \<times> 'a res"

abbreviation io_err :: "io_kind \<Rightarrow> io_error" where
  "io_err k \<equiv> IoError k None"

definition set_files :: "nodes \<Rightarrow> world \<Rightarrow> world" where
  "set_files n w = w\<lparr>files := n, past := past w @ [n]\<rparr>"

definition sys_call :: "'a io \<Rightarrow> 'a io" where
  "sys_call act w =
     (let w' = w\<lparr>calls := calls w + 1\<rparr>
      in case w_fault w (calls w) of Some e \<Rightarrow> (w', Inl e) | None \<Rightarrow> act w')"

text \<open>The question mark of the source: stop at an error, which becomes one of this crate's.\<close>

definition andthen :: "'a action \<Rightarrow> ('a \<Rightarrow> 'b action) \<Rightarrow> 'b action" where
  "andthen m f w = (case m w of (w, Inl e) \<Rightarrow> (w, Inl e) | (w, Inr x) \<Rightarrow> f x w)"

definition lift_io :: "'a io \<Rightarrow> 'a action" where
  "lift_io m w = (case m w of (w, r) \<Rightarrow> (w, io_res r))"

definition return :: "'a res \<Rightarrow> 'a action" where
  "return r w = (w, r)"

definition parent_ok :: "nodes \<Rightarrow> string \<Rightarrow> bool" where
  "parent_ok n p =
     (case parent p of
        None \<Rightarrow> False
      | Some d \<Rightarrow> d = [] \<or> (case n d of Some (NDir _) \<Rightarrow> True | _ \<Rightarrow> False))"

section \<open>Calls\<close>

text \<open>Modes are written in decimal: 384 is \<open>0o600\<close>, 448 is \<open>0o700\<close>, 493 is \<open>0o755\<close>.\<close>

definition create_new :: "string \<Rightarrow> unit io" where
  "create_new p = sys_call (\<lambda>w.
     if files w p \<noteq> None then (w, Inl (io_err AlreadyExists))
     else if \<not> parent_ok (files w) p then (w, Inl (io_err NotFound))
     else (set_files ((files w)(p \<mapsto> NFile [] 384)) w, Inr ()))"

definition append_file :: "string \<Rightarrow> byte list \<Rightarrow> world \<Rightarrow> world" where
  "append_file p d w =
     (case files w p of
        Some (NFile old m) \<Rightarrow> set_files ((files w)(p \<mapsto> NFile (old @ d) m)) w
      | _ \<Rightarrow> w)"

definition write_all :: "string \<Rightarrow> byte list \<Rightarrow> unit io" where
  "write_all p d w =
     (case w_fault w (calls w) of
        Some e \<Rightarrow> (append_file p (take (w_partial w (calls w)) d) (w\<lparr>calls := calls w + 1\<rparr>), Inl e)
      | None \<Rightarrow> (append_file p d (w\<lparr>calls := calls w + 1\<rparr>), Inr ()))"

definition sync_all :: "unit io" where
  "sync_all = sys_call (\<lambda>w. (w, Inr ()))"

definition rename :: "string \<Rightarrow> string \<Rightarrow> unit io" where
  "rename a b = sys_call (\<lambda>w.
     case files w a of
       None \<Rightarrow> (w, Inl (io_err NotFound))
     | Some n \<Rightarrow>
         (case files w b of
            Some (NDir _) \<Rightarrow> (w, Inl (io_err OtherKind))
          | _ \<Rightarrow> if \<not> parent_ok (files w) b then (w, Inl (io_err NotFound))
                 else (set_files ((files w)(a := None, b := Some n)) w, Inr ())))"

definition hard_link :: "string \<Rightarrow> string \<Rightarrow> unit io" where
  "hard_link a b = sys_call (\<lambda>w.
     case files w a of
       None \<Rightarrow> (w, Inl (io_err NotFound))
     | Some n \<Rightarrow>
         if files w b \<noteq> None then (w, Inl (io_err AlreadyExists))
         else if \<not> parent_ok (files w) b then (w, Inl (io_err NotFound))
         else (set_files ((files w)(b \<mapsto> n)) w, Inr ()))"

definition remove_file :: "string \<Rightarrow> unit io" where
  "remove_file p = sys_call (\<lambda>w.
     case files w p of
       None \<Rightarrow> (w, Inl (io_err NotFound))
     | Some (NDir _) \<Rightarrow> (w, Inl (io_err OtherKind))
     | _ \<Rightarrow> (set_files ((files w)(p := None)) w, Inr ()))"

text \<open>\<open>File::open\<close> follows links, as many as the kernel does.\<close>

fun follow :: "nat \<Rightarrow> nodes \<Rightarrow> string \<Rightarrow> io_error + node" where
  "follow 0 n p = Inl (io_err OtherKind)"
| "follow (Suc k) n p =
     (case n p of
        None \<Rightarrow> Inl (io_err NotFound)
      | Some (NLink t) \<Rightarrow> follow k n t
      | Some x \<Rightarrow> Inr x)"

definition open_follow :: "string \<Rightarrow> node io" where
  "open_follow p = sys_call (\<lambda>w. (w, if p = [] then Inl (io_err NotFound) else follow 40 (files w) p))"

definition open_nofollow :: "string \<Rightarrow> unit io" where
  "open_nofollow p = sys_call (\<lambda>w.
     (w, case files w p of
           None \<Rightarrow> Inl (io_err NotFound)
         | Some (NLink _) \<Rightarrow> Inl (io_err OtherKind)
         | Some _ \<Rightarrow> Inr ()))"

fun with_mode :: "nat \<Rightarrow> node \<Rightarrow> node" where
  "with_mode m (NFile d _) = NFile d m"
| "with_mode m (NDir _) = NDir m"
| "with_mode m (NLink t) = NLink t"

definition set_permissions :: "string \<Rightarrow> nat \<Rightarrow> unit io" where
  "set_permissions p m = sys_call (\<lambda>w.
     case files w p of
       None \<Rightarrow> (w, Inl (io_err NotFound))
     | Some n \<Rightarrow> (set_files ((files w)(p \<mapsto> with_mode m n)) w, Inr ()))"

definition read_to_end :: "string \<Rightarrow> byte list io" where
  "read_to_end p = sys_call (\<lambda>w.
     (w, case files w p of Some (NFile d _) \<Rightarrow> Inr d | _ \<Rightarrow> Inl (io_err OtherKind)))"

text \<open>\<open>create_dir_all\<close>: the missing directories on the way, outermost first.\<close>

fun make_dirs :: "nat \<Rightarrow> string \<Rightarrow> nodes \<Rightarrow> io_error + nodes" where
  "make_dirs 0 p n = Inr n"
| "make_dirs (Suc k) p n =
     (if p = [] then Inr n
      else case n p of
             Some (NDir _) \<Rightarrow> Inr n
           | Some _ \<Rightarrow> Inl (io_err AlreadyExists)
           | None \<Rightarrow>
               (case (case parent p of None \<Rightarrow> Inr n | Some d \<Rightarrow> make_dirs k d n) of
                  Inl e \<Rightarrow> Inl e
                | Inr n \<Rightarrow>
                    (case n p of
                       None \<Rightarrow> Inr (n(p \<mapsto> NDir 493))
                     | Some (NDir _) \<Rightarrow> Inr n
                     | Some _ \<Rightarrow> Inl (io_err AlreadyExists))))"

definition create_dir_all :: "string \<Rightarrow> unit io" where
  "create_dir_all p = sys_call (\<lambda>w.
     case make_dirs (length p + 1) p (files w) of
       Inl e \<Rightarrow> (w, Inl e)
     | Inr n \<Rightarrow> (set_files n w, Inr ()))"

definition random_fill :: "world \<Rightarrow> world \<times> byte list option" where
  "random_fill w = (w\<lparr>draws := draws w + 1\<rparr>, w_random w (draws w))"

section \<open>Private files\<close>

definition ensure_private_dir :: "string \<Rightarrow> unit action" where
  "ensure_private_dir p = andthen (lift_io (create_dir_all p)) (\<lambda>_. lift_io (set_permissions p 448))"

definition hex_digit :: "nat \<Rightarrow> char" where
  "hex_digit n = (if n < 10 then char_of (48 + n) else char_of (87 + n))"

definition hex_encode :: "byte list \<Rightarrow> string" where
  "hex_encode bs = concat (map (\<lambda>b. [hex_digit (unat b div 16), hex_digit (unat b mod 16)]) bs)"

definition utf8_name :: "string \<Rightarrow> string" where
  "utf8_name p =
     (case file_name p of
        Some n \<Rightarrow> if utf8_valid (as_bytes n) then n else ''hush''
      | None \<Rightarrow> ''hush'')"

definition tmp_path :: "string \<Rightarrow> byte list \<Rightarrow> string" where
  "tmp_path p nonce =
     join (case parent p of Some d \<Rightarrow> d | None \<Rightarrow> ''.'') (''.'' @ utf8_name p @ ''.'' @ hex_encode nonce @ ''.tmp'')"

text \<open>The body of the closure: fill the temporary file, put it in place, make that durable.\<close>

definition install_tmp :: "string \<Rightarrow> string \<Rightarrow> byte list \<Rightarrow> unit action" where
  "install_tmp tmp p d =
     andthen (lift_io (write_all tmp d)) (\<lambda>_.
     andthen (lift_io sync_all) (\<lambda>_.
     andthen (lift_io (rename tmp p)) (\<lambda>_.
     andthen (lift_io (open_follow (case parent p of Some d \<Rightarrow> d | None \<Rightarrow> ''.''))) (\<lambda>_.
     lift_io sync_all))))"

fun atomic_attempts :: "nat \<Rightarrow> string \<Rightarrow> byte list \<Rightarrow> unit action" where
  "atomic_attempts 0 p d w = (w, Inl (Bail (''could not allocate a temporary file for '' @ p)))"
| "atomic_attempts (Suc k) p d w =
     (case random_fill w of
        (w, None) \<Rightarrow> (w, Inl (Bail ''generate temporary filename''))
      | (w, Some nonce) \<Rightarrow>
          (case create_new (tmp_path p nonce) w of
             (w, Inl e) \<Rightarrow>
               if io_error_kind e = AlreadyExists then atomic_attempts k p d w else (w, Inl (Io e))
           | (w, Inr _) \<Rightarrow>
               (case install_tmp (tmp_path p nonce) p d w of
                  (w, Inl e) \<Rightarrow> (fst (remove_file (tmp_path p nonce) w), Inl e)
                | (w, Inr _) \<Rightarrow> (w, Inr ()))))"

definition write_private_file_atomic :: "string \<Rightarrow> byte list \<Rightarrow> unit action" where
  "write_private_file_atomic p d = atomic_attempts 32 p d"

definition read_private_file_if_present :: "string \<Rightarrow> byte list option action" where
  "read_private_file_if_present p w =
     (case open_nofollow p w of
        (w, Inl e) \<Rightarrow> if io_error_kind e = NotFound then (w, Inr None) else (w, Inl (Io e))
      | (w, Inr _) \<Rightarrow>
          andthen (lift_io (set_permissions p 384)) (\<lambda>_.
          andthen (lift_io (read_to_end p)) (\<lambda>d. return (Inr (Some d)))) w)"

text \<open>The wait for the lock goes on as long as signals interrupt it; \<open>w_flock\<close> is what the calls
  return before the lock is granted.\<close>

fun flock_loop :: "io_error list \<Rightarrow> io_error list \<times> (io_error + unit)" where
  "flock_loop [] = ([], Inr ())"
| "flock_loop (e # es) = (if io_error_kind e \<noteq> Interrupted then (es, Inl e) else flock_loop es)"

definition open_lock_file :: "string \<Rightarrow> unit io" where
  "open_lock_file p = sys_call (\<lambda>w.
     case files w p of
       None \<Rightarrow> if \<not> parent_ok (files w) p then (w, Inl (io_err NotFound))
               else (set_files ((files w)(p \<mapsto> NFile [] 384)) w, Inr ())
     | Some (NFile _ _) \<Rightarrow> (w, Inr ())
     | Some _ \<Rightarrow> (w, Inl (io_err OtherKind)))"

definition lock_acquire :: "string \<Rightarrow> unit action" where
  "lock_acquire p =
     andthen (lift_io (open_lock_file p)) (\<lambda>_ w.
       case flock_loop (w_flock w) of (rest, r) \<Rightarrow> (w\<lparr>w_flock := rest\<rparr>, io_res r))"

definition with_file_name :: "string \<Rightarrow> string \<Rightarrow> string" where
  "with_file_name p name = join (case file_name p of None \<Rightarrow> p | Some _ \<Rightarrow> (case parent p of Some d \<Rightarrow> d | None \<Rightarrow> [])) name"

definition lock_path_for :: "string \<Rightarrow> string" where
  "lock_path_for p = with_file_name p (''.'' @ utf8_name p @ ''.lock'')"

section \<open>Reasoning about actions\<close>

text \<open>
  \<open>spec P m G E Q\<close>: from files satisfying \<open>P\<close>, the action only passes through files satisfying \<open>G\<close>; it
  ends in files satisfying \<open>E\<close> if it fails and \<open>Q x\<close> if it returns \<open>x\<close>; and the operating system's
  answers are still to come as they were.
\<close>

definition spec ::
  "(nodes \<Rightarrow> bool) \<Rightarrow> 'a action \<Rightarrow> (nodes \<Rightarrow> bool) \<Rightarrow> (nodes \<Rightarrow> bool) \<Rightarrow> ('a \<Rightarrow> nodes \<Rightarrow> bool) \<Rightarrow> bool" where
  "spec P m G E Q \<longleftrightarrow> (\<forall>w w' r. P (files w) \<and> m w = (w', r) \<longrightarrow>
     (\<exists>ext. past w' = past w @ ext \<and> list_all G ext)
     \<and> w_fault w' = w_fault w \<and> w_random w' = w_random w
     \<and> (case r of Inl _ \<Rightarrow> E (files w') | Inr x \<Rightarrow> Q x (files w')))"

named_theorems spec_rules

lemma specI:
  assumes "\<And>w w' r. P (files w) \<Longrightarrow> m w = (w', r) \<Longrightarrow>
     (\<exists>ext. past w' = past w @ ext \<and> list_all G ext)
     \<and> w_fault w' = w_fault w \<and> w_random w' = w_random w
     \<and> (case r of Inl _ \<Rightarrow> E (files w') | Inr x \<Rightarrow> Q x (files w'))"
  shows "spec P m G E Q"
  using assms unfolding spec_def by blast

lemma specD:
  assumes "spec P m G E Q" "P (files w)" "m w = (w', r)"
  shows "(\<exists>ext. past w' = past w @ ext \<and> list_all G ext)
     \<and> w_fault w' = w_fault w \<and> w_random w' = w_random w
     \<and> (case r of Inl _ \<Rightarrow> E (files w') | Inr x \<Rightarrow> Q x (files w'))"
  using assms unfolding spec_def by blast

lemma spec_andthen:
  assumes "spec P m G E Q" "\<And>x. spec (Q x) (f x) G E R"
  shows "spec P (andthen m f) G E R"
proof (rule specI)
  fix w w' r
  assume P: "P (files w)" and run: "andthen m f w = (w', r)"
  obtain w1 r1 where m: "m w = (w1, r1)" by force
  show "(\<exists>ext. past w' = past w @ ext \<and> list_all G ext) \<and> w_fault w' = w_fault w \<and> w_random w' = w_random w
     \<and> (case r of Inl _ \<Rightarrow> E (files w') | Inr x \<Rightarrow> R x (files w'))"
  proof (cases r1)
    case (Inl e)
    then show ?thesis using assms(1) P m run unfolding spec_def andthen_def by fastforce
  next
    case (Inr x)
    then have f: "f x w1 = (w', r)" using m run by (simp add: andthen_def)
    obtain ext where 1: "past w1 = past w @ ext" "list_all G ext" "w_fault w1 = w_fault w"
      "w_random w1 = w_random w" "Q x (files w1)"
      using assms(1) P m Inr unfolding spec_def by fastforce
    then show ?thesis using assms(2)[of x] f unfolding spec_def by fastforce
  qed
qed

lemma spec_weaken:
  assumes "spec P m G E Q" "\<And>n. P' n \<Longrightarrow> P n" "\<And>n. G n \<Longrightarrow> G' n" "\<And>n. E n \<Longrightarrow> E' n"
    "\<And>x n. Q x n \<Longrightarrow> Q' x n"
  shows "spec P' m G' E' Q'"
proof (rule specI)
  fix w w' r
  assume "P' (files w)" "m w = (w', r)"
  then have "(\<exists>ext. past w' = past w @ ext \<and> list_all G ext) \<and> w_fault w' = w_fault w \<and> w_random w' = w_random w
     \<and> (case r of Inl _ \<Rightarrow> E (files w') | Inr x \<Rightarrow> Q x (files w'))"
    using assms(1,2) unfolding spec_def by blast
  then show "(\<exists>ext. past w' = past w @ ext \<and> list_all G' ext) \<and> w_fault w' = w_fault w \<and> w_random w' = w_random w
     \<and> (case r of Inl _ \<Rightarrow> E' (files w') | Inr x \<Rightarrow> Q' x (files w'))"
    using assms(3,4,5) by (auto simp: list_all_iff split: sum.splits)
qed

lemma spec_return: "(case r of Inl _ \<Rightarrow> \<forall>n. P n \<longrightarrow> E n | Inr x \<Rightarrow> \<forall>n. P n \<longrightarrow> Q x n) \<Longrightarrow> spec P (return r) G E Q"
  by (rule specI) (auto simp: return_def split: sum.splits)

lemma spec_call:
  assumes "\<And>w w' r. P (files w) \<Longrightarrow> act w = (w', r) \<Longrightarrow>
       (w' = w \<or> (\<exists>n. w' = set_files n w \<and> G n))
       \<and> (case r of Inl _ \<Rightarrow> E (files w') | Inr x \<Rightarrow> Q x (files w'))"
    and "\<And>n. P n \<Longrightarrow> E n"
  shows "spec P (lift_io (sys_call act)) G E Q"
proof (rule specI)
  fix w w' r
  assume P: "P (files w)" and run: "lift_io (sys_call act) w = (w', r)"
  let ?w = "w\<lparr>calls := calls w + 1\<rparr>"
  show "(\<exists>ext. past w' = past w @ ext \<and> list_all G ext) \<and> w_fault w' = w_fault w \<and> w_random w' = w_random w
     \<and> (case r of Inl _ \<Rightarrow> E (files w') | Inr x \<Rightarrow> Q x (files w'))"
  proof (cases "w_fault w (calls w)")
    case None
    obtain w1 r1 where a: "act ?w = (w1, r1)" by force
    then have w': "w' = w1" "r = io_res r1"
      using run None by (auto simp: lift_io_def sys_call_def)
    show ?thesis
      using assms(1)[of ?w w1 r1] P a w' by (auto simp: set_files_def io_res_def split: sum.splits)
  next
    case (Some e)
    then have "w' = ?w" "r = Inl (Io e)"
      using run by (auto simp: lift_io_def sys_call_def io_res_def)
    then show ?thesis using P assms(2) by simp
  qed
qed

subsection \<open>The calls\<close>

lemma spec_unchanged:
  assumes "\<And>w. fst (act w) = w" "\<And>n. P n \<Longrightarrow> E n" "\<And>x n. P n \<Longrightarrow> Q x n"
  shows "spec P (lift_io (sys_call act)) G E Q"
proof (rule spec_call)
  fix w w' r
  assume "P (files w)" "act w = (w', r)"
  moreover from this have "w' = w" using assms(1)[of w] by simp
  ultimately show "(w' = w \<or> (\<exists>n. w' = set_files n w \<and> G n)) \<and> (case r of Inl _ \<Rightarrow> E (files w') | Inr x \<Rightarrow> Q x (files w'))"
    using assms(2,3) by (simp split: sum.split)
qed (rule assms(2))

lemma spec_sync_all: "(\<And>n. P n \<Longrightarrow> E n \<and> Q () n) \<Longrightarrow> spec P (lift_io sync_all) G E Q"
  unfolding sync_all_def by (rule spec_unchanged) auto

lemma spec_open_follow: "(\<And>x n. P n \<Longrightarrow> E n \<and> Q x n) \<Longrightarrow> spec P (lift_io (open_follow p)) G E Q"
  unfolding open_follow_def by (rule spec_unchanged) auto

lemma spec_create_new:
  assumes "\<And>n. P n \<Longrightarrow> E n"
    and "\<And>n. P n \<Longrightarrow> n p = None \<Longrightarrow> G (n(p \<mapsto> NFile [] 384)) \<and> Q () (n(p \<mapsto> NFile [] 384))"
  shows "spec P (lift_io (create_new p)) G E Q"
  unfolding create_new_def
  by (rule spec_call) (use assms in \<open>auto simp: set_files_def split: if_splits\<close>)

lemma spec_rename:
  assumes "\<And>n. P n \<Longrightarrow> E n"
    and "\<And>n x. P n \<Longrightarrow> n a = Some x \<Longrightarrow> G (n(a := None, b := Some x)) \<and> Q () (n(a := None, b := Some x))"
  shows "spec P (lift_io (rename a b)) G E Q"
  unfolding rename_def
  by (rule spec_call) (use assms in \<open>auto simp: set_files_def split: if_splits option.splits node.splits\<close>)

lemma spec_set_permissions:
  assumes "\<And>n. P n \<Longrightarrow> E n"
    and "\<And>n x. P n \<Longrightarrow> n p = Some x \<Longrightarrow> G (n(p \<mapsto> with_mode m x)) \<and> Q () (n(p \<mapsto> with_mode m x))"
  shows "spec P (lift_io (set_permissions p m)) G E Q"
  unfolding set_permissions_def
  by (rule spec_call) (use assms in \<open>auto simp: set_files_def split: option.splits\<close>)

lemma spec_write_all:
  assumes "\<And>n. P n \<Longrightarrow> \<exists>old m. n p = Some (NFile old m)"
    and "\<And>n old m k. P n \<Longrightarrow> n p = Some (NFile old m) \<Longrightarrow>
           G (n(p \<mapsto> NFile (old @ take k d) m)) \<and> E (n(p \<mapsto> NFile (old @ take k d) m))"
    and "\<And>n old m. P n \<Longrightarrow> n p = Some (NFile old m) \<Longrightarrow> Q () (n(p \<mapsto> NFile (old @ d) m))"
  shows "spec P (lift_io (write_all p d)) G E Q"
proof (rule specI)
  fix w w' r
  assume P: "P (files w)" and run: "lift_io (write_all p d) w = (w', r)"
  obtain old m where p: "files w p = Some (NFile old m)" using assms(1) P by blast
  have g: "G ((files w)(p \<mapsto> NFile (old @ d) m))"
    using assms(2)[OF P p, of "length d"] by simp
  show "(\<exists>ext. past w' = past w @ ext \<and> list_all G ext) \<and> w_fault w' = w_fault w \<and> w_random w' = w_random w
     \<and> (case r of Inl _ \<Rightarrow> E (files w') | Inr x \<Rightarrow> Q x (files w'))"
    using run p g assms(2)[OF P p, of "w_partial w (calls w)"] assms(3)[OF P p]
    by (auto simp: lift_io_def write_all_def append_file_def set_files_def io_res_def split: option.splits)
qed

subsection \<open>Atomic replacement\<close>

text \<open>Files as they may be while \<open>p\<close> is being replaced: \<open>p\<close> is old or new, every other file that was
  there is as it was.\<close>

definition near :: "nodes \<Rightarrow> string \<Rightarrow> byte list \<Rightarrow> nodes \<Rightarrow> bool" where
  "near n0 p d n \<longleftrightarrow> (n p = n0 p \<or> n p = Some (NFile d 384)) \<and> (\<forall>q. q \<noteq> p \<and> n0 q \<noteq> None \<longrightarrow> n q = n0 q)"

lemma near_refl [simp]: "near n p d n"
  by (simp add: near_def)

lemma hex_encode_chars: "c \<in> set (hex_encode bs) \<Longrightarrow> c \<noteq> CHR ''/'' \<and> code c < 128"
proof -
  have *: "hex_digit k \<noteq> CHR ''/'' \<and> code (hex_digit k) < 128" if "k < 16" for k
  proof -
    have "code (hex_digit k) = (if k < 10 then 48 + k else 87 + k)"
      using that by (simp add: hex_digit_def)
    moreover have "code (CHR ''/'') = 47" by (simp add: code_def)
    ultimately show ?thesis using that by (cases "k < 10"; force)
  qed
  assume "c \<in> set (hex_encode bs)"
  then obtain b where "c = hex_digit (unat (b::byte) div 16) \<or> c = hex_digit (unat b mod 16)"
    by (auto simp: hex_encode_def)
  moreover have "unat b div 16 < 16" using unat_lt2p[of b] by simp
  ultimately show ?thesis using * by auto
qed

lemma utf8_name_plain: "CHR ''/'' \<notin> set (utf8_name p)"
  by (auto simp: utf8_name_def dest: file_name_plain split: option.splits)

lemma utf8_name_cases:
  "file_name p = Some n \<Longrightarrow> utf8_name p = (if utf8_valid (as_bytes n) then n else ''hush'')"
  by (simp only: utf8_name_def option.simps)

lemma ascii_valid: "list_all (\<lambda>c. code c < 128) s \<Longrightarrow> utf8_valid (as_bytes s)"
  by (rule utf8_valid_ascii) (auto simp: as_bytes_def list_all_iff word_le_nat_alt)

definition tmp_name :: "string \<Rightarrow> byte list \<Rightarrow> string" where
  "tmp_name name nonce = ''.'' @ name @ ''.'' @ hex_encode nonce @ ''.tmp''"

lemma tmp_name_plain:
  assumes "CHR ''/'' \<notin> set name"
  shows "CHR ''/'' \<notin> set (tmp_name name nonce)" "\<not> blank_piece (tmp_name name nonce)"
    "tmp_name name nonce \<noteq> ''..''"
  using assms hex_encode_chars by (auto simp: blank_piece_def tmp_name_def)

lemma file_name_join_plain:
  assumes "CHR ''/'' \<notin> set n" "\<not> blank_piece n" "n \<noteq> ''..''"
  shows "file_name (join d n) = Some n"
proof (cases "d = []")
  case True
  then show ?thesis
    using components_plain[OF assms] assms(1) by (cases n) (auto simp: join_def file_name_def)
qed (use file_name_join assms in blast)

lemma tmp_path_other: "tmp_path p nonce \<noteq> p"
proof
  define n where "n = tmp_name (utf8_name p) nonce"
  assume eq: "tmp_path p nonce = p"
  have fn: "file_name p = Some n"
    using eq file_name_join_plain[OF tmp_name_plain[OF utf8_name_plain]]
    by (metis n_def tmp_name_def tmp_path_def)
  show False
  proof (cases "utf8_valid (as_bytes n)")
    case True
    then have "length (utf8_name p) = length n" using utf8_name_cases[OF fn] by simp
    then show False by (simp add: n_def tmp_name_def)
  next
    case False
    then have "utf8_name p = ''hush''" using utf8_name_cases[OF fn] by simp
    then have "list_all (\<lambda>c. code c < 128) n"
      using hex_encode_chars[of _ nonce] by (auto simp: n_def tmp_name_def list_all_iff code_def)
    then show False using False ascii_valid by blast
  qed
qed

lemma spec_install_tmp:
  assumes "n0 tmp = None" "tmp \<noteq> p"
  shows "spec (\<lambda>n. n = n0(tmp \<mapsto> NFile [] 384)) (install_tmp tmp p d) (near n0 p d)
     (\<lambda>n. near n0 p d n) (\<lambda>_ n. n = n0(p \<mapsto> NFile d 384))"
proof -
  have near: "near n0 p d (n0(tmp \<mapsto> x))" "near n0 p d (n0(p \<mapsto> NFile d 384))" for x
    using assms by (auto simp: near_def)
  have gone: "n0(tmp := None, p \<mapsto> NFile d 384) = n0(p \<mapsto> NFile d 384)"
    using assms by (auto simp: fun_eq_iff)
  let ?E = "near n0 p d" and ?full = "\<lambda>_ n. n = n0(tmp \<mapsto> NFile d 384)"
    and ?done = "\<lambda>_ n. n = n0(p \<mapsto> NFile d 384)"
  have wr: "spec (\<lambda>n. n = n0(tmp \<mapsto> NFile [] 384)) (lift_io (write_all tmp d)) ?E ?E ?full"
    by (rule spec_write_all) (auto simp: near)
  have sync: "spec (?full ()) (lift_io sync_all) ?E ?E ?full" "spec (?done ()) (lift_io sync_all) ?E ?E ?done"
    by (rule spec_sync_all; simp add: near)+
  have mv: "spec (?full ()) (lift_io (rename tmp p)) ?E ?E ?done"
    by (rule spec_rename) (auto simp: near gone)
  have dir: "spec (?done ()) (lift_io (open_follow q)) ?E ?E ?done" for q
    by (rule spec_open_follow) (auto simp: near)
  show ?thesis
    unfolding install_tmp_def
    by (intro spec_andthen[OF wr] spec_andthen[OF sync(1)] spec_andthen[OF mv]
          spec_andthen[OF dir] sync(2))
qed

lemma create_new_cases:
  assumes "create_new p w = (w', r)"
  obtains (failed) e where "r = Inl e" "files w' = files w" "past w' = past w"
  | (created) "r = Inr ()" "files w p = None" "files w' = (files w)(p \<mapsto> NFile [] 384)"
      "past w' = past w @ [(files w)(p \<mapsto> NFile [] 384)]"
  using assms by (auto simp: create_new_def sys_call_def set_files_def Let_def split: option.splits if_splits)

lemma create_new_env: "create_new p w = (w', r) \<Longrightarrow> w_fault w' = w_fault w \<and> w_random w' = w_random w"
  by (auto simp: create_new_def sys_call_def set_files_def Let_def split: option.splits if_splits)

lemma remove_file_effect:
  "remove_file p w = (w', r) \<Longrightarrow>
     w_fault w' = w_fault w \<and> w_random w' = w_random w \<and>
     (files w' = files w \<and> past w' = past w
      \<or> files w' = (files w)(p := None) \<and> past w' = past w @ [(files w)(p := None)])"
  by (auto simp: remove_file_def sys_call_def set_files_def Let_def split: option.splits node.splits)

lemma near_drop_tmp: "n0 tmp = None \<Longrightarrow> tmp \<noteq> p \<Longrightarrow> near n0 p d n \<Longrightarrow> near n0 p d (n(tmp := None))"
  by (auto simp: near_def)

lemma spec_atomic_attempts:
  "spec (\<lambda>n. n = n0) (atomic_attempts k p d) (near n0 p d) (near n0 p d) (\<lambda>_ n. n = n0(p \<mapsto> NFile d 384))"
proof (induction k)
  case 0
  show ?case by (rule specI) auto
next
  case (Suc k)
  show ?case
  proof (rule specI)
    fix w w' r
    assume n0: "files w = n0" and run: "atomic_attempts (Suc k) p d w = (w', r)"
    let ?w = "w\<lparr>draws := draws w + 1\<rparr>"
    let ?goal = "(\<exists>ext. past w' = past w @ ext \<and> list_all (near n0 p d) ext)
      \<and> w_fault w' = w_fault w \<and> w_random w' = w_random w
      \<and> (case r of Inl _ \<Rightarrow> near n0 p d (files w') | Inr _ \<Rightarrow> files w' = n0(p \<mapsto> NFile d 384))"
    show ?goal
    proof (cases "w_random w (draws w)")
      case None
      then show ?thesis using run n0 by (auto simp: random_fill_def)
    next
      case (Some nonce)
      let ?t = "tmp_path p nonce"
      obtain w1 r1 where c: "create_new ?t ?w = (w1, r1)" by force
      note env = create_new_env[OF c]
      show ?thesis
        using c
      proof (cases rule: create_new_cases)
        case (failed e)
        show ?thesis
        proof (cases "io_error_kind e = AlreadyExists")
          case True
          then have "atomic_attempts k p d w1 = (w', r)"
            using run c failed Some by (simp add: random_fill_def)
          then show ?thesis
            using Suc failed n0 env unfolding spec_def by fastforce
        next
          case False
          then show ?thesis using run c failed Some n0 env by (auto simp: random_fill_def)
        qed
      next
        case created
        obtain w2 r2 where i: "install_tmp ?t p d w1 = (w2, r2)" by force
        have t: "n0 ?t = None" "?t \<noteq> p" using created n0 tmp_path_other by auto
        have near1: "near n0 p d (n0(?t \<mapsto> NFile [] 384))" using t by (auto simp: near_def)
        obtain ext where ext: "past w2 = past w1 @ ext" "list_all (near n0 p d) ext"
          "w_fault w2 = w_fault w" "w_random w2 = w_random w"
          "case r2 of Inl _ \<Rightarrow> near n0 p d (files w2) | Inr _ \<Rightarrow> files w2 = n0(p \<mapsto> NFile d 384)"
          using spec_install_tmp[of n0 ?t p d, OF t] i created n0 env unfolding spec_def by fastforce
        show ?thesis
        proof (cases r2)
          case (Inr _)
          then show ?thesis
            using run c created i Some ext near1 n0 by (auto simp: random_fill_def)
        next
          case (Inl e)
          obtain w3 r3 where d: "remove_file ?t w2 = (w3, r3)" by force
          then have "w' = w3" "r = Inl e"
            using run c created i Some Inl by (auto simp: random_fill_def)
          then show ?thesis
            using remove_file_effect[OF d] ext created near1 n0 Inl near_drop_tmp[of n0 ?t p d "files w2", OF t] by auto
        qed
      qed
    qed
  qed
qed

lemma spec_write_atomic:
  "spec (\<lambda>n. n = n0) (write_private_file_atomic p d) (near n0 p d) (near n0 p d)
     (\<lambda>_ n. n = n0(p \<mapsto> NFile d 384))"
  unfolding write_private_file_atomic_def by (rule spec_atomic_attempts)

subsection \<open>Runs without failures\<close>

definition no_faults :: "world \<Rightarrow> bool" where
  "no_faults w \<longleftrightarrow> (\<forall>k. w_fault w k = None)"

lemma sys_call_ok: "no_faults w \<Longrightarrow> sys_call act w = act (w\<lparr>calls := calls w + 1\<rparr>)"
  by (simp add: sys_call_def no_faults_def)

lemma no_faults_upd [simp]:
  "no_faults (w\<lparr>calls := k\<rparr>) = no_faults w" "no_faults (w\<lparr>draws := k\<rparr>) = no_faults w"
  "no_faults (w\<lparr>w_flock := l\<rparr>) = no_faults w" "no_faults (set_files n w) = no_faults w"
  by (simp_all add: no_faults_def set_files_def)

lemma set_files_sel [simp]:
  "files (set_files n w) = n" "calls (set_files n w) = calls w" "draws (set_files n w) = draws w"
  "w_random (set_files n w) = w_random w" "w_flock (set_files n w) = w_flock w"
  "w_fault (set_files n w) = w_fault w"
  by (simp_all add: set_files_def)

text \<open>The first temporary name drawn for \<open>p\<close> is free and its directory is there.\<close>

definition can_replace :: "world \<Rightarrow> string \<Rightarrow> bool" where
  "can_replace w p \<longleftrightarrow>
     (\<exists>nonce d m. w_random w (draws w) = Some nonce \<and> files w (tmp_path p nonce) = None
        \<and> parent_ok (files w) (tmp_path p nonce) \<and> parent_ok (files w) p
        \<and> parent p = Some d \<and> d \<noteq> [] \<and> files w d = Some (NDir m))
     \<and> (\<forall>m. files w p \<noteq> Some (NDir m))"

lemma parent_ok_upd: "parent_ok n q \<Longrightarrow> n p = None \<or> (\<exists>d m. n p = Some (NFile d m)) \<Longrightarrow> parent_ok (n(p \<mapsto> x)) q"
  by (auto simp: parent_ok_def split: option.splits node.splits)

lemma write_atomic_ok:
  assumes "no_faults w" "can_replace w p"
  shows "\<exists>w'. write_private_file_atomic p d w = (w', Inr ()) \<and> files w' = (files w)(p \<mapsto> NFile d 384)
     \<and> no_faults w' \<and> draws w' = draws w + 1 \<and> w_random w' = w_random w \<and> w_flock w' = w_flock w"
proof -
  obtain nonce dir m where t: "w_random w (draws w) = Some nonce" "files w (tmp_path p nonce) = None"
    "parent_ok (files w) (tmp_path p nonce)" "parent_ok (files w) p" "parent p = Some dir" "dir \<noteq> []"
    "files w dir = Some (NDir m)" "\<forall>m. files w p \<noteq> Some (NDir m)"
    using assms(2) unfolding can_replace_def by blast
  define tmp where "tmp = tmp_path p nonce"
  have ne: "tmp \<noteq> p" "dir \<noteq> tmp" "dir \<noteq> p" "files w tmp = None" "parent_ok (files w) tmp"
    using t tmp_path_other[of p nonce] by (auto simp: tmp_def)
  have gone: "(files w)(tmp := None, p \<mapsto> x) = (files w)(p \<mapsto> x)" for x
    using ne by (auto simp: fun_eq_iff)
  let ?w1 = "set_files ((files w)(tmp \<mapsto> NFile [] 384)) (w\<lparr>draws := draws w + 1, calls := calls w + 1\<rparr>)"
  have c: "create_new tmp (w\<lparr>draws := draws w + 1\<rparr>) = (?w1, Inr ())"
    using assms(1) ne by (simp add: create_new_def sys_call_ok)
  have pk: "parent_ok ((files w)(tmp \<mapsto> x)) p" for x
    using parent_ok_upd t(4) ne(4) by blast
  have pd: "case files w p of Some (NDir _) \<Rightarrow> False | _ \<Rightarrow> True"
    using t(8) by (auto split: option.split node.split)
  have "\<exists>w2. install_tmp tmp p d ?w1 = (w2, Inr ()) \<and> files w2 = (files w)(p \<mapsto> NFile d 384)
     \<and> no_faults w2 \<and> draws w2 = draws w + 1 \<and> w_random w2 = w_random w \<and> w_flock w2 = w_flock w"
    using assms(1) ne t(5,6,7) pk pd
    by (auto simp: install_tmp_def andthen_def lift_io_def write_all_def append_file_def sync_all_def
          sys_call_ok rename_def open_follow_def io_res_def gone no_faults_def set_files_def numeral_eq_Suc
          sys_call_def split: option.splits node.splits)
  then show ?thesis
    using c t(1) unfolding write_private_file_atomic_def tmp_def[symmetric]
    by (auto simp: numeral_eq_Suc random_fill_def tmp_def[symmetric])
qed

lemma read_private_ok:
  assumes "no_faults w"
  shows "files w p = None \<Longrightarrow> \<exists>w'. read_private_file_if_present p w = (w', Inr None)
           \<and> files w' = files w \<and> no_faults w' \<and> draws w' = draws w \<and> w_random w' = w_random w \<and> w_flock w' = w_flock w"
    and "files w p = Some (NFile d m) \<Longrightarrow> \<exists>w'. read_private_file_if_present p w = (w', Inr (Some d))
           \<and> files w' = (files w)(p \<mapsto> NFile d 384)
           \<and> no_faults w' \<and> draws w' = draws w \<and> w_random w' = w_random w \<and> w_flock w' = w_flock w"
  using assms
  by (auto simp: read_private_file_if_present_def open_nofollow_def sys_call_ok andthen_def lift_io_def
        set_permissions_def read_to_end_def io_res_def return_def)

section \<open>Properties\<close>

text \<open>C7. Replacing a private file is atomic.  Whatever calls fail, however much of a failing write
  reached the disk, and at whatever moment the process or the machine stops: in every state the files
  pass through, the file has its old contents or all of the new ones, and every other file that was
  there is as it was.  If the replacement reports success the file holds the new contents with mode 600.\<close>

theorem atomic_write_crash_safe:
  "case write_private_file_atomic p d w of
     (w', r) \<Rightarrow>
       (\<exists>ext. past w' = past w @ ext
          \<and> list_all (\<lambda>n. (n p = files w p \<or> n p = Some (NFile d 384))
                        \<and> (\<forall>q. q \<noteq> p \<and> files w q \<noteq> None \<longrightarrow> n q = files w q)) ext)
       \<and> (r = Inr () \<longrightarrow> files w' = (files w)(p \<mapsto> NFile d 384))"
proof -
  obtain w' r where run: "write_private_file_atomic p d w = (w', r)" by force
  show ?thesis
    using spec_write_atomic[of "files w" p d] run unfolding spec_def near_def
    by (fastforce split: sum.splits)
qed

definition example_world :: world where
  "example_world =
     \<lparr>files = [''/d'' \<mapsto> NDir 448], past = [], calls = 0, draws = 0, w_fault = (\<lambda>_. None),
      w_partial = (\<lambda>_. 0), w_random = (\<lambda>k. Some [word_of_nat k]), w_flock = []\<rparr>"

theorem atomic_write_crash_safe_witness:
  "snd (write_private_file_atomic ''/d/f'' [1, 2] example_world) = Inr ()
   \<and> files (fst (write_private_file_atomic ''/d/f'' [1, 2] example_world)) ''/d/f'' = Some (NFile [1, 2] 384)"
proof
  show s: "snd (write_private_file_atomic ''/d/f'' [1, 2] example_world) = Inr ()" by code_simp
  then show "files (fst (write_private_file_atomic ''/d/f'' [1, 2] example_world)) ''/d/f'' = Some (NFile [1, 2] 384)"
    using atomic_write_crash_safe[where p = "''/d/f''" and d = "[1, 2]" and w = example_world] by (simp add: case_prod_beta)
qed

end
