(* ===== verification/Tls.thy ===== *)
theory Tls
  imports Auth Files
begin

text \<open>
  \<open>hush-core/src/tls.rs\<close> and \<open>hush-core/src/endpoint.rs\<close>: which host certificates a client trusts, the
  server's own certificate and stateless reset key, the client's certificate, and how a connection is
  tuned.  The TOML, rustls and rcgen crates are parameters; handshake signatures are checked by rustls
  alone.
\<close>

section \<open>Tuning\<close>

text \<open>Durations are in milliseconds; the thresholds that are fractions of the round trip are pairs.\<close>

definition QUIC_FAST_SEND_WINDOW :: nat where "QUIC_FAST_SEND_WINDOW = 10000000"
definition QUIC_FAST_STREAM_RECV_WINDOW :: nat where "QUIC_FAST_STREAM_RECV_WINDOW = 4 * 1024 * 1024"
definition QUIC_FAST_CONN_RECV_WINDOW :: nat where "QUIC_FAST_CONN_RECV_WINDOW = 16 * 1024 * 1024"
definition QUIC_FAST_PACKET_THRESHOLD :: nat where "QUIC_FAST_PACKET_THRESHOLD = 3"
definition QUIC_FAST_TIME_THRESHOLD :: "nat \<times> nat" where "QUIC_FAST_TIME_THRESHOLD = (1, 1)"
definition QUIC_FAST_INITIAL_RTT :: nat where "QUIC_FAST_INITIAL_RTT = 100"
definition QUIC_FAST_ACK_DELAY :: nat where "QUIC_FAST_ACK_DELAY = 1"
definition QUIC_CLIENT_KEEP_ALIVE_INTERVAL :: nat where "QUIC_CLIENT_KEEP_ALIVE_INTERVAL = 25000"
definition QUIC_MTU_BLACK_HOLE_COOLDOWN :: nat where "QUIC_MTU_BLACK_HOLE_COOLDOWN = 1000"
definition QUIC_MTU_UPPER_BOUND :: nat where "QUIC_MTU_UPPER_BOUND = 1500 - 20 - 8"
definition QUIC_BULK_ACK_ELICITING_THRESHOLD :: nat where "QUIC_BULK_ACK_ELICITING_THRESHOLD = 50"
definition QUIC_BULK_ACK_DELAY :: nat where "QUIC_BULK_ACK_DELAY = 20"
definition QUIC_BULK_TIME_THRESHOLD :: "nat \<times> nat" where "QUIC_BULK_TIME_THRESHOLD = (9, 8)"
definition QUIC_BULK_PACKET_THRESHOLD :: nat where "QUIC_BULK_PACKET_THRESHOLD = 10"

datatype TransportProfile = Interactive | Bulk

datatype HostTrust = Tofu | KnownOnly | Insecure

datatype controller = Bbr | Cubic

record ack_frequency =
  af_ack_eliciting_threshold :: nat
  af_max_ack_delay :: "nat option"
  af_reordering_threshold :: nat

record transport_config =
  tc_max_idle_timeout :: nat
  tc_keep_alive_interval :: "nat option"
  tc_send_window :: nat
  tc_stream_receive_window :: nat
  tc_receive_window :: nat
  tc_packet_threshold :: nat
  tc_time_threshold :: "nat \<times> nat"
  tc_initial_rtt :: nat
  tc_ack_frequency :: ack_frequency
  tc_persistent_congestion_threshold :: nat
  tc_black_hole_cooldown :: nat
  tc_mtu_upper_bound :: nat
  tc_congestion :: controller

definition ack_frequency_config :: "TransportProfile \<Rightarrow> ack_frequency" where
  "ack_frequency_config profile =
     \<lparr>af_ack_eliciting_threshold =
        (case profile of Interactive \<Rightarrow> 0 | Bulk \<Rightarrow> QUIC_BULK_ACK_ELICITING_THRESHOLD),
      af_max_ack_delay =
        Some (case profile of Interactive \<Rightarrow> QUIC_FAST_ACK_DELAY | Bulk \<Rightarrow> QUIC_BULK_ACK_DELAY),
      af_reordering_threshold =
        (case profile of Interactive \<Rightarrow> QUIC_FAST_PACKET_THRESHOLD - 1 | Bulk \<Rightarrow> QUIC_BULK_PACKET_THRESHOLD - 1)\<rparr>"

definition congestion_controller :: "TransportProfile \<Rightarrow> controller" where
  "congestion_controller profile = (case profile of Interactive \<Rightarrow> Bbr | Bulk \<Rightarrow> Cubic)"

definition long_idle_transport :: "nat option \<Rightarrow> TransportProfile \<Rightarrow> transport_config" where
  "long_idle_transport keep_alive profile =
     \<lparr>tc_max_idle_timeout = 7 * 24 * 60 * 60 * 1000,
      tc_keep_alive_interval = keep_alive,
      tc_send_window = QUIC_FAST_SEND_WINDOW,
      tc_stream_receive_window = QUIC_FAST_STREAM_RECV_WINDOW,
      tc_receive_window = QUIC_FAST_CONN_RECV_WINDOW,
      tc_packet_threshold =
        (case profile of Interactive \<Rightarrow> QUIC_FAST_PACKET_THRESHOLD | Bulk \<Rightarrow> QUIC_BULK_PACKET_THRESHOLD),
      tc_time_threshold =
        (case profile of Interactive \<Rightarrow> QUIC_FAST_TIME_THRESHOLD | Bulk \<Rightarrow> QUIC_BULK_TIME_THRESHOLD),
      tc_initial_rtt = QUIC_FAST_INITIAL_RTT,
      tc_ack_frequency = ack_frequency_config profile,
      tc_persistent_congestion_threshold = 10,
      tc_black_hole_cooldown = QUIC_MTU_BLACK_HOLE_COOLDOWN,
      tc_mtu_upper_bound = QUIC_MTU_UPPER_BOUND,
      tc_congestion = congestion_controller profile\<rparr>"

text \<open>Of an established connection only the controller and the acknowledgement frequency can change.\<close>

definition switch_to_bulk :: "transport_config \<Rightarrow> transport_config" where
  "switch_to_bulk c =
     c\<lparr>tc_congestion := congestion_controller Bulk, tc_ack_frequency := ack_frequency_config Bulk\<rparr>"

section \<open>Known hosts\<close>

record KnownHosts =
  kh_path :: string
  kh_entries :: "string \<rightharpoonup> string"

text \<open>The TOML crate on \<open>KnownHostsFile\<close>: an error of the parser is its text.\<close>

record toml_lib =
  kh_parse :: "string \<Rightarrow> string + (string \<rightharpoonup> string)"
  kh_print :: "(string \<rightharpoonup> string) \<Rightarrow> string + string"

definition read_to_string :: "string \<Rightarrow> string io" where
  "read_to_string p w =
     (case open_follow p w of
        (w, Inl e) \<Rightarrow> (w, Inl e)
      | (w, Inr n) \<Rightarrow>
          sys_call (\<lambda>w. (w, case n of
             NFile d _ \<Rightarrow> (case str_from_utf8 d of Some s \<Rightarrow> Inr s | None \<Rightarrow> Inl (io_err OtherKind))
           | _ \<Rightarrow> Inl (io_err OtherKind))) w)"

text \<open>What the contents of the file mean; split off from reading it.\<close>

definition entries_of :: "toml_lib \<Rightarrow> string \<Rightarrow> string \<Rightarrow> (string \<rightharpoonup> string) res" where
  "entries_of T path data =
     (if trim data = [] then Inr Map.empty
      else case kh_parse T data of
             Inl err \<Rightarrow> Inl (Bail (''parse '' @ path @ '': '' @ err))
           | Inr hosts \<Rightarrow> Inr hosts)"

definition read_entries :: "toml_lib \<Rightarrow> string \<Rightarrow> (string \<rightharpoonup> string) action" where
  "read_entries T path w =
     (case read_to_string path w of
        (w, Inl e) \<Rightarrow> (w, if io_error_kind e = NotFound then Inr Map.empty else Inl (Io e))
      | (w, Inr data) \<Rightarrow> (w, entries_of T path data))"

definition kh_load :: "toml_lib \<Rightarrow> string \<Rightarrow> KnownHosts action" where
  "kh_load T path =
     andthen (read_entries T path) (\<lambda>es. return (Inr \<lparr>kh_path = path, kh_entries = es\<rparr>))"

definition ensure_parent :: "string \<Rightarrow> unit action" where
  "ensure_parent path =
     (case parent path of Some d \<Rightarrow> ensure_private_dir d | None \<Rightarrow> return (Inr ()))"

definition kh_save :: "toml_lib \<Rightarrow> KnownHosts \<Rightarrow> unit action" where
  "kh_save T kh =
     andthen (ensure_parent (kh_path kh)) (\<lambda>_.
       case kh_print T (kh_entries kh) of
         Inl err \<Rightarrow> return (Inl (Foreign err))
       | Inr data \<Rightarrow> write_private_file_atomic (kh_path kh) (as_bytes data))"

definition check_existing ::
  "toml_lib \<Rightarrow> KnownHosts \<Rightarrow> string \<Rightarrow> string \<Rightarrow> bool \<Rightarrow> world \<Rightarrow> world \<times> KnownHosts \<times> unit res" where
  "check_existing T kh host fingerprint ins w =
     (case kh_entries kh host of
        Some old \<Rightarrow>
          if old = fingerprint then (w, kh, Inr ())
          else (w, kh, Inl (Bail (''host certificate mismatch for '' @ host @ '': known '' @ old @ '', got ''
                  @ fingerprint @ ''; use -k to bypass'')))
      | None \<Rightarrow>
          if \<not> ins then (w, kh, Inl (Bail (''unknown host '' @ host)))
          else
            (let kh = kh\<lparr>kh_entries := (kh_entries kh)(host \<mapsto> fingerprint)\<rparr>
             in case kh_save T kh w of (w, r) \<Rightarrow> (w, kh, r)))"

text \<open>The part of \<open>check_or_insert\<close> before the file is read: the directory and the lock.\<close>

definition kh_lock :: "string \<Rightarrow> unit action" where
  "kh_lock path = andthen (ensure_parent path) (\<lambda>_. lock_acquire (lock_path_for path))"

definition check_or_insert ::
  "toml_lib \<Rightarrow> KnownHosts \<Rightarrow> string \<Rightarrow> string \<Rightarrow> HostTrust \<Rightarrow> world \<Rightarrow> world \<times> KnownHosts \<times> unit res" where
  "check_or_insert T kh host fingerprint trust w =
     (if trust = Insecure then (w, kh, Inr ())
      else if trust = KnownOnly then
        (case read_entries T (kh_path kh) w of
           (w, Inl e) \<Rightarrow> (w, kh, Inl e)
         | (w, Inr es) \<Rightarrow> check_existing T (kh\<lparr>kh_entries := es\<rparr>) host fingerprint False w)
      else
        (case kh_lock (kh_path kh) w of
           (w, Inl e) \<Rightarrow> (w, kh, Inl e)
         | (w, Inr _) \<Rightarrow>
             (case read_entries T (kh_path kh) w of
                (w, Inl e) \<Rightarrow> (w, kh, Inl e)
              | (w, Inr es) \<Rightarrow> check_existing T (kh\<lparr>kh_entries := es\<rparr>) host fingerprint True w)))"

text \<open>The text of an error as rustls is given it: the outermost message.\<close>

fun error_text :: "(io_error \<Rightarrow> string) \<Rightarrow> error \<Rightarrow> string" where
  "error_text io_text (Bail m) = m"
| "error_text io_text (Io e) = io_text e"
| "error_text io_text (Foreign m) = m"
| "error_text io_text (Ctx m _) = m"

record TofuServerVerifier =
  tv_known_hosts :: KnownHosts
  tv_poisoned :: bool
  tv_host_key :: string
  tv_trust :: HostTrust

definition verify_server_cert ::
  "toml_lib \<Rightarrow> (byte list \<Rightarrow> string) \<Rightarrow> (io_error \<Rightarrow> string) \<Rightarrow> TofuServerVerifier \<Rightarrow> byte list \<Rightarrow> world
     \<Rightarrow> world \<times> TofuServerVerifier \<times> (string + unit)" where
  "verify_server_cert T sha256_b64 io_text v end_entity w =
     (if tv_poisoned v then (w, v, Inl ''known_hosts lock poisoned'')
      else case check_or_insert T (tv_known_hosts v) (tv_host_key v) (cert_fingerprint sha256_b64 end_entity)
                  (tv_trust v) w of
             (w, kh, r) \<Rightarrow>
               (w, v\<lparr>tv_known_hosts := kh\<rparr>,
                case r of Inl e \<Rightarrow> Inl (error_text io_text e) | Inr _ \<Rightarrow> Inr ()))"

definition verify_client_cert ::
  "'k ssh_lib \<Rightarrow> (byte list \<Rightarrow> certificate res) \<Rightarrow> (io_error \<Rightarrow> string) \<Rightarrow> byte list \<Rightarrow> string + unit" where
  "verify_client_cert L parse_cert io_text end_entity =
     (case public_key_from_cert_der L parse_cert end_entity of
        Inl e \<Rightarrow> Inl (error_text io_text e) | Inr _ \<Rightarrow> Inr ())"

definition host_key :: "string \<Rightarrow> u16 \<Rightarrow> string" where
  "host_key host port = host @ '':'' @ show_nat (unat port)"

definition host_key_from_addr :: "string \<Rightarrow> socket_addr \<Rightarrow> string" where
  "host_key_from_addr host addr = host_key host (sa_port addr)"

section \<open>The client's certificate\<close>

datatype rcgen_alg = PKCS_ED25519 | PKCS_ECDSA_P256_SHA256 | PKCS_ECDSA_P384_SHA384 | PKCS_ECDSA_P521_SHA512

fun rcgen_algorithm :: "(Algorithm \<Rightarrow> string) \<Rightarrow> Algorithm \<Rightarrow> rcgen_alg res" where
  "rcgen_algorithm alg_name Ed25519 = Inr PKCS_ED25519"
| "rcgen_algorithm alg_name (Ecdsa NistP256) = Inr PKCS_ECDSA_P256_SHA256"
| "rcgen_algorithm alg_name (Ecdsa NistP384) = Inr PKCS_ECDSA_P384_SHA384"
| "rcgen_algorithm alg_name (Ecdsa NistP521) = Inr PKCS_ECDSA_P521_SHA512"
| "rcgen_algorithm alg_name other = Inl (Bail (''unsupported SSH key type '' @ alg_name other))"

datatype SignatureScheme =
    SchemeED25519 | ECDSA_NISTP256_SHA256 | ECDSA_NISTP384_SHA384 | ECDSA_NISTP521_SHA512 | OtherScheme nat

datatype SignatureAlgorithm = SigED25519 | SigECDSA

fun tls_signature_scheme ::
  "(Algorithm \<Rightarrow> string) \<Rightarrow> Algorithm \<Rightarrow> (SignatureScheme \<times> SignatureAlgorithm) res" where
  "tls_signature_scheme alg_name Ed25519 = Inr (SchemeED25519, SigED25519)"
| "tls_signature_scheme alg_name (Ecdsa NistP256) = Inr (ECDSA_NISTP256_SHA256, SigECDSA)"
| "tls_signature_scheme alg_name (Ecdsa NistP384) = Inr (ECDSA_NISTP384_SHA384, SigECDSA)"
| "tls_signature_scheme alg_name (Ecdsa NistP521) = Inr (ECDSA_NISTP521_SHA512, SigECDSA)"
| "tls_signature_scheme alg_name other = Inl (Bail (''unsupported SSH key type '' @ alg_name other))"

text \<open>
  The rcgen crate: \<open>rc_params\<close> checks the subject names, \<open>rc_from_der\<close> loads a key and \<open>rc_self_signed\<close>
  issues a certificate for a name, its extensions, a key and what signs it.
\<close>

record CertParams =
  cp_names :: "string list"
  cp_custom_extensions :: "(nat list \<times> byte list) list"

datatype cert_key = KeyPairKey "byte list" rcgen_alg | UnsignedAgentCertKey "byte list" rcgen_alg

record rcgen_lib =
  rc_params :: "string list \<Rightarrow> unit res"
  rc_from_der :: "byte list \<Rightarrow> rcgen_alg \<Rightarrow> unit res"
  rc_self_signed :: "CertParams \<Rightarrow> cert_key \<Rightarrow> byte list \<Rightarrow> byte list res"
  rc_sign :: "cert_key \<Rightarrow> byte list"

definition unsigned_sign :: "byte list \<Rightarrow> byte list" where
  "unsigned_sign msg = []"

definition client_cert_params :: "rcgen_lib \<Rightarrow> string \<Rightarrow> string \<Rightarrow> CertParams res" where
  "client_cert_params R name user =
     and_then (rc_params R [name]) (\<lambda>_.
     and_then (encode_username_extension user) (\<lambda>ext.
       Inr \<lparr>cp_names = [name], cp_custom_extensions = [(HUSH_USERNAME_OID, ext)]\<rparr>))"

definition self_signed_cert ::
  "rcgen_lib \<Rightarrow> (Algorithm \<Rightarrow> string) \<Rightarrow> string \<Rightarrow> string \<Rightarrow> byte list \<Rightarrow> Algorithm \<Rightarrow> byte list res" where
  "self_signed_cert R alg_name name user pkcs8_der alg =
     and_then (rcgen_algorithm alg_name alg) (\<lambda>ra.
     and_then (rc_from_der R pkcs8_der ra) (\<lambda>_.
     and_then (client_cert_params R name user) (\<lambda>params.
       rc_self_signed R params (KeyPairKey pkcs8_der ra) (rc_sign R (KeyPairKey pkcs8_der ra)))))"

definition self_signed_agent_cert ::
  "rcgen_lib \<Rightarrow> 'k ssh_lib \<Rightarrow> string \<Rightarrow> string \<Rightarrow> 'k \<Rightarrow> byte list res" where
  "self_signed_agent_cert R L name user public_key =
     and_then (raw_public_key_bytes L public_key) (\<lambda>raw.
     and_then (rcgen_algorithm (algorithm_name L) (algorithm L public_key)) (\<lambda>ra.
     and_then (client_cert_params R name user) (\<lambda>params.
       rc_self_signed R params (UnsignedAgentCertKey raw ra) (unsigned_sign []))))"

record 'k AgentTlsSigningKey =
  ak_socket :: string
  ak_public_key :: 'k
  ak_spki_der :: "byte list"
  ak_scheme :: SignatureScheme
  ak_signature_algorithm :: SignatureAlgorithm

definition choose_scheme :: "'k AgentTlsSigningKey \<Rightarrow> SignatureScheme list \<Rightarrow> 'k AgentTlsSigningKey option" where
  "choose_scheme key offered = (if ak_scheme key \<in> set offered then Some key else None)"

definition signer_sign ::
  "'k ssh_lib \<Rightarrow> sig_lib \<Rightarrow> (string \<Rightarrow> io_error + agent_conn) \<Rightarrow> (io_error \<Rightarrow> string) \<Rightarrow> 'k AgentTlsSigningKey
     \<Rightarrow> byte list \<Rightarrow> string + byte list" where
  "signer_sign L SL connect io_text key message =
     (case agent_sign L SL connect (ak_socket key) (ak_public_key key) message of
        Inl e \<Rightarrow> Inl (''ssh-agent signing failed: '' @ error_text io_text e)
      | Inr s \<Rightarrow> Inr s)"

datatype 'k client_key = Pkcs8Key "byte list" | AgentSigner "'k AgentTlsSigningKey"

record 'k ClientConfig =
  cc_verifier :: TofuServerVerifier
  cc_cert :: "byte list"
  cc_key :: "'k client_key"
  cc_alpn :: "string list"
  cc_transport :: transport_config

text \<open>\<open>tls_accepts\<close> is rustls's verdict on a certificate with a key read from a file.\<close>

definition make_client_config ::
  "toml_lib \<Rightarrow> rcgen_lib \<Rightarrow> 'k ssh_lib \<Rightarrow> (byte list \<Rightarrow> byte list \<Rightarrow> unit res) \<Rightarrow> string \<Rightarrow> string
     \<Rightarrow> 'k LoadedIdentity \<Rightarrow> string \<Rightarrow> HostTrust \<Rightarrow> TransportProfile \<Rightarrow> 'k ClientConfig action" where
  "make_client_config T R L tls_accepts data_dir hk identity user trust profile =
     andthen (kh_load T (join data_dir ''known_hosts'')) (\<lambda>kh.
       let v = \<lparr>tv_known_hosts = kh, tv_poisoned = False, tv_host_key = hk, tv_trust = trust\<rparr>;
           alg = algorithm L (li_public_key identity);
           config = (\<lambda>cert key.
             \<lparr>cc_verifier = v, cc_cert = cert, cc_key = key, cc_alpn = [ALPN],
              cc_transport = long_idle_transport (Some QUIC_CLIENT_KEEP_ALIVE_INTERVAL) profile\<rparr>)
       in return
            (case li_key identity of
               FileKey der \<Rightarrow>
                 and_then (self_signed_cert R (algorithm_name L) ''hush-client'' user der alg) (\<lambda>cert.
                 and_then (tls_accepts cert der) (\<lambda>_. Inr (config cert (Pkcs8Key der))))
             | AgentKey socket spki \<Rightarrow>
                 and_then (self_signed_agent_cert R L ''hush-client'' user (li_public_key identity)) (\<lambda>cert.
                 and_then (tls_signature_scheme (algorithm_name L) alg) (\<lambda>(scheme, sa).
                   Inr (config cert (AgentSigner
                     \<lparr>ak_socket = socket, ak_public_key = li_public_key identity, ak_spki_der = spki,
                      ak_scheme = scheme, ak_signature_algorithm = sa\<rparr>))))))"

section \<open>The server's certificate\<close>

record ServerConfig =
  sc_cert :: "byte list"
  sc_key :: "byte list"
  sc_alpn :: "string list"
  sc_transport :: transport_config

definition make_server_config :: "(byte list \<Rightarrow> byte list \<Rightarrow> unit res) \<Rightarrow> byte list \<Rightarrow> byte list \<Rightarrow> ServerConfig res" where
  "make_server_config tls_accepts cert key =
     and_then (tls_accepts cert key) (\<lambda>_.
       Inr \<lparr>sc_cert = cert, sc_key = key, sc_alpn = [ALPN],
            sc_transport = long_idle_transport None Interactive\<rparr>)"

text \<open>\<open>generated\<close> is the certificate and key that rcgen makes in this run, or its error.\<close>

definition create_host_cert ::
  "(byte list \<times> byte list) res \<Rightarrow> string \<Rightarrow> string \<Rightarrow> (byte list \<times> byte list) action" where
  "create_host_cert generated cert_path key_path =
     (case generated of
        Inl e \<Rightarrow> return (Inl e)
      | Inr (cert, key) \<Rightarrow>
          andthen (write_private_file_atomic cert_path cert) (\<lambda>_.
          andthen (write_private_file_atomic key_path key) (\<lambda>_.
            return (Inr (cert, key)))))"

definition host_cert_paths :: "string \<Rightarrow> string option \<Rightarrow> string option \<Rightarrow> string \<times> string" where
  "host_cert_paths data_dir cert_path key_path =
     ((case cert_path of Some p \<Rightarrow> p | None \<Rightarrow> join (server_dir data_dir) ''host_cert.der''),
      (case key_path of Some p \<Rightarrow> p | None \<Rightarrow> join (server_dir data_dir) ''host_key.der''))"

text \<open>The part under the lock.\<close>

definition host_cert_locked ::
  "(byte list \<Rightarrow> byte list \<Rightarrow> unit res) \<Rightarrow> (byte list \<times> byte list) res \<Rightarrow> bool \<Rightarrow> string \<Rightarrow> string
     \<Rightarrow> (byte list \<times> byte list) action" where
  "host_cert_locked tls_accepts generated explicit cert_path key_path =
     (if path_eq cert_path key_path
      then return (Inl (Bail ''host certificate and key paths must be different''))
      else
        andthen (read_private_file_if_present cert_path) (\<lambda>cert.
        andthen (read_private_file_if_present key_path) (\<lambda>key.
          case (cert, key) of
            (Some cert, Some key) \<Rightarrow>
              (case make_server_config tls_accepts cert key of
                 Inr _ \<Rightarrow> return (Inr (cert, key))
               | Inl err \<Rightarrow>
                   if explicit
                   then return (Inl (Ctx ''host certificate and key do not form a valid pair'' err))
                   else create_host_cert generated cert_path key_path)
          | _ \<Rightarrow> create_host_cert generated cert_path key_path)))"

definition load_or_create_host_cert ::
  "(byte list \<Rightarrow> byte list \<Rightarrow> unit res) \<Rightarrow> (byte list \<times> byte list) res \<Rightarrow> string \<Rightarrow> string option
     \<Rightarrow> string option \<Rightarrow> (byte list \<times> byte list) action" where
  "load_or_create_host_cert tls_accepts generated data_dir cert_path key_path =
     andthen (ensure_private_dir (server_dir data_dir)) (\<lambda>_.
     andthen (lock_acquire (join (server_dir data_dir) ''.host-identity.lock'')) (\<lambda>_.
       case host_cert_paths data_dir cert_path key_path of
         (cp, kp) \<Rightarrow> host_cert_locked tls_accepts generated (cert_path \<noteq> None \<or> key_path \<noteq> None) cp kp))"

section \<open>The stateless reset key\<close>

definition STATELESS_RESET_KEY_LEN :: nat where "STATELESS_RESET_KEY_LEN = 64"

definition read_stateless_reset_key :: "string \<Rightarrow> byte list option action" where
  "read_stateless_reset_key path w =
     (case open_nofollow path w of
        (w, Inl e) \<Rightarrow>
          if io_error_kind e = NotFound then (w, Inr None) else (w, Inl (Ctx (''open '' @ path) (Io e)))
      | (w, Inr _) \<Rightarrow>
          andthen (lift_io (set_permissions path 384)) (\<lambda>_.
          andthen (lift_io (read_to_end path)) (\<lambda>d.
            return
              (if length d < STATELESS_RESET_KEY_LEN
               then Inl (Ctx (''read '' @ path) (Io (io_err UnexpectedEof)))
               else if STATELESS_RESET_KEY_LEN < length d
               then Inl (Bail (''invalid stateless reset key length in '' @ path @ '': expected ''
                       @ show_nat STATELESS_RESET_KEY_LEN @ '' bytes''))
               else Inr (Some d)))) w)"

definition reset_tmp_path :: "string \<Rightarrow> byte list \<Rightarrow> string" where
  "reset_tmp_path dir nonce = join dir (''.stateless_reset.'' @ hex_encode nonce @ ''.tmp'')"

definition install_reset_key :: "string \<Rightarrow> string \<Rightarrow> string \<Rightarrow> byte list \<Rightarrow> byte list option action" where
  "install_reset_key dir path tmp key =
     andthen (lift_io (write_all tmp key)) (\<lambda>_.
     andthen (lift_io sync_all) (\<lambda>_ w.
       case hard_link tmp path w of
         (w, Inr _) \<Rightarrow>
           andthen (lift_io (remove_file tmp)) (\<lambda>_.
           andthen (lift_io (open_follow dir)) (\<lambda>_.
           andthen (lift_io sync_all) (\<lambda>_. return (Inr (Some key))))) w
       | (w, Inl e) \<Rightarrow>
           if io_error_kind e = AlreadyExists
           then andthen (lift_io (remove_file tmp)) (\<lambda>_. read_stateless_reset_key path) w
           else (w, Inl (Io e))))"

fun reset_key_attempts :: "nat \<Rightarrow> string \<Rightarrow> string \<Rightarrow> byte list \<Rightarrow> byte list action" where
  "reset_key_attempts 0 dir path key w = (w, Inl (Bail (''could not install stateless reset key at '' @ path)))"
| "reset_key_attempts (Suc k) dir path key w =
     (case random_fill w of
        (w, None) \<Rightarrow> (w, Inl (Ctx ''generate temporary filename'' (Foreign ''Unspecified'')))
      | (w, Some nonce) \<Rightarrow>
          (case create_new (reset_tmp_path dir nonce) w of
             (w, Inl e) \<Rightarrow>
               if io_error_kind e = AlreadyExists then reset_key_attempts k dir path key w
               else (w, Inl (Ctx (''create '' @ reset_tmp_path dir nonce) (Io e)))
           | (w, Inr _) \<Rightarrow>
               (case install_reset_key dir path (reset_tmp_path dir nonce) key w of
                  (w, Inl e) \<Rightarrow> (fst (remove_file (reset_tmp_path dir nonce) w), Inl e)
                | (w, Inr (Some installed)) \<Rightarrow> (w, Inr installed)
                | (w, Inr None) \<Rightarrow> reset_key_attempts k dir path key w)))"

definition load_or_create_stateless_reset_key :: "string \<Rightarrow> byte list action" where
  "load_or_create_stateless_reset_key data_dir =
     (let dir = server_dir data_dir; path = join dir ''stateless_reset.key'' in
      andthen (lift_io (create_dir_all dir)) (\<lambda>_.
      andthen (lift_io (set_permissions dir 448)) (\<lambda>_.
      andthen (read_stateless_reset_key path) (\<lambda>found w.
        case found of
          Some key \<Rightarrow> (w, Inr key)
        | None \<Rightarrow>
            (case random_fill w of
               (w, None) \<Rightarrow> (w, Inl (Ctx ''generate stateless reset key'' (Foreign ''Unspecified'')))
             | (w, Some key) \<Rightarrow> reset_key_attempts 32 dir path key w)))))"

definition cid_generator_key_from_reset_key :: "byte list \<Rightarrow> u64" where
  "cid_generator_key_from_reset_key key = word_of_nat (be_val (rev (take 8 key)))"

definition server_endpoint_config :: "string \<Rightarrow> (byte list \<times> u64) action" where
  "server_endpoint_config data_dir =
     andthen (load_or_create_stateless_reset_key data_dir) (\<lambda>key.
       return (Inr (key, cid_generator_key_from_reset_key key)))"

section \<open>Clients that share a known_hosts file\<close>

text \<open>
  Any number of clients run \<open>check_or_insert\<close> on the same file, each in steps between which the
  others may run: making the directory and opening the lock file, waiting for the lock, reading the
  file, and deciding, which may replace the file and drops the lock.  A client that accepts known
  hosts only just reads.
\<close>

datatype phase = Begin | Waiting | Locked | Loaded "string \<rightharpoonup> string" | Ended "unit res"

record kh_client =
  c_host :: string
  c_fingerprint :: string
  c_trust :: HostTrust
  c_phase :: phase

record kh_system =
  s_world :: world
  s_lock :: "nat option"
  s_client :: "nat \<Rightarrow> kh_client"

definition kh_prepare :: "string \<Rightarrow> unit action" where
  "kh_prepare path = andthen (ensure_parent path) (\<lambda>_. lift_io (open_lock_file (lock_path_for path)))"

definition set_phase :: "nat \<Rightarrow> phase \<Rightarrow> kh_system \<Rightarrow> kh_system" where
  "set_phase i ph s = s\<lparr>s_client := (s_client s)(i := (s_client s i)\<lparr>c_phase := ph\<rparr>)\<rparr>"

inductive kh_step :: "toml_lib \<Rightarrow> string \<Rightarrow> kh_system \<Rightarrow> kh_system \<Rightarrow> bool" for T path where
  insecure:
    "c_phase (s_client s i) = Begin \<Longrightarrow> c_trust (s_client s i) = Insecure \<Longrightarrow>
     kh_step T path s (set_phase i (Ended (Inr ())) s)"
| known_only:
    "c_phase (s_client s i) = Begin \<Longrightarrow> c_trust (s_client s i) = KnownOnly \<Longrightarrow>
     check_or_insert T \<lparr>kh_path = path, kh_entries = Map.empty\<rparr> (c_host (s_client s i))
       (c_fingerprint (s_client s i)) KnownOnly (s_world s) = (w, kh, r) \<Longrightarrow>
     kh_step T path s (set_phase i (Ended r) (s\<lparr>s_world := w\<rparr>))"
| prepare:
    "c_phase (s_client s i) = Begin \<Longrightarrow> c_trust (s_client s i) = Tofu \<Longrightarrow>
     kh_prepare path (s_world s) = (w, r) \<Longrightarrow>
     kh_step T path s (set_phase i (case r of Inl e \<Rightarrow> Ended (Inl e) | Inr _ \<Rightarrow> Waiting) (s\<lparr>s_world := w\<rparr>))"
| lock_fails:
    "c_phase (s_client s i) = Waiting \<Longrightarrow> flock_loop (w_flock (s_world s)) = (rest, Inl e) \<Longrightarrow>
     kh_step T path s (set_phase i (Ended (Inl (Io e))) (s\<lparr>s_world := (s_world s)\<lparr>w_flock := rest\<rparr>\<rparr>))"
| lock:
    "c_phase (s_client s i) = Waiting \<Longrightarrow> s_lock s = None \<Longrightarrow>
     flock_loop (w_flock (s_world s)) = (rest, Inr ()) \<Longrightarrow>
     kh_step T path s
       (set_phase i Locked (s\<lparr>s_lock := Some i, s_world := (s_world s)\<lparr>w_flock := rest\<rparr>\<rparr>))"
| load_fails:
    "c_phase (s_client s i) = Locked \<Longrightarrow> read_entries T path (s_world s) = (w, Inl e) \<Longrightarrow>
     kh_step T path s (set_phase i (Ended (Inl e)) (s\<lparr>s_lock := None, s_world := w\<rparr>))"
| load:
    "c_phase (s_client s i) = Locked \<Longrightarrow> read_entries T path (s_world s) = (w, Inr es) \<Longrightarrow>
     kh_step T path s (set_phase i (Loaded es) (s\<lparr>s_world := w\<rparr>))"
| decide:
    "c_phase (s_client s i) = Loaded es \<Longrightarrow>
     check_existing T \<lparr>kh_path = path, kh_entries = es\<rparr> (c_host (s_client s i))
       (c_fingerprint (s_client s i)) True (s_world s) = (w, kh, r) \<Longrightarrow>
     kh_step T path s (set_phase i (Ended r) (s\<lparr>s_lock := None, s_world := w\<rparr>))"

subsection \<open>What is pinned\<close>

definition disk_entries :: "toml_lib \<Rightarrow> string \<Rightarrow> nodes \<Rightarrow> (string \<rightharpoonup> string) option" where
  "disk_entries T path n =
     (case (if path = [] then Inl (io_err NotFound) else follow 40 n path) of
        Inl e \<Rightarrow> if io_error_kind e = NotFound then Some Map.empty else None
      | Inr (NFile d _) \<Rightarrow> Option.bind (str_from_utf8 d) (\<lambda>s. result_ok (entries_of T path s))
      | Inr _ \<Rightarrow> None)"

definition pinned :: "toml_lib \<Rightarrow> string \<Rightarrow> nodes \<Rightarrow> string \<Rightarrow> string \<Rightarrow> bool" where
  "pinned T path n h fp \<longleftrightarrow> (\<exists>es. disk_entries T path n = Some es \<and> es h = Some fp)"

text \<open>Laws of the TOML crate: what it prints it parses, and a blank document is empty.\<close>

definition toml_laws :: "toml_lib \<Rightarrow> bool" where
  "toml_laws T \<longleftrightarrow>
     (\<forall>m s. kh_print T m = Inr s \<longrightarrow> utf8_valid (as_bytes s) \<and> kh_parse T s = Inr m)
     \<and> (\<forall>s. trim s = [] \<longrightarrow> kh_parse T s = Inr Map.empty)"

text \<open>Calls may fail in any way but by claiming that a file which is there is not.\<close>

definition honest :: "world \<Rightarrow> bool" where
  "honest w \<longleftrightarrow> (\<forall>k e. w_fault w k = Some e \<longrightarrow> io_error_kind e \<noteq> NotFound)"

text \<open>Files that only gain directories and empty files, and change modes.\<close>

definition grows :: "nodes \<Rightarrow> nodes \<Rightarrow> bool" where
  "grows n n' \<longleftrightarrow> (\<forall>q. case n q of
       Some x \<Rightarrow> \<exists>m. n' q = Some (with_mode m x)
     | None \<Rightarrow> n' q = None \<or> (\<exists>m. n' q = Some (NDir m) \<or> n' q = Some (NFile [] m)))"

lemma with_mode_same: "\<exists>m. with_mode m x = x"
  by (cases x) auto

lemma with_mode_twice [simp]: "with_mode m (with_mode k x) = with_mode m x"
  by (cases x) auto

lemma grows_refl [simp]: "grows n n"
  using with_mode_same by (auto simp: grows_def split: option.split) metis

lemma grows_trans: "grows a b \<Longrightarrow> grows b c \<Longrightarrow> grows a c"
  unfolding grows_def
proof
  fix q
  assume ab: "\<forall>q. case a q of Some x \<Rightarrow> \<exists>m. b q = Some (with_mode m x)
     | None \<Rightarrow> b q = None \<or> (\<exists>m. b q = Some (NDir m) \<or> b q = Some (NFile [] m))"
    and bc: "\<forall>q. case b q of Some x \<Rightarrow> \<exists>m. c q = Some (with_mode m x)
     | None \<Rightarrow> c q = None \<or> (\<exists>m. c q = Some (NDir m) \<or> c q = Some (NFile [] m))"
  show "case a q of Some x \<Rightarrow> \<exists>m. c q = Some (with_mode m x)
     | None \<Rightarrow> c q = None \<or> (\<exists>m. c q = Some (NDir m) \<or> c q = Some (NFile [] m))"
    using ab[rule_format, of q] bc[rule_format, of q]
    by (auto split: option.splits)
qed

lemma grows_add: "n p = None \<Longrightarrow> grows n (n(p \<mapsto> NDir m))" "n p = None \<Longrightarrow> grows n (n(p \<mapsto> NFile [] m))"
  using with_mode_same by (auto simp: grows_def split: option.split) metis+

lemma grows_mode: "n p = Some x \<Longrightarrow> grows n (n(p \<mapsto> with_mode m x))"
  using with_mode_same by (auto simp: grows_def split: option.split) metis

lemma grows_follow:
  assumes "grows n n'"
  shows "follow k n p = Inr x \<Longrightarrow> \<exists>m. follow k n' p = Inr (with_mode m x)"
    and "follow k n' p = Inr y \<Longrightarrow>
      (\<exists>x m. follow k n p = Inr x \<and> y = with_mode m x) \<or> (\<exists>m. y = NDir m \<or> y = NFile [] m)"
proof (induction k arbitrary: p)
  case (Suc k)
  have q: "case n p of Some x \<Rightarrow> \<exists>m. n' p = Some (with_mode m x)
     | None \<Rightarrow> n' p = None \<or> (\<exists>m. n' p = Some (NDir m) \<or> n' p = Some (NFile [] m))" for p
    using assms unfolding grows_def by blast
  {
    case 1
    then obtain x0 where x0: "n p = Some x0" by (cases "n p") auto
    then obtain m where "n' p = Some (with_mode m x0)" using q[of p] by auto
    then show ?case using 1 x0 Suc(1) by (cases x0) auto
  next
    case 2
    show ?case
    proof (cases "n p")
      case None
      then show ?thesis using 2 q[of p] by auto
    next
      case (Some x0)
      then obtain m where m: "n' p = Some (with_mode m x0)" using q[of p] by auto
      show ?thesis
      proof (cases x0)
        case (NLink t)
        then show ?thesis using 2 Some m Suc(2)[of t] by simp
      qed (use 2 Some m with_mode.simps in \<open>auto simp del: with_mode.simps\<close>)
    qed
  }
qed simp_all

lemma entries_of_blank [simp]: "entries_of T path [] = Inr Map.empty"
proof -
  have "trim [] = []" by code_simp
  then show ?thesis by (simp add: entries_of_def)
qed

lemma result_ok_Some: "result_ok r = Some x \<longleftrightarrow> r = Inr x"
  by (cases r) (simp_all add: result_ok_def)

lemma pinned_node:
  "pinned T path n h fp \<longleftrightarrow> path \<noteq> [] \<and> (\<exists>d m s es. follow 40 n path = Inr (NFile d m)
     \<and> str_from_utf8 d = Some s \<and> entries_of T path s = Inr es \<and> es h = Some fp)"
proof (cases "path = []")
  case False
  then show ?thesis
    by (cases "follow 40 n path")
       (auto simp: pinned_def disk_entries_def bind_eq_Some_conv result_ok_Some
          split: node.splits if_splits)
qed (auto simp: pinned_def disk_entries_def)

lemma str_from_utf8_Nil: "str_from_utf8 [] = Some s \<Longrightarrow> s = []"
  by (simp add: str_from_utf8_Some as_bytes_def)

lemma grows_pinned: "grows n n' \<Longrightarrow> pinned T path n' h fp \<longleftrightarrow> pinned T path n h fp"
proof
  assume g: "grows n n'" and "pinned T path n' h fp"
  then obtain d m s es where p: "path \<noteq> []" "follow 40 n' path = Inr (NFile d m)" "str_from_utf8 d = Some s"
    "entries_of T path s = Inr es" "es h = Some fp"
    by (auto simp: pinned_node)
  have "d \<noteq> []" using p(3-5) by (auto dest!: str_from_utf8_Nil)
  then obtain x k where x: "follow 40 n path = Inr x" "NFile d m = with_mode k x"
    using grows_follow(2)[OF g p(2)] by auto
  then obtain k' where "x = NFile d k'" by (cases x) auto
  then show "pinned T path n h fp" using x p by (auto simp: pinned_node)
next
  assume g: "grows n n'" and "pinned T path n h fp"
  then show "pinned T path n' h fp"
    using grows_follow(1)[OF g] by (fastforce simp: pinned_node)
qed

subsection \<open>What each step does to the files\<close>

definition quiet :: "'a action \<Rightarrow> bool" where
  "quiet m \<longleftrightarrow> (\<forall>w w' r. m w = (w', r) \<longrightarrow> grows (files w) (files w') \<and> w_fault w' = w_fault w)"

lemma quiet_andthen: "quiet m \<Longrightarrow> (\<And>x. quiet (f x)) \<Longrightarrow> quiet (andthen m f)"
  unfolding quiet_def andthen_def
  by (fastforce split: prod.splits sum.splits intro: grows_trans)

lemma quiet_return [simp]: "quiet (return r)"
  by (simp add: quiet_def return_def)

lemma quiet_call:
  assumes "\<And>w w' r. act w = (w', r) \<Longrightarrow> w' = w \<or> (\<exists>n. w' = set_files n w \<and> grows (files w) n)"
  shows "quiet (lift_io (sys_call act))"
  unfolding quiet_def
proof (intro allI impI)
  fix w w' r
  assume run: "lift_io (sys_call act) w = (w', r)"
  let ?w = "w\<lparr>calls := calls w + 1\<rparr>"
  show "grows (files w) (files w') \<and> w_fault w' = w_fault w"
  proof (cases "w_fault w (calls w)")
    case None
    obtain w1 r1 where a: "act ?w = (w1, r1)" by force
    then have "w' = w1" using run None by (auto simp: lift_io_def sys_call_def)
    then show ?thesis using assms[OF a] by auto
  qed (use run in \<open>auto simp: lift_io_def sys_call_def\<close>)
qed

lemma make_dirs_grows: "make_dirs k p n = Inr n' \<Longrightarrow> grows n n'"
proof (induction k arbitrary: p n n')
  case (Suc k)
  show ?case
  proof (cases "p = [] \<or> n p \<noteq> None")
    case True
    then show ?thesis using Suc.prems by (cases "p = []") (auto split: node.splits)
  next
    case False
    then obtain n1 where n1: "(case parent p of None \<Rightarrow> Inr n | Some d \<Rightarrow> make_dirs k d n) = Inr n1"
      "n' = n1(p \<mapsto> NDir 493) \<and> n1 p = None \<or> n' = n1"
      using Suc.prems by (auto split: sum.splits option.splits node.splits)
    have "grows n n1" using n1(1) Suc.IH by (auto split: option.splits)
    then show ?thesis using n1(2) grows_add(1) grows_trans by blast
  qed
qed simp

lemma quiet_create_dir_all: "quiet (lift_io (create_dir_all p))"
  unfolding create_dir_all_def
  by (rule quiet_call) (auto simp del: make_dirs.simps split: sum.splits dest: make_dirs_grows)

lemma quiet_set_permissions: "quiet (lift_io (set_permissions p m))"
  unfolding set_permissions_def
  by (rule quiet_call) (auto split: option.splits dest: grows_mode)

lemma quiet_open_lock_file: "quiet (lift_io (open_lock_file p))"
  unfolding open_lock_file_def
  by (rule quiet_call) (auto split: option.splits node.splits if_splits dest: grows_add)

lemma quiet_ensure_parent: "quiet (ensure_parent p)"
  by (auto simp: ensure_parent_def ensure_private_dir_def split: option.split
      intro!: quiet_andthen quiet_create_dir_all quiet_set_permissions)

lemma quiet_kh_prepare: "quiet (kh_prepare p)"
  unfolding kh_prepare_def by (intro quiet_andthen quiet_ensure_parent quiet_open_lock_file)

lemma read_entries_effect:
  assumes "read_entries T path w = (w', r)"
  shows "files w' = files w \<and> w_fault w' = w_fault w"
proof -
  have "files w1 = files w \<and> w_fault w1 = w_fault w" if "read_to_string path w = (w1, x)" for w1 x
    using that
    by (auto simp: read_to_string_def open_follow_def sys_call_def Let_def split: option.splits sum.splits prod.splits)
  then show ?thesis
    using assms by (auto simp: read_entries_def split: prod.splits sum.splits)
qed

lemma read_to_string_follow:
  assumes "honest w" "read_to_string path w = (w', r)"
  shows "(\<forall>e. r = Inl e \<and> io_error_kind e = NotFound \<longrightarrow>
            path = [] \<or> (\<exists>e'. follow 40 (files w) path = Inl e' \<and> io_error_kind e' = NotFound))
       \<and> (\<forall>s. r = Inr s \<longrightarrow> path \<noteq> [] \<and> (\<exists>d m. follow 40 (files w) path = Inr (NFile d m) \<and> str_from_utf8 d = Some s))"
proof -
  have h: "w_fault w k = Some e \<Longrightarrow> io_error_kind e \<noteq> NotFound" for k e
    using assms(1) by (simp add: honest_def)
  show ?thesis
    using assms(2) h
    by (auto simp: read_to_string_def open_follow_def sys_call_def Let_def
        split: option.splits sum.splits prod.splits node.splits if_splits)
qed

lemma read_entries_disk:
  assumes "honest w" "read_entries T path w = (w', Inr es)"
  shows "disk_entries T path (files w) = Some es"
proof -
  obtain w1 r1 where r: "read_to_string path w = (w1, r1)" by force
  show ?thesis
    using read_to_string_follow[OF assms(1) r] assms(2) r
    by (cases r1) (auto simp: read_entries_def disk_entries_def result_ok_def split: if_splits)
qed

text \<open>Replacing the file by one that says more keeps every pin.\<close>

lemma follow_same:
  assumes "\<And>q. n q \<noteq> None \<Longrightarrow> n' q = n q"
  shows "follow k n p = Inr x \<Longrightarrow> follow k n' p = Inr x"
proof (induction k arbitrary: p)
  case (Suc k)
  then obtain y where y: "n p = Some y" by (cases "n p") auto
  then have "n' p = Some y" using assms[of p] by simp
  then show ?case using Suc y by (cases y) auto
qed simp

lemma new_pinned:
  assumes "toml_laws T" "n path = Some (NFile (as_bytes s) m)" "kh_print T es = Inr s" "path \<noteq> []"
  shows "pinned T path n h fp \<longleftrightarrow> es h = Some fp"
proof -
  have "follow 40 n path = Inr (NFile (as_bytes s) m)"
    using assms(2) by (simp add: numeral_eq_Suc)
  moreover have "str_from_utf8 (as_bytes s) = Some s"
    using assms(1,3) by (simp add: toml_laws_def str_from_utf8_Some)
  moreover have "entries_of T path s = Inr es"
    using assms(1,3) by (auto simp: entries_of_def toml_laws_def split: sum.split)
  ultimately show ?thesis using assms(4) by (auto simp: pinned_node)
qed

lemma near_pinned:
  assumes "toml_laws T" "near n path (as_bytes s) n'" "kh_print T es' = Inr s" "path \<noteq> []"
    and "\<And>h fp. pinned T path n h fp \<Longrightarrow> es' h = Some fp"
    and "pinned T path n h fp"
  shows "pinned T path n' h fp"
proof (cases "n' path = n path")
  case True
  then have "n q \<noteq> None \<Longrightarrow> n' q = n q" for q
    using assms(2) by (cases "q = path") (auto simp: near_def)
  then show ?thesis
    using assms(6) follow_same[of n n'] unfolding pinned_node by blast
next
  case False
  then have "n' path = Some (NFile (as_bytes s) 384)" using assms(2) by (auto simp: near_def)
  then show ?thesis
    using new_pinned[OF assms(1) _ assms(3,4)] assms(5,6) by blast
qed

lemma check_existing_keeps:
  assumes "check_existing T \<lparr>kh_path = path, kh_entries = es\<rparr> host fp ins w = (w', kh, r)"
    and "toml_laws T" "path \<noteq> []" "\<And>h f. pinned T path (files w) h f \<longleftrightarrow> es h = Some f"
  shows "w_fault w' = w_fault w"
    and "pinned T path (files w) h f \<Longrightarrow> pinned T path (files w') h f"
    and "r = Inr () \<Longrightarrow> pinned T path (files w') host fp"
    and "\<not> ins \<Longrightarrow> files w' = files w"
proof -
  have "w_fault w' = w_fault w \<and> (pinned T path (files w) h f \<longrightarrow> pinned T path (files w') h f)
     \<and> (r = Inr () \<longrightarrow> pinned T path (files w') host fp) \<and> (\<not> ins \<longrightarrow> files w' = files w)"
  proof (cases "es host \<noteq> None \<or> \<not> ins")
    case True
    then show ?thesis
      using assms(1,4) by (auto simp: check_existing_def split: option.splits if_splits)
  next
    case False
    let ?es = "es(host \<mapsto> fp)"
    let ?kh = "\<lparr>kh_path = path, kh_entries = ?es\<rparr>"
    have save: "kh_save T ?kh w = (w', r)" and ins
      using False assms(1) by (auto simp: check_existing_def Let_def split: prod.splits)
    obtain w1 r1 where p: "ensure_parent path w = (w1, r1)" by force
    then have g: "grows (files w) (files w1)" "w_fault w1 = w_fault w"
      using quiet_ensure_parent unfolding quiet_def by blast+
    have pin1: "pinned T path (files w1) h f \<longleftrightarrow> es h = Some f" for h f
      using grows_pinned[OF g(1)] assms(4) by simp
    show ?thesis
    proof (cases "(\<exists>e. r1 = Inl e) \<or> (\<exists>e. kh_print T ?es = Inl e)")
      case True
      then have "w' = w1 \<and> (\<exists>e. r = Inl e)"
        using save p by (cases r1) (auto simp: kh_save_def andthen_def return_def)
      then show ?thesis using g pin1 assms(4) \<open>ins\<close> by auto
    next
      case False
      then obtain s where s: "kh_print T ?es = Inr s" by (cases "kh_print T ?es") auto
      have wr: "write_private_file_atomic path (as_bytes s) w1 = (w', r)"
        using save p s False by (cases r1) (auto simp: kh_save_def andthen_def)
      have sp: "w_fault w' = w_fault w1"
        "case r of Inl _ \<Rightarrow> near (files w1) path (as_bytes s) (files w')
          | Inr _ \<Rightarrow> files w' = (files w1)(path \<mapsto> NFile (as_bytes s) 384)"
        using spec_write_atomic[of "files w1" path "as_bytes s"] wr unfolding spec_def by blast+
      have nr: "near (files w1) path (as_bytes s) (files w')"
        using sp(2) by (auto simp: near_def split: sum.splits)
      have "pinned T path (files w) h f \<Longrightarrow> pinned T path (files w') h f"
        by (rule near_pinned[OF assms(2) nr s assms(3)])
           (use pin1 assms(4) \<open>\<not> (es host \<noteq> None \<or> \<not> ins)\<close> in auto)
      moreover have "r = Inr () \<Longrightarrow> pinned T path (files w') host fp"
        using new_pinned[OF assms(2) _ s assms(3), of "files w'" 384 host fp] sp(2) by simp
      ultimately show ?thesis using sp(1) g(2) \<open>ins\<close> by auto
    qed
  qed
  then show "w_fault w' = w_fault w"
    "pinned T path (files w) h f \<Longrightarrow> pinned T path (files w') h f"
    "r = Inr () \<Longrightarrow> pinned T path (files w') host fp" "\<not> ins \<Longrightarrow> files w' = files w"
    by blast+
qed

text \<open>The invariant: whoever works on the file holds the lock and knows exactly what is pinned, and
  whoever was accepted is pinned.\<close>

definition kh_inv :: "toml_lib \<Rightarrow> string \<Rightarrow> kh_system \<Rightarrow> bool" where
  "kh_inv T path s \<longleftrightarrow> honest (s_world s)
     \<and> (\<forall>i. c_phase (s_client s i) = Locked \<longrightarrow> s_lock s = Some i)
     \<and> (\<forall>i es. c_phase (s_client s i) = Loaded es \<longrightarrow> s_lock s = Some i
          \<and> (\<forall>h fp. pinned T path (files (s_world s)) h fp \<longleftrightarrow> es h = Some fp))
     \<and> (\<forall>i. c_phase (s_client s i) = Ended (Inr ()) \<and> c_trust (s_client s i) \<noteq> Insecure \<longrightarrow>
          pinned T path (files (s_world s)) (c_host (s_client s i)) (c_fingerprint (s_client s i)))"

lemma set_phase_sel [simp]:
  "s_world (set_phase i ph s) = s_world s" "s_lock (set_phase i ph s) = s_lock s"
  "c_phase (s_client (set_phase i ph s) j) = (if j = i then ph else c_phase (s_client s j))"
  "c_host (s_client (set_phase i ph s) j) = c_host (s_client s j)"
  "c_fingerprint (s_client (set_phase i ph s) j) = c_fingerprint (s_client s j)"
  "c_trust (s_client (set_phase i ph s) j) = c_trust (s_client s j)"
  by (auto simp: set_phase_def)

lemma honest_fault: "w_fault w' = w_fault w \<Longrightarrow> honest w' = honest w"
  by (simp add: honest_def)

text \<open>A step that keeps the pins, and whose client is not left in the middle.\<close>

lemma kh_inv_ended:
  assumes "kh_inv T path s" "w_fault w = w_fault (s_world s)"
    "\<And>h fp. pinned T path (files (s_world s)) h fp \<Longrightarrow> pinned T path (files w) h fp"
    "\<And>j es. j \<noteq> i \<Longrightarrow> c_phase (s_client s j) = Loaded es \<Longrightarrow>
       (\<forall>h fp. pinned T path (files w) h fp \<longleftrightarrow> pinned T path (files (s_world s)) h fp)"
    "\<And>j. j \<noteq> i \<Longrightarrow> l = s_lock s \<or> s_lock s = Some i"
    "ph = Waiting \<or> (\<exists>r. ph = Ended r)"
    "ph = Ended (Inr ()) \<Longrightarrow> c_trust (s_client s i) \<noteq> Insecure \<Longrightarrow>
       pinned T path (files w) (c_host (s_client s i)) (c_fingerprint (s_client s i))"
  shows "kh_inv T path (set_phase i ph (s\<lparr>s_lock := l, s_world := w\<rparr>))"
proof -
  let ?s = "set_phase i ph (s\<lparr>s_lock := l, s_world := w\<rparr>)"
  have lock: "s_lock s = Some j \<Longrightarrow> j \<noteq> i \<Longrightarrow> l = Some j" for j
    using assms(5)[of j] by auto
  have "honest w" using assms(1) honest_fault[OF assms(2)] by (simp add: kh_inv_def)
  moreover have "s_lock ?s = Some j" if "c_phase (s_client ?s j) = Locked" for j
    using that assms(1,6) lock by (auto simp: kh_inv_def split: if_splits)
  moreover have "s_lock ?s = Some j \<and> (\<forall>h fp. pinned T path (files w) h fp \<longleftrightarrow> es h = Some fp)"
    if "c_phase (s_client ?s j) = Loaded es" for j es
  proof -
    have j: "j \<noteq> i" "c_phase (s_client s j) = Loaded es" using that assms(6) by (auto split: if_splits)
    then show ?thesis using assms(1) assms(4)[OF j] lock[of j] by (auto simp: kh_inv_def)
  qed
  moreover have "pinned T path (files w) (c_host (s_client ?s j)) (c_fingerprint (s_client ?s j))"
    if "c_phase (s_client ?s j) = Ended (Inr ())" "c_trust (s_client ?s j) \<noteq> Insecure" for j
    using that assms(1,3,7) by (auto simp: kh_inv_def split: if_splits)
  ultimately show ?thesis by (simp add: kh_inv_def)
qed

lemma kh_step_inv:
  assumes "kh_step T path s s'" "toml_laws T" "path \<noteq> []" "kh_inv T path s"
  shows "kh_inv T path s' \<and> (pinned T path (files (s_world s)) h fp \<longrightarrow> pinned T path (files (s_world s')) h fp)"
  using assms(1)
proof cases
  case (insecure i)
  have "kh_inv T path (set_phase i (Ended (Inr ())) (s\<lparr>s_lock := s_lock s, s_world := s_world s\<rparr>))"
    by (rule kh_inv_ended) (use assms(4) insecure in auto)
  then show ?thesis using insecure by simp
next
  case (known_only i w kh r)
  obtain w1 r1 where rd: "read_entries T path (s_world s) = (w1, r1)" by force
  have f: "files w1 = files (s_world s)" "w_fault w1 = w_fault (s_world s)"
    using read_entries_effect[OF rd] by auto
  have hon: "honest (s_world s)" using assms(4) by (simp add: kh_inv_def)
  have ce: "w_fault w = w_fault (s_world s) \<and> files w = files (s_world s) \<and>
    (r = Inr () \<longrightarrow> pinned T path (files w) (c_host (s_client s i)) (c_fingerprint (s_client s i)))"
  proof (cases r1)
    case (Inl e)
    then show ?thesis using known_only(4) rd f by (auto simp: check_or_insert_def)
  next
    case (Inr es)
    then have run: "check_existing T \<lparr>kh_path = path, kh_entries = es\<rparr> (c_host (s_client s i))
        (c_fingerprint (s_client s i)) False w1 = (w, kh, r)"
      using known_only(4) rd by (simp add: check_or_insert_def)
    have pin: "pinned T path (files w1) h fp \<longleftrightarrow> es h = Some fp" for h fp
      using read_entries_disk[OF hon] rd Inr f by (simp add: pinned_def)
    show ?thesis
      using check_existing_keeps[OF run assms(2,3) pin] f by auto
  qed
  have "kh_inv T path (set_phase i (Ended r) (s\<lparr>s_lock := s_lock s, s_world := w\<rparr>))"
    by (rule kh_inv_ended) (use assms(4) ce in auto)
  then show ?thesis using known_only ce by simp
next
  case (prepare i w r)
  have g: "grows (files (s_world s)) (files w)" "w_fault w = w_fault (s_world s)"
    using prepare(4) quiet_kh_prepare unfolding quiet_def by blast+
  have pin: "pinned T path (files w) h fp \<longleftrightarrow> pinned T path (files (s_world s)) h fp" for h fp
    using grows_pinned[OF g(1)] by simp
  have "kh_inv T path (set_phase i (case r of Inl e \<Rightarrow> Ended (Inl e) | Inr _ \<Rightarrow> Waiting)
      (s\<lparr>s_lock := s_lock s, s_world := w\<rparr>))"
    by (rule kh_inv_ended) (use assms(4) g pin in \<open>auto split: sum.splits\<close>)
  then show ?thesis using prepare pin by simp
next
  case (lock_fails i rest e)
  have "kh_inv T path (set_phase i (Ended (Inl (Io e)))
      (s\<lparr>s_lock := s_lock s, s_world := (s_world s)\<lparr>w_flock := rest\<rparr>\<rparr>))"
    by (rule kh_inv_ended) (use assms(4) in auto)
  then show ?thesis using lock_fails by simp
next
  case (lock i rest)
  then show ?thesis using assms(4) by (auto simp: kh_inv_def honest_def)
next
  case (load_fails i w e)
  have "files w = files (s_world s)" "w_fault w = w_fault (s_world s)" "s_lock s = Some i"
    using load_fails read_entries_effect assms(4) by (auto simp: kh_inv_def)
  then have "kh_inv T path (set_phase i (Ended (Inl e)) (s\<lparr>s_lock := None, s_world := w\<rparr>))"
    by (intro kh_inv_ended) (use assms(4) in auto)
  then show ?thesis using load_fails \<open>files w = files (s_world s)\<close> by simp
next
  case (load i w es)
  have f: "files w = files (s_world s)" "w_fault w = w_fault (s_world s)" "s_lock s = Some i"
    using load read_entries_effect assms(4) by (auto simp: kh_inv_def)
  have "honest (s_world s)" using assms(4) by (simp add: kh_inv_def)
  then have pin: "pinned T path (files (s_world s)) h fp \<longleftrightarrow> es h = Some fp" for h fp
    using read_entries_disk load(3) by (simp add: pinned_def)
  have hon: "honest w" using \<open>honest (s_world s)\<close> honest_fault[OF f(2)] by simp
  have only: "s_lock s = Some j \<Longrightarrow> j = i" for j using f(3) by simp
  have "kh_inv T path (set_phase i (Loaded es) (s\<lparr>s_world := w\<rparr>))"
  proof -
    let ?s = "set_phase i (Loaded es) (s\<lparr>s_world := w\<rparr>)"
    have inv: "\<And>j. c_phase (s_client s j) = Locked \<Longrightarrow> s_lock s = Some j"
      "\<And>j es. c_phase (s_client s j) = Loaded es \<Longrightarrow> s_lock s = Some j"
      "\<And>j. c_phase (s_client s j) = Ended (Inr ()) \<Longrightarrow> c_trust (s_client s j) \<noteq> Insecure \<Longrightarrow>
         pinned T path (files (s_world s)) (c_host (s_client s j)) (c_fingerprint (s_client s j))"
      using assms(4) unfolding kh_inv_def by blast+
    have "c_phase (s_client ?s j) = Locked \<Longrightarrow> s_lock ?s = Some j" for j
      using inv(1)[of j] by (simp split: if_splits)
    moreover have "s_lock ?s = Some j \<and> (\<forall>h fp. pinned T path (files (s_world ?s)) h fp \<longleftrightarrow> es' h = Some fp)"
      if "c_phase (s_client ?s j) = Loaded es'" for j es'
    proof -
      have "j = i" "es' = es" using that inv(2)[of j es'] only[of j] by (simp_all split: if_splits)
      then show ?thesis using pin f(1,3) by simp
    qed
    moreover have "c_phase (s_client ?s j) = Ended (Inr ()) \<Longrightarrow> c_trust (s_client ?s j) \<noteq> Insecure \<Longrightarrow>
        pinned T path (files (s_world ?s)) (c_host (s_client ?s j)) (c_fingerprint (s_client ?s j))" for j
      using inv(3)[of j] f(1) by (simp split: if_splits)
    moreover have "honest (s_world ?s)" using hon by simp
    ultimately show ?thesis
      unfolding kh_inv_def by blast
  qed
  then show ?thesis using load(1) f(1) by simp
next
  case (decide i es w kh r)
  have l: "s_lock s = Some i" and pin: "\<And>h fp. pinned T path (files (s_world s)) h fp \<longleftrightarrow> es h = Some fp"
    using decide(2) assms(4) by (auto simp: kh_inv_def)
  note keep = check_existing_keeps[OF decide(3) assms(2,3) pin]
  have only: "c_phase (s_client s j) = Loaded es' \<Longrightarrow> j = i" for j es'
    using l assms(4) by (auto simp: kh_inv_def)
  have "kh_inv T path (set_phase i (Ended r) (s\<lparr>s_lock := None, s_world := w\<rparr>))"
    by (rule kh_inv_ended) (use assms(4) keep l only in auto)
  then show ?thesis using decide keep(2) by simp
qed

text \<open>One client on its own: its steps are \<open>check_or_insert\<close>.\<close>

lemma reach_end:
  "(kh_step T path)\<^sup>*\<^sup>* s s1 \<Longrightarrow> kh_step T path s1 s2 \<Longrightarrow> s_world s2 = w \<Longrightarrow> c_phase (s_client s2 i) = Ended r \<Longrightarrow>
     \<exists>s'. (kh_step T path)\<^sup>*\<^sup>* s s' \<and> s_world s' = w \<and> c_phase (s_client s' i) = Ended r"
  by (rule exI[of _ s2]) (simp add: rtranclp.rtrancl_into_rtrancl)

lemma tofu_client_steps:
  assumes "c_phase (s_client s i) = Begin" "c_trust (s_client s i) = Tofu" "s_lock s = None"
    and "check_or_insert T \<lparr>kh_path = path, kh_entries = es0\<rparr> (c_host (s_client s i))
           (c_fingerprint (s_client s i)) Tofu (s_world s) = (w', kh, r)"
  shows "\<exists>s'. (kh_step T path)\<^sup>*\<^sup>* s s' \<and> s_world s' = w' \<and> c_phase (s_client s' i) = Ended r"
proof -
  obtain w1 r1 where p: "kh_prepare path (s_world s) = (w1, r1)" by force
  let ?s1 = "set_phase i (case r1 of Inl e \<Rightarrow> Ended (Inl e) | Inr _ \<Rightarrow> Waiting) (s\<lparr>s_world := w1\<rparr>)"
  have 1: "(kh_step T path)\<^sup>*\<^sup>* s ?s1"
    using kh_step.prepare[OF assms(1,2) p] by blast
  have lock: "kh_lock path (s_world s) =
      (case r1 of Inl e \<Rightarrow> (w1, Inl e)
       | Inr _ \<Rightarrow> (case flock_loop (w_flock w1) of (rest, q) \<Rightarrow> (w1\<lparr>w_flock := rest\<rparr>, io_res q)))"
    using p by (auto simp: kh_lock_def kh_prepare_def lock_acquire_def andthen_def split: prod.splits sum.splits)
  show ?thesis
  proof (cases r1)
    case (Inl e)
    then have "w' = w1" "r = Inl e" using assms(4) lock by (auto simp: check_or_insert_def)
    then show ?thesis using 1 Inl by auto
  next
    case (Inr u)
    obtain rest q where q: "flock_loop (w_flock w1) = (rest, q)" by force
    let ?w2 = "w1\<lparr>w_flock := rest\<rparr>"
    have ph1: "c_phase (s_client ?s1 i) = Waiting" "s_lock ?s1 = None" using Inr assms(3) by auto
    show ?thesis
    proof (cases q)
      case (Inl e)
      then have "w' = ?w2" "r = Inl (Io e)"
        using assms(4) lock Inr q by (auto simp: check_or_insert_def io_res_def)
      moreover have "kh_step T path ?s1 (set_phase i (Ended (Inl (Io e))) (?s1\<lparr>s_world := ?w2\<rparr>))"
        using kh_step.lock_fails[OF ph1(1), of rest e] q Inl by simp
      ultimately show ?thesis by (intro reach_end[OF 1]) auto
    next
      case (Inr u')
      let ?s2 = "set_phase i Locked (?s1\<lparr>s_lock := Some i, s_world := ?w2\<rparr>)"
      have 2: "(kh_step T path)\<^sup>*\<^sup>* s ?s2"
        using 1 kh_step.lock[OF ph1, of rest T path] q Inr by (auto intro: rtranclp.rtrancl_into_rtrancl)
      have ph2: "c_phase (s_client ?s2 i) = Locked" by simp
      obtain w3 r3 where rd: "read_entries T path ?w2 = (w3, r3)" by force
      show ?thesis
      proof (cases r3)
        case (Inl e)
        then have "w' = w3" "r = Inl e"
          using assms(4) lock \<open>r1 = Inr u\<close> q Inr rd by (auto simp: check_or_insert_def io_res_def)
        moreover have "kh_step T path ?s2 (set_phase i (Ended (Inl e)) (?s2\<lparr>s_lock := None, s_world := w3\<rparr>))"
          using kh_step.load_fails[OF ph2, of T path w3 e] rd Inl by simp
        ultimately show ?thesis by (intro reach_end[OF 2]) auto
      next
        case (Inr es)
        let ?s3 = "set_phase i (Loaded es) (?s2\<lparr>s_world := w3\<rparr>)"
        have 3: "(kh_step T path)\<^sup>*\<^sup>* s ?s3"
          using 2 kh_step.load[OF ph2, of T path w3 es] rd Inr by (auto intro: rtranclp.rtrancl_into_rtrancl)
        have ce: "check_existing T \<lparr>kh_path = path, kh_entries = es\<rparr> (c_host (s_client s i))
            (c_fingerprint (s_client s i)) True w3 = (w', kh, r)"
          using assms(4) lock \<open>r1 = Inr u\<close> q \<open>q = Inr u'\<close> rd Inr by (auto simp: check_or_insert_def io_res_def)
        have "kh_step T path ?s3 (set_phase i (Ended r) (?s3\<lparr>s_lock := None, s_world := w'\<rparr>))"
          by (rule kh_step.decide) (use ce in auto)
        then show ?thesis by (rule reach_end[OF 3]) auto
      qed
    qed
  qed
qed

section \<open>The host identity\<close>

lemma read_private_effect:
  assumes "read_private_file_if_present p w = (w', Inr x)"
  shows "case x of
           None \<Rightarrow> files w' = files w
         | Some d \<Rightarrow> files w' = (files w)(p \<mapsto> NFile d 384)"
proof -
  obtain w1 r1 where o: "open_nofollow p w = (w1, r1)" by force
  have f1: "files w1 = files w"
    using o by (auto simp: open_nofollow_def sys_call_def Let_def split: option.splits)
  show ?thesis
  proof (cases r1)
    case (Inl e)
    then show ?thesis using assms o f1 by (auto simp: read_private_file_if_present_def split: if_splits)
  next
    case (Inr u)
    obtain w2 r2 where sp: "set_permissions p 384 w1 = (w2, r2)" by force
    obtain w3 r3 where rd: "read_to_end p w2 = (w3, r3)" by force
    have run: "r2 = Inr ()" "r3 = Inr (the x)" "x \<noteq> None" "w' = w3"
      using assms o Inr sp rd
      by (auto simp: read_private_file_if_present_def andthen_def lift_io_def io_res_def return_def
          split: sum.splits)
    obtain n where n: "files w1 p = Some n" "files w2 = (files w1)(p \<mapsto> with_mode 384 n)"
      using sp run(1) by (auto simp: set_permissions_def sys_call_def Let_def split: option.splits)
    have "files w3 = files w2" "\<exists>m. files w2 p = Some (NFile (the x) m)"
      using rd run(2) by (auto simp: read_to_end_def sys_call_def Let_def split: option.splits node.splits)
    then show ?thesis using n f1 run by (cases n) (auto split: option.split)
  qed
qed

lemma path_eq_refl [simp]: "path_eq p p"
  by (simp add: path_eq_def)

lemma write_atomic_success:
  "write_private_file_atomic p d w = (w', Inr ()) \<Longrightarrow> files w' = (files w)(p \<mapsto> NFile d 384)"
  using spec_write_atomic[of "files w" p d] unfolding spec_def by fastforce

lemma create_host_cert_success:
  assumes "create_host_cert generated cp kp w = (w', Inr (c, k))" "cp \<noteq> kp"
  shows "generated = Inr (c, k) \<and> files w' = (files w)(cp \<mapsto> NFile c 384, kp \<mapsto> NFile k 384)"
  using assms
  by (auto simp: create_host_cert_def andthen_def return_def split: sum.splits prod.splits
      dest!: write_atomic_success)

lemma host_cert_locked_success:
  assumes "host_cert_locked tls_accepts generated ex cp kp w = (w', Inr (c, k))"
    and "\<And>c k. generated = Inr (c, k) \<Longrightarrow> tls_accepts c k = Inr ()"
  shows "\<not> path_eq cp kp \<and> files w' cp = Some (NFile c 384) \<and> files w' kp = Some (NFile k 384)
     \<and> tls_accepts c k = Inr ()"
proof -
  have ne: "\<not> path_eq cp kp" using assms(1) by (auto simp: host_cert_locked_def return_def split: if_splits)
  then have ne': "cp \<noteq> kp" by auto
  obtain w1 r1 where c: "read_private_file_if_present cp w = (w1, r1)" by force
  obtain cert where r1: "r1 = Inr cert"
    using assms(1) c ne by (auto simp: host_cert_locked_def andthen_def split: sum.splits)
  obtain w2 r2 where k: "read_private_file_if_present kp w1 = (w2, r2)" by force
  obtain key where r2: "r2 = Inr key"
    using assms(1) c r1 k ne by (auto simp: host_cert_locked_def andthen_def split: sum.splits)
  have "create_host_cert generated cp kp w2 = (w', Inr (c, k))
      \<or> cert = Some c \<and> key = Some k \<and> tls_accepts c k = Inr () \<and> w' = w2"
    using assms(1) c r1 k r2 ne
    by (auto simp: host_cert_locked_def andthen_def return_def make_server_config_def and_then_def
        split: option.splits sum.splits if_splits)
  then show ?thesis
  proof
    assume "create_host_cert generated cp kp w2 = (w', Inr (c, k))"
    then show ?thesis
      using create_host_cert_success ne ne' assms(2) by fastforce
  next
    assume "cert = Some c \<and> key = Some k \<and> tls_accepts c k = Inr () \<and> w' = w2"
    then show ?thesis
      using read_private_effect[of cp w w1 cert] read_private_effect[of kp w1 w2 key] c r1 k r2 ne ne' by simp
  qed
qed

text \<open>The state directory is there and its lock can be taken.\<close>

definition identity_dir_ready :: "string \<Rightarrow> world \<Rightarrow> bool" where
  "identity_dir_ready data_dir w \<longleftrightarrow> no_faults w \<and> w_flock w = [] \<and> server_dir data_dir \<noteq> []
     \<and> (\<exists>m. files w (server_dir data_dir) = Some (NDir m))
     \<and> (\<exists>d m. files w (join (server_dir data_dir) ''.host-identity.lock'') = Some (NFile d m))"

lemma ready_prefix:
  assumes "identity_dir_ready data_dir w"
  shows "\<exists>w'. andthen (ensure_private_dir (server_dir data_dir))
           (\<lambda>_. lock_acquire (join (server_dir data_dir) ''.host-identity.lock'')) w = (w', Inr ())
       \<and> no_faults w' \<and> w_random w' = w_random w \<and> draws w' = draws w
       \<and> files w' = (files w)(server_dir data_dir \<mapsto> NDir 448)"
proof -
  let ?d = "server_dir data_dir" and ?l = "join (server_dir data_dir) ''.host-identity.lock''"
  obtain m where d: "files w ?d = Some (NDir m)" using assms by (auto simp: identity_dir_ready_def)
  obtain b k where l: "files w ?l = Some (NFile b k)" using assms by (auto simp: identity_dir_ready_def)
  have ne: "?l \<noteq> ?d" using d l by auto
  have nf: "no_faults w" "w_flock w = []" "?d \<noteq> []" using assms by (auto simp: identity_dir_ready_def)
  have md: "make_dirs (Suc (length ?d)) ?d (files w) = Inr (files w)" using d by simp
  show ?thesis
    using nf d l ne
    by (simp add: andthen_def ensure_private_dir_def lift_io_def create_dir_all_def sys_call_ok md
        set_permissions_def lock_acquire_def open_lock_file_def io_res_def del: make_dirs.simps)
qed

lemma load_or_create_assoc:
  "load_or_create_host_cert tls_accepts generated data_dir cert_path key_path w =
     andthen (andthen (ensure_private_dir (server_dir data_dir))
        (\<lambda>_. lock_acquire (join (server_dir data_dir) ''.host-identity.lock'')))
       (\<lambda>_. case host_cert_paths data_dir cert_path key_path of
         (cp, kp) \<Rightarrow> host_cert_locked tls_accepts generated (cert_path \<noteq> None \<or> key_path \<noteq> None) cp kp) w"
  by (auto simp: load_or_create_host_cert_def andthen_def split: prod.split sum.split)

lemma host_cert_locked_existing:
  assumes "no_faults w" "\<not> path_eq cp kp" "files w cp = Some (NFile c m)" "files w kp = Some (NFile k m')"
    "tls_accepts c k = Inr ()"
  shows "\<exists>w'. host_cert_locked tls_accepts generated ex cp kp w = (w', Inr (c, k))
     \<and> files w' = (files w)(cp \<mapsto> NFile c 384, kp \<mapsto> NFile k 384)"
proof -
  have ne: "cp \<noteq> kp" using assms(2) by auto
  obtain w1 where c: "read_private_file_if_present cp w = (w1, Inr (Some c))"
    "files w1 = (files w)(cp \<mapsto> NFile c 384)" "no_faults w1"
    using read_private_ok(2)[OF assms(1,3)] by blast
  have "files w1 kp = Some (NFile k m')" using c(2) ne assms(4) by simp
  then obtain w2 where "read_private_file_if_present kp w1 = (w2, Inr (Some k))"
    "files w2 = (files w1)(kp \<mapsto> NFile k 384)"
    using read_private_ok(2)[OF c(3)] by blast
  then show ?thesis
    using c assms(2,5) by (simp add: host_cert_locked_def andthen_def return_def make_server_config_def and_then_def)
qed

text \<open>Both files can be replaced, whatever temporary names are drawn.\<close>

definition room :: "world \<Rightarrow> string \<Rightarrow> string \<Rightarrow> bool" where
  "room w cp kp \<longleftrightarrow>
     (\<forall>k. \<exists>nonce. w_random w k = Some nonce \<and> (\<forall>p \<in> {cp, kp}. files w (tmp_path p nonce) = None
        \<and> parent_ok (files w) (tmp_path p nonce) \<and> tmp_path p nonce \<notin> {cp, kp}))
     \<and> (\<forall>p \<in> {cp, kp}. parent_ok (files w) p
        \<and> (\<exists>d m. parent p = Some d \<and> d \<noteq> [] \<and> d \<notin> {cp, kp} \<and> files w d = Some (NDir m)))"

lemma parent_ok_file:
  "parent_ok n q \<Longrightarrow> (\<And>m. n p \<noteq> Some (NDir m)) \<Longrightarrow> parent_ok (n(p \<mapsto> x)) q"
  by (auto simp: parent_ok_def split: option.splits node.splits)

lemma room_upd:
  assumes "room w cp kp" "files w' = (files w)(p \<mapsto> x)" "p \<in> {cp, kp}" "w_random w' = w_random w"
    "\<And>m. files w p \<noteq> Some (NDir m)"
  shows "room w' cp kp"
  unfolding room_def
proof (intro conjI allI ballI)
  fix k
  obtain nonce where "w_random w k = Some nonce" "\<forall>q \<in> {cp, kp}. files w (tmp_path q nonce) = None
      \<and> parent_ok (files w) (tmp_path q nonce) \<and> tmp_path q nonce \<notin> {cp, kp}"
    using assms(1) unfolding room_def by blast
  then show "\<exists>nonce. w_random w' k = Some nonce \<and> (\<forall>q \<in> {cp, kp}. files w' (tmp_path q nonce) = None
      \<and> parent_ok (files w') (tmp_path q nonce) \<and> tmp_path q nonce \<notin> {cp, kp})"
    using assms(2-5) parent_ok_file[of "files w" _ p x] by (intro exI[of _ nonce]) auto
next
  fix q assume "q \<in> {cp, kp}"
  then show "parent_ok (files w') q" "\<exists>d m. parent q = Some d \<and> d \<noteq> [] \<and> d \<notin> {cp, kp} \<and> files w' d = Some (NDir m)"
    using assms parent_ok_file[of "files w" q p x] unfolding room_def by auto
qed

lemma room_replace:
  assumes "room w cp kp" "p \<in> {cp, kp}" "\<And>m. files w p \<noteq> Some (NDir m)"
  shows "can_replace w p"
proof -
  obtain nonce where "w_random w (draws w) = Some nonce" "files w (tmp_path p nonce) = None"
    "parent_ok (files w) (tmp_path p nonce)"
    using assms(1,2) unfolding room_def by blast
  moreover obtain d m where "parent_ok (files w) p" "parent p = Some d" "d \<noteq> []" "files w d = Some (NDir m)"
    using assms(1,2) unfolding room_def by blast
  ultimately show ?thesis using assms(3) unfolding can_replace_def by blast
qed

lemma create_host_cert_ok:
  assumes "no_faults w" "room w cp kp" "cp \<noteq> kp" "\<And>m. files w cp \<noteq> Some (NDir m)" "\<And>m. files w kp \<noteq> Some (NDir m)"
  shows "\<exists>w'. create_host_cert (Inr (c, k)) cp kp w = (w', Inr (c, k))
     \<and> files w' = (files w)(cp \<mapsto> NFile c 384, kp \<mapsto> NFile k 384)"
proof -
  obtain w1 where w1: "write_private_file_atomic cp c w = (w1, Inr ())" "files w1 = (files w)(cp \<mapsto> NFile c 384)"
    "no_faults w1" "w_random w1 = w_random w"
    using write_atomic_ok[OF assms(1) room_replace[OF assms(2) _ assms(4)]] by blast
  have "room w1 cp kp" using room_upd[OF assms(2) w1(2) _ w1(4) assms(4)] by simp
  then have "can_replace w1 kp" by (rule room_replace) (use w1(2) assms(3,5) in auto)
  then obtain w2 where "write_private_file_atomic kp k w1 = (w2, Inr ())" "files w2 = (files w1)(kp \<mapsto> NFile k 384)"
    using write_atomic_ok[OF w1(3)] by blast
  then show ?thesis using w1 by (auto simp: create_host_cert_def andthen_def return_def)
qed

lemma read_private_any:
  assumes "no_faults w" "files w p = map_option (\<lambda>d. NFile d 384) x"
  shows "\<exists>w'. read_private_file_if_present p w = (w', Inr x)
     \<and> files w' = files w \<and> no_faults w' \<and> draws w' = draws w \<and> w_random w' = w_random w"
proof (cases x)
  case None
  then show ?thesis using read_private_ok(1)[OF assms(1), of p] assms(2) by auto
next
  case (Some d)
  moreover have "(files w)(p \<mapsto> NFile d 384) = files w" using assms(2) Some by (simp add: fun_upd_idem)
  ultimately show ?thesis using read_private_ok(2)[OF assms(1), of p d 384] assms(2) by auto
qed

lemma room_cong: "files w' = files w \<Longrightarrow> w_random w' = w_random w \<Longrightarrow> room w' cp kp = room w cp kp"
  by (simp add: room_def)

section \<open>The reset key\<close>

abbreviation holds :: "string \<Rightarrow> byte list \<Rightarrow> nodes \<Rightarrow> bool" where
  "holds p d n \<equiv> \<exists>m. n p = Some (NFile d m)"

abbreviation anything :: "nodes \<Rightarrow> bool" where
  "anything \<equiv> \<lambda>_. True"

lemma spec_read_to_end:
  assumes "\<And>n. P n \<Longrightarrow> E n" "\<And>n d. P n \<Longrightarrow> holds p d n \<Longrightarrow> Q d n"
  shows "spec P (lift_io (read_to_end p)) G E Q"
  unfolding read_to_end_def
  by (rule spec_call) (use assms in \<open>auto split: option.splits node.splits\<close>)

lemma spec_remove_file:
  assumes "\<And>n. P n \<Longrightarrow> E n" "\<And>n. P n \<Longrightarrow> n p \<noteq> None \<Longrightarrow> G (n(p := None)) \<and> Q () (n(p := None))"
  shows "spec P (lift_io (remove_file p)) G E Q"
  unfolding remove_file_def
  by (rule spec_call) (use assms in \<open>auto simp: set_files_def split: option.splits node.splits\<close>)

lemma spec_open_nofollow:
  assumes "open_nofollow p w = (w', r)"
  shows "files w' = files w \<and> past w' = past w \<and> w_fault w' = w_fault w \<and> w_random w' = w_random w"
  using assms by (auto simp: open_nofollow_def sys_call_def Let_def split: option.splits)

text \<open>Reading the key returns what the file holds and leaves it as it is.\<close>

lemma spec_read_reset_key:
  "spec (\<lambda>n. \<forall>d. K d \<longrightarrow> holds p d n) (read_stateless_reset_key p) anything (\<lambda>n. \<forall>d. K d \<longrightarrow> holds p d n)
     (\<lambda>x n. (\<forall>d. K d \<longrightarrow> holds p d n) \<and> (\<forall>r. x = Some r \<longrightarrow> holds p r n \<and> length r = STATELESS_RESET_KEY_LEN))"
proof (rule specI)
  fix w w' r
  assume k: "\<forall>d. K d \<longrightarrow> holds p d (files w)" and run: "read_stateless_reset_key p w = (w', r)"
  let ?K = "\<lambda>n. \<forall>d. K d \<longrightarrow> holds p d n"
  let ?rest = "andthen (lift_io (set_permissions p 384)) (\<lambda>_.
     andthen (lift_io (read_to_end p)) (\<lambda>d. return
       (if length d < STATELESS_RESET_KEY_LEN
        then Inl (Ctx (''read '' @ p) (Io (io_err UnexpectedEof)))
        else if STATELESS_RESET_KEY_LEN < length d
        then Inl (Bail (''invalid stateless reset key length in '' @ p @ '': expected ''
                @ show_nat STATELESS_RESET_KEY_LEN @ '' bytes''))
        else Inr (Some d))))"
  obtain w1 r1 where o: "open_nofollow p w = (w1, r1)" by force
  note o' = spec_open_nofollow[OF o]
  have rest: "spec ?K ?rest anything ?K
     (\<lambda>x n. ?K n \<and> (\<forall>r. x = Some r \<longrightarrow> holds p r n \<and> length r = STATELESS_RESET_KEY_LEN))"
    by (rule spec_andthen[OF spec_set_permissions[where Q = "\<lambda>_. ?K"]];
        (rule spec_andthen[OF spec_read_to_end[where Q = "\<lambda>d n. ?K n \<and> holds p d n"]])?;
        (rule spec_return)?; fastforce)
  show "(\<exists>ext. past w' = past w @ ext \<and> list_all anything ext) \<and> w_fault w' = w_fault w \<and> w_random w' = w_random w
     \<and> (case r of Inl _ \<Rightarrow> ?K (files w') | Inr x \<Rightarrow> ?K (files w') \<and>
          (\<forall>r. x = Some r \<longrightarrow> holds p r (files w') \<and> length r = STATELESS_RESET_KEY_LEN))"
  proof (cases r1)
    case (Inl e)
    then show ?thesis using run o o' k by (auto simp: read_stateless_reset_key_def split: if_splits)
  next
    case (Inr u)
    then have r: "?rest w1 = (w', r)" using run o by (simp only: read_stateless_reset_key_def prod.case sum.case)
    have "?K (files w1)" using o' k by simp
    from specD[OF rest this r] show ?thesis by (simp only: o'[THEN conjunct2, THEN conjunct1] o'[THEN conjunct2, THEN conjunct2])
  qed
qed

lemma hard_link_effect:
  assumes "hard_link a b w = (w', r)"
  shows "(\<exists>e. r = Inl e \<and> files w' = files w \<and> past w' = past w
      \<or> r = Inr () \<and> files w b = None \<and> files w' = (files w)(b := files w a) \<and> files w a \<noteq> None \<and> past w' = past w @ [files w'])
    \<and> w_fault w' = w_fault w \<and> w_random w' = w_random w"
  using assms by (auto simp: hard_link_def sys_call_def set_files_def Let_def split: option.splits if_splits)

lemma spec_install_reset_key:
  assumes "tmp \<noteq> p"
  shows "spec (\<lambda>n. holds tmp [] n \<and> (\<forall>d. K d \<longrightarrow> holds p d n)) (install_reset_key dir p tmp key) anything
     (\<lambda>n. \<forall>d. K d \<longrightarrow> holds p d n) (\<lambda>x n. (\<forall>d. K d \<longrightarrow> holds p d n) \<and> (\<forall>r. x = Some r \<longrightarrow> holds p r n))"
proof -
  let ?K = "\<lambda>n. \<forall>d. K d \<longrightarrow> holds p d n"
  let ?Q = "\<lambda>x n. ?K n \<and> (\<forall>r. x = Some r \<longrightarrow> holds p r n)"
  let ?full = "\<lambda>(_::unit) n. holds tmp key n \<and> ?K n"
  have wr: "spec (\<lambda>n. holds tmp [] n \<and> ?K n) (lift_io (write_all tmp key)) anything ?K ?full"
    by (rule spec_write_all) (use assms in auto)
  have sync: "spec (?full u) (lift_io sync_all) anything ?K ?full" for u
    by (rule spec_sync_all) simp
  have linked: "spec (\<lambda>n. ?K n \<and> holds p key n) (andthen (lift_io (remove_file tmp)) (\<lambda>_.
      andthen (lift_io (open_follow dir)) (\<lambda>_. andthen (lift_io sync_all) (\<lambda>_. return (Inr (Some key)))))) anything ?K ?Q"
    by (rule spec_andthen[OF spec_remove_file[where Q = "\<lambda>_ n. ?K n \<and> holds p key n"]];
        (rule spec_andthen[OF spec_open_follow[where Q = "\<lambda>_ n. ?K n \<and> holds p key n"]])?;
        (rule spec_andthen[OF spec_sync_all[where Q = "\<lambda>_ n. ?K n \<and> holds p key n"]])?;
        (rule spec_return)?; use assms in fastforce)
  have lost: "spec ?K (andthen (lift_io (remove_file tmp)) (\<lambda>_. read_stateless_reset_key p)) anything ?K ?Q"
  proof (rule spec_andthen[where Q = "\<lambda>_. ?K"])
    show "spec ?K (lift_io (remove_file tmp)) anything ?K (\<lambda>_. ?K)"
      by (rule spec_remove_file) (use assms in auto)
    show "spec ?K (read_stateless_reset_key p) anything ?K ?Q" for x :: unit
      by (rule spec_weaken[OF spec_read_reset_key[of K p]]) auto
  qed
  show ?thesis
    unfolding install_reset_key_def
  proof (rule spec_andthen[OF wr], rule spec_andthen[OF sync], rule specI)
    fix w w' r
    assume P: "holds tmp key (files w) \<and> ?K (files w)"
      and run: "(case hard_link tmp p w of
         (w, Inl e) \<Rightarrow>
           if io_error_kind e = AlreadyExists
           then andthen (lift_io (remove_file tmp)) (\<lambda>_. read_stateless_reset_key p) w
           else (w, Inl (Io e))
       | (w, Inr _) \<Rightarrow>
           andthen (lift_io (remove_file tmp)) (\<lambda>_.
           andthen (lift_io (open_follow dir)) (\<lambda>_.
           andthen (lift_io sync_all) (\<lambda>_. return (Inr (Some key))))) w) = (w', r)"
    obtain w1 r1 where l: "hard_link tmp p w = (w1, r1)" by force
    note eff = hard_link_effect[OF l]
    show "(\<exists>ext. past w' = past w @ ext \<and> list_all anything ext) \<and> w_fault w' = w_fault w
       \<and> w_random w' = w_random w \<and> (case r of Inl _ \<Rightarrow> ?K (files w') | Inr x \<Rightarrow> ?Q x (files w'))"
    proof (cases r1)
      case (Inl e)
      then have f: "files w1 = files w" "past w1 = past w" using eff by auto
      show ?thesis
      proof (cases "io_error_kind e = AlreadyExists")
        case True
        then have "andthen (lift_io (remove_file tmp)) (\<lambda>_. read_stateless_reset_key p) w1 = (w', r)"
          using run l Inl by simp
        from specD[OF lost _ this] show ?thesis using P f eff by simp
      next
        case False
        then show ?thesis using run l Inl P f eff by auto
      qed
    next
      case (Inr u)
      then have f: "files w p = None" "files w1 = (files w)(p := files w tmp)" "past w1 = past w @ [files w1]"
        using eff by auto
      then have K1: "?K (files w1) \<and> holds p key (files w1)" using P by auto
      have "andthen (lift_io (remove_file tmp)) (\<lambda>_.
           andthen (lift_io (open_follow dir)) (\<lambda>_.
           andthen (lift_io sync_all) (\<lambda>_. return (Inr (Some key))))) w1 = (w', r)"
        using run l Inr by simp
      from specD[OF linked K1 this] show ?thesis using f(3) eff by auto
    qed
  qed
qed

lemma reset_tmp_other: "reset_tmp_path dir nonce \<noteq> join dir ''stateless_reset.key''"
proof
  define n where "n = ''.stateless_reset.'' @ hex_encode nonce @ ''.tmp''"
  assume eq: "reset_tmp_path dir nonce = join dir ''stateless_reset.key''"
  have "CHR ''/'' \<notin> set n" "\<not> blank_piece n" "n \<noteq> ''..''"
    using hex_encode_chars by (auto simp: n_def blank_piece_def)
  then have "file_name (join dir n) = Some n" by (rule file_name_join_plain)
  moreover have "file_name (join dir ''stateless_reset.key'') = Some ''stateless_reset.key''"
    by (rule file_name_join_plain) (simp_all add: blank_piece_def)
  ultimately have "n = ''stateless_reset.key''" using eq by (simp add: reset_tmp_path_def n_def)
  then show False by (simp add: n_def)
qed

lemma reset_key_attempts_disk:
  assumes "reset_key_attempts k dir (join dir ''stateless_reset.key'') key w = (w', r)"
    and "\<forall>d. K d \<longrightarrow> holds (join dir ''stateless_reset.key'') d (files w)"
  shows "(\<forall>d. K d \<longrightarrow> holds (join dir ''stateless_reset.key'') d (files w'))
     \<and> (\<forall>x. r = Inr x \<longrightarrow> holds (join dir ''stateless_reset.key'') x (files w'))"
  using assms
proof (induction k arbitrary: w)
  case (Suc k)
  define p where "p = join dir ''stateless_reset.key''"
  let ?K = "\<lambda>n. \<forall>d. K d \<longrightarrow> holds p d n"
  show ?case
  proof (cases "w_random w (draws w)")
    case None
    then show ?thesis using Suc.prems by (auto simp: random_fill_def)
  next
    case (Some nonce)
    define tmp where "tmp = reset_tmp_path dir nonce"
    have ne: "tmp \<noteq> p" using reset_tmp_other by (simp add: tmp_def p_def)
    obtain w1 r1 where c: "create_new tmp (w\<lparr>draws := draws w + 1\<rparr>) = (w1, r1)" by force
    show ?thesis
      using c
    proof (cases rule: create_new_cases)
      case (failed e)
      then show ?thesis
        using Suc.prems Suc.IH[of w1] c Some
        by (auto simp: random_fill_def tmp_def split: if_splits)
    next
      case created
      have K1: "holds tmp [] (files w1) \<and> ?K (files w1)"
        using created Suc.prems(2) ne by (auto simp: p_def)
      obtain w2 r2 where i: "install_reset_key dir p tmp key w1 = (w2, r2)" by force
      have K2: "case r2 of Inl _ \<Rightarrow> ?K (files w2) | Inr x \<Rightarrow> ?K (files w2) \<and> (\<forall>r. x = Some r \<longrightarrow> holds p r (files w2))"
        using specD[OF spec_install_reset_key[OF ne, of K dir key] K1 i] by blast
      show ?thesis
      proof (cases r2)
        case (Inl e)
        obtain w3 r3 where d: "remove_file tmp w2 = (w3, r3)" by force
        have "w' = w3" "r = Inl e"
          using Suc.prems(1) c created i Inl d Some by (auto simp: random_fill_def tmp_def p_def)
        then show ?thesis using remove_file_effect[OF d] K2 Inl ne by (auto simp: p_def)
      next
        case (Inr x)
        show ?thesis
        proof (cases x)
          case None
          then have "reset_key_attempts k dir p key w2 = (w', r)"
            using Suc.prems(1) c created i Inr Some by (auto simp: random_fill_def tmp_def p_def)
          then show ?thesis using Suc.IH[of w2] K2 Inr by (simp add: p_def)
        next
          case (Some y)
          then have "w' = w2 \<and> r = Inr y"
            using Suc.prems(1) c created i Inr \<open>w_random w (draws w) = Some nonce\<close>
            by (auto simp: random_fill_def tmp_def p_def)
          then show ?thesis using K2 Inr Some by (simp add: p_def)
        qed
      qed
    qed
  qed
qed auto

lemma quiet_holds: "quiet m \<Longrightarrow> m w = (w', r) \<Longrightarrow> holds p d (files w) \<Longrightarrow> holds p d (files w')"
proof -
  assume "quiet m" "m w = (w', r)" "holds p d (files w)"
  then have "grows (files w) (files w')" unfolding quiet_def by blast
  then show ?thesis
    using \<open>holds p d (files w)\<close> unfolding grows_def by (auto dest!: spec[of _ p])
qed

section \<open>Properties\<close>

text \<open>C3. A pinned host certificate is never replaced or forgotten.  However any number of clients that
  share a known_hosts file interleave, and whatever file operations fail on the way: what was pinned
  stays pinned, whoever was accepted without \<open>-k\<close> presented the pinned certificate, and two clients
  accepted for the same host saw the same one.\<close>

theorem pins_hold:
  assumes "toml_laws T" "path \<noteq> []" "honest (s_world s)" "\<forall>i. c_phase (s_client s i) = Begin"
    and "(kh_step T path)\<^sup>*\<^sup>* s s'"
  shows "(\<forall>h fp. pinned T path (files (s_world s)) h fp \<longrightarrow> pinned T path (files (s_world s')) h fp)
     \<and> (\<forall>i. c_phase (s_client s' i) = Ended (Inr ()) \<and> c_trust (s_client s' i) \<noteq> Insecure \<longrightarrow>
          pinned T path (files (s_world s')) (c_host (s_client s' i)) (c_fingerprint (s_client s' i)))
     \<and> (\<forall>i j. c_phase (s_client s' i) = Ended (Inr ()) \<and> c_phase (s_client s' j) = Ended (Inr ())
          \<and> c_trust (s_client s' i) \<noteq> Insecure \<and> c_trust (s_client s' j) \<noteq> Insecure
          \<and> c_host (s_client s' i) = c_host (s_client s' j) \<longrightarrow>
          c_fingerprint (s_client s' i) = c_fingerprint (s_client s' j))"
proof -
  have "kh_inv T path s" using assms(3,4) by (simp add: kh_inv_def)
  with assms(5) have "kh_inv T path s' \<and>
    (\<forall>h fp. pinned T path (files (s_world s)) h fp \<longrightarrow> pinned T path (files (s_world s')) h fp)"
  proof induction
    case (step s1 s2)
    then show ?case using kh_step_inv[OF step(2) assms(1,2)] by blast
  qed simp
  then show ?thesis
    unfolding kh_inv_def by (intro conjI allI impI) (blast, blast, metis option.inject pinned_def)
qed

definition example_reader :: toml_lib where
  "example_reader =
     \<lparr>kh_parse = (\<lambda>s. Inr (if s = ''x'' then [''h'' \<mapsto> ''f''] else Map.empty)),
      kh_print = (\<lambda>m. Inl ''not supported'')\<rparr>"

definition example_toml :: toml_lib where
  "example_toml = example_reader\<lparr>kh_print :=
     (\<lambda>m. if m = [''h'' \<mapsto> ''f''] then Inr ''x'' else Inl ''not supported'')\<rparr>"

lemma known_only_parse:
  "check_or_insert (T\<lparr>kh_print := f\<rparr>) kh host fp KnownOnly w = check_or_insert T kh host fp KnownOnly w"
  by (simp add: check_or_insert_def check_existing_def read_entries_def entries_of_def split: prod.split sum.split option.split)

definition example_system :: kh_system where
  "example_system =
     \<lparr>s_world = example_world\<lparr>files := [''/d'' \<mapsto> NDir 448, ''/d/k'' \<mapsto> NFile (as_bytes ''x'') 384]\<rparr>,
      s_lock = None,
      s_client = (\<lambda>_. \<lparr>c_host = ''h'', c_fingerprint = ''f'', c_trust = KnownOnly, c_phase = Begin\<rparr>)\<rparr>"

theorem pins_hold_witness:
  "\<exists>s'. (kh_step example_toml ''/d/k'')\<^sup>*\<^sup>* example_system s' \<and> c_phase (s_client s' 0) = Ended (Inr ())
     \<and> pinned example_toml ''/d/k'' (files (s_world s')) ''h'' ''f''"
proof -
  let ?run = "check_or_insert example_toml \<lparr>kh_path = ''/d/k'', kh_entries = Map.empty\<rparr> ''h'' ''f'' KnownOnly
     (s_world example_system)"
  obtain w kh r where run: "?run = (w, kh, r)" by (metis prod_cases3)
  have "snd (snd (check_or_insert example_reader \<lparr>kh_path = ''/d/k'', kh_entries = Map.empty\<rparr> ''h'' ''f'' KnownOnly
     (s_world example_system))) = Inr ()"
    by code_simp
  then have "snd (snd ?run) = Inr ()" by (simp only: example_toml_def known_only_parse)
  then have r: "r = Inr ()" using run by simp
  let ?s' = "set_phase 0 (Ended r) (example_system\<lparr>s_world := w\<rparr>)"
  have step: "(kh_step example_toml ''/d/k'')\<^sup>*\<^sup>* example_system ?s'"
    by (rule r_into_rtranclp, rule kh_step.known_only[where kh = kh])
       (use run in \<open>simp_all add: example_system_def\<close>)
  have laws: "toml_laws example_toml"
  proof -
    have "trim ''x'' = ''x''" "utf8_valid (as_bytes ''x'')" by code_simp+
    then show ?thesis by (auto simp: toml_laws_def example_toml_def example_reader_def split: if_splits)
  qed
  have "c_phase (s_client ?s' 0) = Ended (Inr ())" "c_trust (s_client ?s' 0) \<noteq> Insecure"
    using r by (simp_all add: example_system_def)
  moreover have "honest (s_world example_system)" "\<forall>i. c_phase (s_client example_system i) = Begin"
    by (simp_all add: example_system_def honest_def example_world_def)
  ultimately have "pinned example_toml ''/d/k'' (files (s_world ?s')) (c_host (s_client ?s' 0)) (c_fingerprint (s_client ?s' 0))"
    using pins_hold[OF laws _ _ _ step] by blast
  then show ?thesis
    using step r by (intro exI[of _ ?s']) (simp add: example_system_def)
qed

lemma host_cert_locked_clean:
  assumes "no_faults w" "room w cp kp" "\<not> path_eq cp kp"
    "files w cp = map_option (\<lambda>d. NFile d 384) x" "files w kp = map_option (\<lambda>d. NFile d 384) y"
  shows "\<exists>w'. host_cert_locked acc (Inr (c, k)) ex cp kp w =
     (w', if (\<exists>a b. x = Some a \<and> y = Some b \<and> acc a b = Inr ()) then Inr (the x, the y)
          else if x \<noteq> None \<and> y \<noteq> None \<and> ex
          then Inl (Ctx ''host certificate and key do not form a valid pair'' (projl (acc (the x) (the y))))
          else Inr (c, k))
     \<and> ((\<exists>a b. x = Some a \<and> y = Some b \<and> acc a b = Inr ()) \<or> x \<noteq> None \<and> y \<noteq> None \<and> ex
        \<or> files w' = (files w)(cp \<mapsto> NFile c 384, kp \<mapsto> NFile k 384))"
proof -
  have ne: "cp \<noteq> kp" using assms(3) by auto
  obtain w1 where 1: "read_private_file_if_present cp w = (w1, Inr x)" "files w1 = files w" "no_faults w1"
    "w_random w1 = w_random w"
    using read_private_any[OF assms(1,4)] by blast
  obtain w2 where 2: "read_private_file_if_present kp w1 = (w2, Inr y)" "files w2 = files w" "no_faults w2"
    "w_random w2 = w_random w"
    using read_private_any[OF 1(3), of kp y] 1 assms(5) by auto
  have "room w2 cp kp" using room_cong[OF 2(2,4)] assms(2) by simp
  then obtain w3 where 3: "create_host_cert (Inr (c, k)) cp kp w2 = (w3, Inr (c, k))"
    "files w3 = (files w)(cp \<mapsto> NFile c 384, kp \<mapsto> NFile k 384)"
    using create_host_cert_ok[OF 2(3) _ ne, of c k] 2(2) assms(4,5) by (cases x; cases y) auto
  show ?thesis
    using 1 2 3 assms(3)
    by (cases x; cases y)
       (auto simp: host_cert_locked_def andthen_def return_def make_server_config_def and_then_def split: sum.splits)
qed

text \<open>C31. The host's identity is stable: whatever happened on the way, once a server has started with
  a certificate and key, the next start with the same options, in a state directory that works, has
  the same ones, no matter what would be generated.\<close>

theorem host_identity_stable:
  assumes "load_or_create_host_cert acc generated data_dir cert_path key_path w = (w1, Inr (c, k))"
    and "\<And>c k. generated = Inr (c, k) \<Longrightarrow> acc c k = Inr ()"
    and "files v = files w1" "identity_dir_ready data_dir v"
  shows "\<exists>w2. load_or_create_host_cert acc generated' data_dir cert_path key_path v = (w2, Inr (c, k))"
proof -
  obtain cp kp where p: "host_cert_paths data_dir cert_path key_path = (cp, kp)" by force
  obtain w0 where l: "host_cert_locked acc generated (cert_path \<noteq> None \<or> key_path \<noteq> None) cp kp w0 = (w1, Inr (c, k))"
    using assms(1) p unfolding load_or_create_assoc andthen_def by (auto split: prod.splits sum.splits)
  have f: "\<not> path_eq cp kp" "files v cp = Some (NFile c 384)" "files v kp = Some (NFile k 384)"
    "acc c k = Inr ()"
    using host_cert_locked_success[OF l assms(2)] assms(3) by auto
  obtain w' where w': "andthen (ensure_private_dir (server_dir data_dir))
       (\<lambda>_. lock_acquire (join (server_dir data_dir) ''.host-identity.lock'')) v = (w', Inr ())"
    "no_faults w'" "files w' = (files v)(server_dir data_dir \<mapsto> NDir 448)"
    using ready_prefix[OF assms(4)] by blast
  have "cp \<noteq> server_dir data_dir" "kp \<noteq> server_dir data_dir"
    using assms(4) f(2,3) by (auto simp: identity_dir_ready_def)
  then have "files w' cp = Some (NFile c 384)" "files w' kp = Some (NFile k 384)" using w'(3) f by simp_all
  then obtain w2 where "host_cert_locked acc generated' (cert_path \<noteq> None \<or> key_path \<noteq> None) cp kp w' = (w2, Inr (c, k))"
    using host_cert_locked_existing[of w' cp kp c 384 k 384 acc, OF w'(2) f(1) _ _ f(4)] by blast
  then have "load_or_create_host_cert acc generated' data_dir cert_path key_path v = (w2, Inr (c, k))"
    unfolding load_or_create_assoc andthen_def[of "andthen _ _"] using w'(1) p by simp
  then show ?thesis ..
qed

definition example_server_world :: world where
  "example_server_world = example_world\<lparr>files :=
     [''/d'' \<mapsto> NDir 448, ''/d/server'' \<mapsto> NDir 448, ''/d/server/.host-identity.lock'' \<mapsto> NFile [] 384]\<rparr>"

theorem host_identity_stable_witness:
  "\<exists>w1 w2. load_or_create_host_cert (\<lambda>_ _. Inr ()) (Inr ([1], [2])) ''/d'' None None example_server_world = (w1, Inr ([1], [2]))
     \<and> load_or_create_host_cert (\<lambda>_ _. Inr ()) (Inr ([3], [4])) ''/d'' None None
         (example_world\<lparr>files := files w1\<rparr>) = (w2, Inr ([1], [2]))"
proof -
  let ?run = "load_or_create_host_cert (\<lambda>_ _. Inr ()) (Inr ([1], [2])) ''/d'' None None example_server_world"
  have r: "snd ?run = Inr ([1], [2])" by code_simp
  have f: "files (fst ?run) ''/d/server'' = Some (NDir 448)"
    "files (fst ?run) ''/d/server/.host-identity.lock'' = Some (NFile [] 384)"
    by code_simp+
  have s: "server_dir ''/d'' = ''/d/server''"
    "join ''/d/server'' ''.host-identity.lock'' = ''/d/server/.host-identity.lock''" by code_simp+
  let ?v = "example_world\<lparr>files := files (fst ?run)\<rparr>"
  have ready: "identity_dir_ready ''/d'' ?v"
    using f by (simp add: identity_dir_ready_def s no_faults_def example_world_def)
  have run: "?run = (fst ?run, Inr ([1], [2]))" using r by (metis prod.collapse)
  have "\<exists>w2. load_or_create_host_cert (\<lambda>_ _. Inr ()) (Inr ([3], [4])) ''/d'' None None ?v = (w2, Inr ([1], [2]))"
    by (rule host_identity_stable[OF run _ _ ready]) simp_all
  then show ?thesis using run by blast
qed

text \<open>A server without explicit files always starts with a valid identity.  Whatever the two files
  hold when it starts, including halves of different pairs left by a crash between the two
  replacements, the start succeeds with a pair that TLS accepts, keeping the old pair if it is valid.\<close>

theorem host_identity_repaired:
  assumes "identity_dir_ready data_dir w" "host_cert_paths data_dir None None = (cp, kp)" "\<not> path_eq cp kp"
    and "room (w\<lparr>files := (files w)(server_dir data_dir \<mapsto> NDir 448)\<rparr>) cp kp"
    and "files w cp = map_option (\<lambda>d. NFile d 384) x" "files w kp = map_option (\<lambda>d. NFile d 384) y"
    and "acc c k = Inr ()"
  shows "\<exists>w' c' k'. load_or_create_host_cert acc (Inr (c, k)) data_dir None None w = (w', Inr (c', k'))
     \<and> acc c' k' = Inr ()
     \<and> (\<forall>a b. x = Some a \<and> y = Some b \<and> acc a b = Inr () \<longrightarrow> c' = a \<and> k' = b)"
proof -
  obtain w1 where w1: "andthen (ensure_private_dir (server_dir data_dir))
       (\<lambda>_. lock_acquire (join (server_dir data_dir) ''.host-identity.lock'')) w = (w1, Inr ())"
    "no_faults w1" "w_random w1 = w_random w" "files w1 = (files w)(server_dir data_dir \<mapsto> NDir 448)"
    using ready_prefix[OF assms(1)] by blast
  have "cp \<noteq> server_dir data_dir" "kp \<noteq> server_dir data_dir"
    using assms(1,5,6) by (cases x; cases y; auto simp: identity_dir_ready_def)+
  then have xy: "files w1 cp = map_option (\<lambda>d. NFile d 384) x" "files w1 kp = map_option (\<lambda>d. NFile d 384) y"
    using w1(4) assms(5,6) by simp_all
  have rm: "room w1 cp kp" using assms(4) w1(3,4) by (simp add: room_def)
  obtain w' where "host_cert_locked acc (Inr (c, k)) False cp kp w1 =
      (w', if (\<exists>a b. x = Some a \<and> y = Some b \<and> acc a b = Inr ()) then Inr (the x, the y) else Inr (c, k))"
    using host_cert_locked_clean[OF w1(2) rm assms(3) xy, of acc c k False]
    by (simp only: simp_thms if_False) blast
  then have "load_or_create_host_cert acc (Inr (c, k)) data_dir None None w =
      (w', if (\<exists>a b. x = Some a \<and> y = Some b \<and> acc a b = Inr ()) then Inr (the x, the y) else Inr (c, k))"
    unfolding load_or_create_assoc andthen_def[of "andthen _ _"] using w1(1) assms(2) by simp
  then show ?thesis using assms(7) by (auto split: if_splits)
qed

definition example_mixed_world :: world where
  "example_mixed_world = example_server_world\<lparr>w_random := (\<lambda>_. Some [0]),
     files := (files example_server_world)(''/d/server/host_cert.der'' \<mapsto> NFile [1] 384,
       ''/d/server/host_key.der'' \<mapsto> NFile [2] 384)\<rparr>"

definition example_pairs :: "byte list \<Rightarrow> byte list \<Rightarrow> unit res" where
  "example_pairs c k = (if c = k then Inr () else Inl (Bail []))"

theorem host_identity_repaired_witness:
  "\<exists>w' c' k'. load_or_create_host_cert example_pairs (Inr ([7], [7])) ''/d'' None None example_mixed_world
       = (w', Inr (c', k'))
     \<and> example_pairs c' k' = Inr ()"
proof -
  let ?w = example_mixed_world
  let ?cp = "''/d/server/host_cert.der''" and ?kp = "''/d/server/host_key.der''"
  have s: "server_dir ''/d'' = ''/d/server''" "parent ?cp = Some ''/d/server''" "parent ?kp = Some ''/d/server''"
    "join ''/d/server'' ''.host-identity.lock'' = ''/d/server/.host-identity.lock''" by code_simp+
  have ready: "identity_dir_ready ''/d'' ?w"
    by (simp add: identity_dir_ready_def s no_faults_def example_world_def example_server_world_def example_mixed_world_def)
  have paths: "host_cert_paths ''/d'' None None = (?cp, ?kp)" by code_simp
  have pne: "\<not> path_eq ?cp ?kp" by code_simp
  have tmp: "tmp_path ?cp [0] = ''/d/server/.host_cert.der.00.tmp''" "tmp_path ?kp [0] = ''/d/server/.host_key.der.00.tmp''"
    "parent ''/d/server/.host_cert.der.00.tmp'' = Some ''/d/server''"
    "parent ''/d/server/.host_key.der.00.tmp'' = Some ''/d/server''"
    by code_simp+
  have room: "room (?w\<lparr>files := (files ?w)(server_dir ''/d'' \<mapsto> NDir 448)\<rparr>) ?cp ?kp"
    by (simp add: room_def example_mixed_world_def example_server_world_def s tmp parent_ok_def)
  have "\<exists>w' c' k'. load_or_create_host_cert example_pairs (Inr ([7], [7])) ''/d'' None None ?w = (w', Inr (c', k'))
     \<and> example_pairs c' k' = Inr ()
     \<and> (\<forall>a b. Some [1] = Some a \<and> Some [2] = Some b \<and> example_pairs a b = Inr () \<longrightarrow> c' = a \<and> k' = b)"
    by (rule host_identity_repaired[OF ready paths pne room])
       (simp_all add: example_mixed_world_def example_pairs_def)
  then show ?thesis by blast
qed

text \<open>When the operator names the certificate and only that file exists, it is replaced along with the
  missing key: the certificate that was there is lost.\<close>

theorem explicit_certificate_replaced:
  assumes "no_faults w" "room w cp kp" "\<not> path_eq cp kp" "files w cp = Some (NFile old 384)" "files w kp = None"
  shows "\<exists>w'. host_cert_locked acc (Inr (c, k)) True cp kp w = (w', Inr (c, k)) \<and> files w' cp = Some (NFile c 384)"
proof -
  have "cp \<noteq> kp" using assms(3) by auto
  then show ?thesis
    using host_cert_locked_clean[OF assms(1-3), of "Some old" None acc c k True] assms(4,5) by auto
qed

text \<open>C32. Servers that share a state directory agree on the stateless reset key: a start that returns a
  key has read or installed exactly that key on disk, and a key that is on disk, also one another
  process installed after this one looked, is the one returned and stays.\<close>

theorem reset_key_agreed:
  assumes "load_or_create_stateless_reset_key data_dir w = (w', Inr key)"
    and "path = join (server_dir data_dir) ''stateless_reset.key''"
  shows "(\<exists>m. files w' path = Some (NFile key m)) \<and> (\<forall>d m. files w path = Some (NFile d m) \<longrightarrow> key = d)"
proof -
  let ?d = "server_dir data_dir"
  let ?K = "\<lambda>d. holds path d (files w)"
  let ?start = "andthen (lift_io (create_dir_all ?d)) (\<lambda>_. lift_io (set_permissions ?d 448))"
  obtain w1 r1 where s: "?start w = (w1, r1)" by force
  have q: "quiet ?start" by (intro quiet_andthen quiet_create_dir_all quiet_set_permissions)
  have K1: "\<forall>d. ?K d \<longrightarrow> holds path d (files w1)" using quiet_holds[OF q s] by blast
  obtain w2 r2 where rd: "read_stateless_reset_key path w1 = (w2, r2)" by force
  have K2: "case r2 of Inl _ \<Rightarrow> \<forall>d. ?K d \<longrightarrow> holds path d (files w2)
     | Inr x \<Rightarrow> (\<forall>d. ?K d \<longrightarrow> holds path d (files w2))
         \<and> (\<forall>r. x = Some r \<longrightarrow> holds path r (files w2) \<and> length r = STATELESS_RESET_KEY_LEN)"
    using specD[OF spec_read_reset_key[of ?K path] K1 rd] by blast
  obtain u where r1: "r1 = Inr u"
    using assms s by (cases r1) (auto simp: load_or_create_stateless_reset_key_def andthen_def Let_def split: prod.splits sum.splits)
  have run: "andthen (read_stateless_reset_key path) (\<lambda>found w.
        case found of
          Some key \<Rightarrow> (w, Inr key)
        | None \<Rightarrow>
            (case random_fill w of
               (w, None) \<Rightarrow> (w, Inl (Ctx ''generate stateless reset key'' (Foreign ''Unspecified'')))
             | (w, Some key) \<Rightarrow> reset_key_attempts 32 ?d path key w)) w1 = (w', Inr key)"
    using assms s r1 by (auto simp: load_or_create_stateless_reset_key_def andthen_def[of "lift_io _"] Let_def split: prod.splits sum.splits)
  then obtain x where x: "r2 = Inr x" using rd by (cases r2) (auto simp: andthen_def)
  have "(\<forall>d. ?K d \<longrightarrow> holds path d (files w')) \<and> holds path key (files w')"
  proof (cases x)
    case (Some y)
    then show ?thesis using run rd x K2 by (auto simp: andthen_def)
  next
    case None
    then obtain k0 where "w_random w2 (draws w2) = Some k0"
      "reset_key_attempts 32 ?d path k0 (w2\<lparr>draws := draws w2 + 1\<rparr>) = (w', Inr key)"
      using run rd x by (auto simp: andthen_def random_fill_def split: option.splits)
    then show ?thesis
      using reset_key_attempts_disk[of 32 ?d k0 "w2\<lparr>draws := draws w2 + 1\<rparr>" w' "Inr key" ?K] K2 x assms(2) by simp
  qed
  then show ?thesis by auto
qed

definition example_reset_world :: world where
  "example_reset_world = example_world\<lparr>files := [''/d/server'' \<mapsto> NDir 448,
     ''/d/server/stateless_reset.key'' \<mapsto> NFile (replicate 64 7) 384]\<rparr>"

theorem reset_key_agreed_witness:
  "\<exists>w' m. load_or_create_stateless_reset_key ''/d'' example_reset_world = (w', Inr (replicate 64 7))
     \<and> files w' ''/d/server/stateless_reset.key'' = Some (NFile (replicate 64 7) m)"
proof -
  have s: "server_dir ''/d'' = ''/d/server''"
    "join ''/d/server'' ''stateless_reset.key'' = ''/d/server/stateless_reset.key''" by code_simp+
  have nf: "no_faults example_reset_world" by (simp add: no_faults_def example_reset_world_def example_world_def)
  have f: "files example_reset_world ''/d/server'' = Some (NDir 448)"
    "files example_reset_world ''/d/server/stateless_reset.key'' = Some (NFile (replicate 64 7) 384)"
    by (simp_all add: example_reset_world_def)
  have md: "make_dirs (Suc (length ''/d/server'')) ''/d/server'' (files example_reset_world) = Inr (files example_reset_world)"
    using f by simp
  obtain w' where run: "load_or_create_stateless_reset_key ''/d'' example_reset_world = (w', Inr (replicate 64 7))"
    using nf f md
    by (simp add: load_or_create_stateless_reset_key_def s andthen_def lift_io_def create_dir_all_def sys_call_ok
        set_permissions_def read_stateless_reset_key_def open_nofollow_def read_to_end_def io_res_def return_def
        STATELESS_RESET_KEY_LEN_def Let_def del: reset_key_attempts.simps make_dirs.simps)
  from reset_key_agreed[OF run] run show ?thesis by (auto simp: s)
qed

end
