(* ===== verification/Forwarding.thy ===== *)
theory Forwarding
  imports Server
begin

text \<open>
  \<open>hush-core/src/net.rs\<close> and \<open>hush-core/src/forwarding.rs\<close>: copying between a connection and a stream
  in both directions, and the forwards built from it, with the permits the listeners of remote
  forwards share.
\<close>

section \<open>Copying\<close>

text \<open>
  \<open>io::copy\<close> reads until the end (an empty read), writing all it reads.  The script holds the results
  of the reads; one that ends before the end of the input leaves the copy waiting.
\<close>

fun io_copy :: "('s \<Rightarrow> byte list \<Rightarrow> 's res) \<Rightarrow> 's \<Rightarrow> (io_error + byte list) list \<Rightarrow> 's \<times> unit res option" where
  "io_copy wr s [] = (s, None)"
| "io_copy wr s (Inl e # reads) = (s, Some (Inl (Io e)))"
| "io_copy wr s (Inr buf # reads) =
     (if buf = [] then (s, Some (Inr ()))
      else case wr s buf of Inl e \<Rightarrow> (s, Some (Inl e)) | Inr s \<Rightarrow> io_copy wr s reads)"

definition copy_reader_to_quic ::
  "('s \<Rightarrow> byte list \<Rightarrow> 's res) \<Rightarrow> ('s \<Rightarrow> 's res) \<Rightarrow> 's \<Rightarrow> (io_error + byte list) list \<Rightarrow> 's \<times> unit res option" where
  "copy_reader_to_quic wr fin s reads =
     (case io_copy wr s reads of
        (s, Some (Inr _)) \<Rightarrow> (case fin s of Inl e \<Rightarrow> (s, Some (Inl e)) | Inr s \<Rightarrow> (s, Some (Inr ())))
      | r \<Rightarrow> r)"

text \<open>The error of shutting the writer down is dropped.\<close>

definition copy_quic_to_writer ::
  "('s \<Rightarrow> byte list \<Rightarrow> 's res) \<Rightarrow> ('s \<Rightarrow> 's) \<Rightarrow> 's \<Rightarrow> (io_error + byte list) list \<Rightarrow> 's \<times> unit res option" where
  "copy_quic_to_writer wr shut s reads =
     (case io_copy wr s reads of
        (s, Some (Inr _)) \<Rightarrow> (shut s, Some (Inr ()))
      | r \<Rightarrow> r)"

text \<open>Both directions run at once and both are awaited; the first error counts.\<close>

definition join_results :: "unit res option \<Rightarrow> unit res option \<Rightarrow> unit res option" where
  "join_results ra rb =
     (case (ra, rb) of (Some ra, Some rb) \<Rightarrow> Some (and_then ra (\<lambda>_. rb)) | _ \<Rightarrow> None)"

definition bridge_tcp_quic ::
  "('s \<Rightarrow> byte list \<Rightarrow> 's res) \<Rightarrow> ('s \<Rightarrow> 's res) \<Rightarrow> ('t \<Rightarrow> byte list \<Rightarrow> 't res) \<Rightarrow> ('t \<Rightarrow> 't) \<Rightarrow> 's \<Rightarrow> 't
     \<Rightarrow> (io_error + byte list) list \<Rightarrow> (io_error + byte list) list \<Rightarrow> 's \<times> 't \<times> unit res option" where
  "bridge_tcp_quic send_wr send_fin tcp_wr tcp_shut send tcp tcp_reads quic_reads =
     (case (copy_reader_to_quic send_wr send_fin send tcp_reads, copy_quic_to_writer tcp_wr tcp_shut tcp quic_reads) of
        ((send, ra), (tcp, rb)) \<Rightarrow> (send, tcp, join_results ra rb))"

section \<open>Streams of forwards\<close>

record LocalForward =
  lf_listen_host :: string
  lf_listen_port :: u16
  lf_target :: TcpTarget

text \<open>
  The start of a forwarded stream on the side that opens it, up to the bridge: the header frame
  written first.  \<open>open_bi\<close> and \<open>header\<close> are the results of opening the stream and writing to it.
\<close>

definition open_forward_stream ::
  "StreamOpen \<Rightarrow> 's res \<Rightarrow> ('s \<Rightarrow> StreamOpen \<Rightarrow> 's res) \<Rightarrow> 's res" where
  "open_forward_stream header_msg open_bi header = and_then open_bi (\<lambda>send. header send header_msg)"

definition open_local_forward_stream :: "TcpTarget \<Rightarrow> 's res \<Rightarrow> ('s \<Rightarrow> StreamOpen \<Rightarrow> 's res) \<Rightarrow> 's res" where
  "open_local_forward_stream target = open_forward_stream (LocalTcpForward target)"

definition open_remote_forward_stream :: "u64 \<Rightarrow> 's res \<Rightarrow> ('s \<Rightarrow> StreamOpen \<Rightarrow> 's res) \<Rightarrow> 's res" where
  "open_remote_forward_stream forward_id = open_forward_stream (RemoteTcpForward forward_id)"

text \<open>The side that serves the stream connects to the target first.\<close>

definition show_target :: "TcpTarget \<Rightarrow> string" where
  "show_target target = tt_host target @ '':'' @ show_nat (unat (tt_port target))"

definition serve_local_forward_stream :: "(TcpTarget \<Rightarrow> io_error + 't) \<Rightarrow> TcpTarget \<Rightarrow> 't res" where
  "serve_local_forward_stream connect target =
     with_context (''connect remote target '' @ show_target target) (io_res (connect target))"

definition serve_remote_forward_stream :: "(TcpTarget \<Rightarrow> io_error + 't) \<Rightarrow> TcpTarget \<Rightarrow> 't res" where
  "serve_remote_forward_stream connect target =
     with_context (''connect local target '' @ show_target target) (io_res (connect target))"

text \<open>\<open>run_local_forward\<close>: each accepted connection is served by a task of its own with the forward's
  target, until accepting fails.\<close>

fun local_forward_loop :: "LocalForward \<Rightarrow> (io_error + 'c) list \<Rightarrow> ('c \<times> TcpTarget) list \<times> unit res option" where
  "local_forward_loop lf [] = ([], None)"
| "local_forward_loop lf (Inl e # evs) = ([], Some (Inl (Io e)))"
| "local_forward_loop lf (Inr c # evs) =
     (case local_forward_loop lf evs of (served, r) \<Rightarrow> ((c, lf_target lf) # served, r))"

definition run_local_forward ::
  "(string \<times> u16 \<Rightarrow> io_error + unit) \<Rightarrow> LocalForward \<Rightarrow> (io_error + 'c) list \<Rightarrow> ('c \<times> TcpTarget) list \<times> unit res option" where
  "run_local_forward bind lf evs =
     (case bind (lf_listen_host lf, lf_listen_port lf) of
        Inl e \<Rightarrow> ([], Some (Inl (Ctx (''bind local forward '' @ lf_listen_host lf @ '':'' @ show_nat (unat (lf_listen_port lf)))
                                  (Io e))))
      | Inr _ \<Rightarrow> local_forward_loop lf evs)"

section \<open>The listeners of remote forwards\<close>

text \<open>
  All the listeners of a connection share one semaphore.  A listener first takes a permit, then
  accepts a connection and hands the permit to the task that serves it.  Listeners are numbered;
  \<open>rl_holding\<close> are those that have a permit and wait for a connection, \<open>rl_streams\<close> the streams being
  served, each with its listener.
\<close>

record listeners =
  rl_free :: nat
  rl_waiting :: "nat set"
  rl_holding :: "nat set"
  rl_streams :: "(nat \<times> nat) set"
  rl_next :: nat
  rl_closed :: bool

definition listeners_start :: "'s ServerRuntimeConfig \<Rightarrow> nat \<Rightarrow> listeners" where
  "listeners_start config n =
     \<lparr>rl_free = max_forward_streams_per_connection config, rl_waiting = {..<n}, rl_holding = {}, rl_streams = {},
      rl_next = 0, rl_closed = False\<rparr>"

inductive listener_step :: "listeners \<Rightarrow> listeners \<Rightarrow> bool" where
  acquire: "l \<in> rl_waiting s \<Longrightarrow> rl_free s \<noteq> 0 \<Longrightarrow> \<not> rl_closed s \<Longrightarrow>
     listener_step s (s\<lparr>rl_free := rl_free s - 1, rl_waiting := rl_waiting s - {l}, rl_holding := insert l (rl_holding s)\<rparr>)"
| accept: "l \<in> rl_holding s \<Longrightarrow> \<not> rl_closed s \<Longrightarrow>
     listener_step s (s\<lparr>rl_holding := rl_holding s - {l}, rl_waiting := insert l (rl_waiting s),
                        rl_streams := insert (rl_next s, l) (rl_streams s), rl_next := rl_next s + 1\<rparr>)"
| accept_fails: "l \<in> rl_holding s \<Longrightarrow> \<not> rl_closed s \<Longrightarrow>
     listener_step s (s\<lparr>rl_holding := rl_holding s - {l}, rl_free := rl_free s + 1\<rparr>)"
| stream_ends: "(n, l) \<in> rl_streams s \<Longrightarrow>
     listener_step s (s\<lparr>rl_streams := rl_streams s - {(n, l)}, rl_free := rl_free s + 1\<rparr>)"
| closed: "\<not> rl_closed s \<Longrightarrow>
     listener_step s (s\<lparr>rl_closed := True, rl_free := rl_free s + card (rl_holding s), rl_waiting := {}, rl_holding := {}\<rparr>)"

inductive_cases listener_stepE: "listener_step s s'"

section \<open>Facts\<close>

text \<open>A reader that delivers these pieces and then the end.\<close>

definition pieces :: "byte list list \<Rightarrow> (io_error + byte list) list" where
  "pieces bs = map Inr (filter (\<lambda>b. b \<noteq> []) bs) @ [Inr []]"

lemma io_copy_pieces:
  "io_copy (\<lambda>s b. Inr (s @ b)) s (pieces bs) = (s @ concat bs, Some (Inr ()))"
  by (induction bs arbitrary: s) (auto simp: pieces_def)

text \<open>A forwarded connection is transparent: however the bytes are cut into reads on either side,
  everything the TCP peer sends reaches the stream in order and then its end, everything that arrives
  on the stream reaches the TCP peer in order and then the end of its input, neither direction waiting
  for the other, and the forward ends without an error.
\<close>

theorem bridge_transparent:
  "bridge_tcp_quic (\<lambda>(b, f) x. Inr (b @ x, f)) (\<lambda>(b, f). Inr (b, True)) (\<lambda>(b, f) x. Inr (b @ x, f)) (\<lambda>(b, f). (b, True))
     ([], False) ([], False) (pieces from_tcp) (pieces from_quic)
   = ((concat from_tcp, True), (concat from_quic, True), Some (Inr ()))"
proof -
  have copy: "io_copy (\<lambda>(b, f) x. Inr (b @ x, f)) (s, False) (pieces bs) = ((s @ concat bs, False), Some (Inr ()))"
    for s :: "byte list" and bs
    by (induction bs arbitrary: s) (auto simp: pieces_def)
  show ?thesis
    by (simp add: bridge_tcp_quic_def copy_reader_to_quic_def copy_quic_to_writer_def copy join_results_def)
qed

definition listeners_inv :: "nat \<Rightarrow> listeners \<Rightarrow> bool" where
  "listeners_inv limit s \<longleftrightarrow>
     rl_free s + card (rl_holding s) + card (rl_streams s) = limit \<and> finite (rl_holding s) \<and> finite (rl_streams s) \<and>
     (\<forall>(n, l) \<in> rl_streams s. n < rl_next s) \<and> rl_waiting s \<inter> rl_holding s = {}"

lemma card_pos_if_in: "finite A \<Longrightarrow> x \<in> A \<Longrightarrow> 0 < card A"
  by (auto simp: card_gt_0_iff)

lemma listener_step_inv:
  assumes "listener_step s s'" "listeners_inv limit s"
  shows "listeners_inv limit s'"
  using assms
proof cases
  case (acquire l)
  with assms(2) have "l \<notin> rl_holding s"
    by (auto simp: listeners_inv_def)
  with acquire assms(2) show ?thesis
    by (auto simp: listeners_inv_def)
next
  case (accept l)
  with assms(2) have "(rl_next s, l) \<notin> rl_streams s" "finite (rl_holding s)"
    by (auto simp: listeners_inv_def)
  with accept assms(2) show ?thesis
    using card_pos_if_in[of "rl_holding s" l] by (auto simp: listeners_inv_def less_SucI card_Diff_singleton_if)
next
  case (accept_fails l)
  with assms(2) show ?thesis
    using card_pos_if_in[of "rl_holding s" l] by (auto simp: listeners_inv_def card_Diff_singleton_if)
next
  case (stream_ends n l)
  with assms(2) show ?thesis
    using card_pos_if_in[of "rl_streams s" "(n, l)"] by (auto simp: listeners_inv_def card_Diff_singleton_if)
qed (use assms(2) in \<open>auto simp: listeners_inv_def\<close>)

interpretation forward_permits: permit_pool listener_step "listeners_inv limit" rl_free
    "\<lambda>s. card (rl_holding s) + card (rl_streams s)" limit for limit
  by unfold_locales (erule (1) listener_step_inv, simp add: listeners_inv_def)

text \<open>The remote forwards of a connection together never serve more streams than
  \<open>max_forward_streams_per_connection\<close>, however many listeners there are and in whatever order they
  accept connections, lose them or are closed.\<close>

theorem remote_forward_streams_bounded:
  assumes "listener_step\<^sup>*\<^sup>* (listeners_start config n) s"
  shows "finite (rl_streams s) \<and> card (rl_streams s) \<le> max_forward_streams_per_connection config"
proof -
  have start: "listeners_inv (max_forward_streams_per_connection config) (listeners_start config n)"
    by (simp add: listeners_start_def listeners_inv_def)
  show ?thesis
    using forward_permits.reachable_inv [OF assms start] forward_permits.used_bounded [OF assms start] by (simp add: listeners_inv_def)
qed

abbreviation one_stream :: "unit ServerRuntimeConfig" where
  "one_stream \<equiv> default_runtime_config\<lparr>max_forward_streams_per_connection := 1\<rparr>"

definition held :: listeners where
  "held = \<lparr>rl_free = 0, rl_waiting = {1}, rl_holding = {0}, rl_streams = {}, rl_next = 0, rl_closed = False\<rparr>"

lemma held_reachable: "listener_step\<^sup>*\<^sup>* (listeners_start one_stream 2) held"
proof -
  have "{..<2} - {0} = {1 :: nat}"
    by auto
  with listener_step.acquire[of 0 "listeners_start one_stream 2"]
  have "listener_step (listeners_start one_stream 2) held"
    by (simp add: listeners_start_def held_def)
  then show ?thesis
    by (rule r_into_rtranclp)
qed

theorem remote_forward_streams_bounded_witness:
  "\<exists>s. listener_step\<^sup>*\<^sup>* (listeners_start one_stream 2) s \<and> rl_streams s = {(0, 0)} \<and> card (rl_streams s) \<le> 1"
proof -
  let ?s = "held\<lparr>rl_holding := {}, rl_waiting := {0, 1}, rl_streams := {(0, 0)}, rl_next := 1\<rparr>"
  have "listener_step held ?s"
    using listener_step.accept[of 0 held] by (simp add: held_def)
  with held_reachable have reach: "listener_step\<^sup>*\<^sup>* (listeners_start one_stream 2) ?s"
    by (rule rtranclp.rtrancl_into_rtrancl)
  from remote_forward_streams_bounded[OF reach] reach show ?thesis
    by (intro exI[of _ ?s]) simp
qed


end
