(* ===== verification/Agent.thy ===== *)
theory Agent
  imports Server Files Forwarding
begin

text \<open>
  \<open>hush-core/src/agent.rs\<close>: forwarding of the client's ssh-agent.  The messages that bind a forwarded
  connection to the session, the signature of the host key over the session's identifier, the socket
  the server makes for a session, its listener, and its removal.
\<close>

section \<open>Constants and session identifier\<close>

definition SESSION_BIND_EXTENSION :: string where "SESSION_BIND_EXTENSION = ''session-bind@openssh.com''"
definition SESSION_ID_EXPORT_LABEL :: string where "SESSION_ID_EXPORT_LABEL = ''hush ssh-agent session-bind''"
definition SESSION_ID_LEN :: nat where "SESSION_ID_LEN = 32"
definition SSH_AGENTC_EXTENSION :: byte where "SSH_AGENTC_EXTENSION = 27"
definition SSH_AGENT_SUCCESS :: byte where "SSH_AGENT_SUCCESS = 6"
definition MAX_AGENT_REPLY_LEN :: nat where "MAX_AGENT_REPLY_LEN = 256 * 1024"

text \<open>\<open>export\<close> is the TLS exporter of the connection: for a length, a label and a context.\<close>

definition session_bind_id :: "(nat \<Rightarrow> byte list \<Rightarrow> byte list \<Rightarrow> byte list option) \<Rightarrow> byte list res" where
  "session_bind_id export =
     ok_or (Bail ''TLS keying material export failed'') (export SESSION_ID_LEN (as_bytes SESSION_ID_EXPORT_LABEL) [])"

definition peer_host_key_blob :: "'p ssh_lib \<Rightarrow> (byte list \<Rightarrow> certificate res) \<Rightarrow> peer \<Rightarrow> byte list res" where
  "peer_host_key_blob L parse_cert ident =
     (case ident of
        NoIdentity \<Rightarrow> Inl (Bail ''peer did not present a certificate'')
      | OtherIdentity \<Rightarrow> Inl (Bail ''unexpected peer identity type'')
      | Certificates [] \<Rightarrow> Inl (Bail ''peer certificate chain is empty'')
      | Certificates (cert # _) \<Rightarrow>
          and_then (public_key_from_cert_der L parse_cert cert) (\<lambda>key.
            with_context ''serialize peer host key'' (to_bytes L key)))"

section \<open>Encodings\<close>

definition put_string :: "byte list \<Rightarrow> byte list \<Rightarrow> byte list" where
  "put_string buf data = buf @ u32_to_be_bytes (word_of_nat (length data)) @ data"

definition put_mpint :: "byte list \<Rightarrow> byte list \<Rightarrow> byte list" where
  "put_mpint buf magnitude =
     (let trimmed = dropWhile (\<lambda>b. b = 0) magnitude;
          pad = (case trimmed of [] \<Rightarrow> False | b # _ \<Rightarrow> b AND 0x80 \<noteq> 0)
      in buf @ u32_to_be_bytes (word_of_nat (length trimmed + (if pad then 1 else 0))) @ (if pad then [0] else []) @ trimmed)"

definition ecdsa_fixed_to_ssh :: "byte list \<Rightarrow> byte list res" where
  "ecdsa_fixed_to_ssh fixed =
     (if fixed = [] \<or> length fixed mod 2 \<noteq> 0
      then Inl (Bail (''unexpected ECDSA signature length '' @ show_nat (length fixed)))
      else let (r, s) = (take (length fixed div 2) fixed, drop (length fixed div 2) fixed)
           in Inr (put_mpint (put_mpint [] r) s))"

section \<open>Client side\<close>

record SessionBind =
  sb_host_key :: "byte list"
  sb_session_id :: "byte list"
  sb_signature :: "byte list"

definition bind_body :: "SessionBind \<Rightarrow> byte list" where
  "bind_body bind =
     put_string (put_string (put_string (put_string [SSH_AGENTC_EXTENSION] (as_bytes SESSION_BIND_EXTENSION))
       (sb_host_key bind)) (sb_session_id bind)) (sb_signature bind) @ [1]"

text \<open>The agent answers the bytes it has been sent with bytes; whether it accepted, and the bytes left.\<close>

definition bind_agent_connection :: "agent_conn \<Rightarrow> SessionBind \<Rightarrow> (bool \<times> byte list) res" where
  "bind_agent_connection agent bind =
     (let body = bind_body bind
      in and_then (io_res (agent (u32_to_be_bytes (word_of_nat (length body)) @ body))) (\<lambda>answer.
         and_then (with_context ''read agent reply'' (read_u32 io_eof answer)) (\<lambda>(w, answer).
           let len = unat w
           in if len = 0 \<or> MAX_AGENT_REPLY_LEN < len
              then Inl (Bail (''invalid agent reply length '' @ show_nat len))
              else and_then (with_context ''read agent reply'' (read_exact io_eof len answer)) (\<lambda>(reply, answer).
                     Inr (hd reply = SSH_AGENT_SUCCESS, answer)))))"

text \<open>\<open>serve_agent_forward_stream\<close> up to the bridge: whether the connection was bound.\<close>

definition serve_agent_forward_stream ::
  "(string \<Rightarrow> io_error + agent_conn) \<Rightarrow> string \<Rightarrow> SessionBind option \<Rightarrow> bool res" where
  "serve_agent_forward_stream connect socket bind =
     and_then (with_context (''connect ssh-agent '' @ socket) (io_res (connect socket))) (\<lambda>agent.
       case bind of
         None \<Rightarrow> Inr False
       | Some bind \<Rightarrow> and_then (bind_agent_connection agent bind) (\<lambda>(bound, _). Inr bound))"

section \<open>Host key signing\<close>

text \<open>The signature library: parsing a private key of an algorithm, its public key, and signing, which
  may fail for ECDSA.\<close>

record 'h sign_lib =
  sg_ed_from_pkcs8 :: "byte list \<Rightarrow> 'h option"
  sg_ed_maybe_unchecked :: "byte list \<Rightarrow> 'h option"
  sg_ec_from_pkcs8 :: "EcdsaCurve \<Rightarrow> byte list \<Rightarrow> 'h option"
  sg_public :: "'h \<Rightarrow> byte list"
  sg_ed_sign :: "'h \<Rightarrow> byte list \<Rightarrow> byte list"
  sg_ec_sign :: "'h \<Rightarrow> byte list \<Rightarrow> byte list option"

datatype 'h HostSignerKey = HskEd25519 'h | HskEcdsa 'h

record 'h HostSigner =
  hs_algorithm :: Algorithm
  hs_key :: "'h HostSignerKey"

definition verify_key_matches_cert ::
  "'p ssh_lib \<Rightarrow> 'h sign_lib \<Rightarrow> 'p \<Rightarrow> 'h HostSignerKey \<Rightarrow> unit res" where
  "verify_key_matches_cert L S public key =
     and_then (raw_public_key_bytes L public) (\<lambda>cert_public.
       let key_public = (case key of HskEd25519 k \<Rightarrow> sg_public S k | HskEcdsa k \<Rightarrow> sg_public S k)
       in if cert_public \<noteq> key_public
          then Inl (Bail ''host certificate public key does not match the host private key'') else Inr ())"

text \<open>A private key is PKCS#8 (its bytes) or another kind (None).\<close>

definition from_host_key ::
  "'p ssh_lib \<Rightarrow> (byte list \<Rightarrow> certificate res) \<Rightarrow> 'h sign_lib \<Rightarrow> byte list \<Rightarrow> byte list option \<Rightarrow> 'h HostSigner res" where
  "from_host_key L parse_cert S cert_der key =
     and_then (public_key_from_cert_der L parse_cert cert_der) (\<lambda>public.
     let alg = algorithm L public in
     and_then (ok_or (Bail ''host key is not PKCS#8'') key) (\<lambda>der.
     and_then
       (case alg of
          Ed25519 \<Rightarrow>
            (case sg_ed_from_pkcs8 S der of
               Some k \<Rightarrow> Inr (HskEd25519 k)
             | None \<Rightarrow>
                 (case sg_ed_maybe_unchecked S der of
                    Some k \<Rightarrow> Inr (HskEd25519 k) | None \<Rightarrow> Inl (Bail ''parse Ed25519 host key'')))
        | Ecdsa curve \<Rightarrow>
            (case sg_ec_from_pkcs8 S curve der of
               Some k \<Rightarrow> Inr (HskEcdsa k) | None \<Rightarrow> Inl (Bail ''parse ECDSA host key''))
        | OtherAlgorithm other \<Rightarrow> Inl (Bail (''unsupported host key type '' @ other)))
       (\<lambda>key.
     and_then (verify_key_matches_cert L S public key) (\<lambda>_.
       Inr \<lparr>hs_algorithm = alg, hs_key = key\<rparr>))))"

definition sign_session_id :: "'p ssh_lib \<Rightarrow> 'h sign_lib \<Rightarrow> 'h HostSigner \<Rightarrow> byte list \<Rightarrow> byte list res" where
  "sign_session_id L S signer session_id =
     and_then
       (case hs_key signer of
          HskEd25519 k \<Rightarrow> Inr (sg_ed_sign S k session_id)
        | HskEcdsa k \<Rightarrow>
            and_then (ok_or (Bail ''ECDSA host key signing failed'') (sg_ec_sign S k session_id)) ecdsa_fixed_to_ssh)
       (\<lambda>data. Inr (put_string (put_string [] (as_bytes (algorithm_name L (hs_algorithm signer)))) data))"

text \<open>The signature a session's listener sends in every header; empty when there is none.\<close>

definition bind_signature_for ::
  "'p ssh_lib \<Rightarrow> 'h sign_lib \<Rightarrow> 'h HostSigner option \<Rightarrow> byte list res \<Rightarrow> byte list" where
  "bind_signature_for L S signer session_id =
     (case signer of
        None \<Rightarrow> []
      | Some signer \<Rightarrow>
          (case and_then session_id (sign_session_id L S signer) of Inr sig \<Rightarrow> sig | Inl _ \<Rightarrow> []))"

section \<open>The socket of a session\<close>

text \<open>
  The part of the file system around the socket: what is at a path, with its user and group.  Other processes
  may act between any two calls of the server; \<open>env i\<close> is what they do before the \<open>i\<close>th call, and
  \<open>fail i\<close> the error that call meets, if any.
\<close>

type_synonym owner = "u32 \<times> u32"

datatype agent_node = ADir (n_owner: owner) nat | ASocket (n_owner: owner) nat | AFile (n_owner: owner) nat | ALink (n_owner: owner) string

type_synonym agent_fs = "string \<rightharpoonup> agent_node"

text \<open>\<open>chown\<close> and \<open>set_permissions\<close> follow a symbolic link.\<close>

definition follow :: "agent_fs \<Rightarrow> string \<Rightarrow> string" where
  "follow fs p = (case fs p of Some (ALink _ t) \<Rightarrow> t | _ \<Rightarrow> p)"

definition set_owner :: "owner \<Rightarrow> agent_node \<Rightarrow> agent_node" where
  "set_owner uid n = (case n of ADir _ m \<Rightarrow> ADir uid m | ASocket _ m \<Rightarrow> ASocket uid m | AFile _ m \<Rightarrow> AFile uid m
                      | ALink _ t \<Rightarrow> ALink uid t)"

definition set_mode :: "nat \<Rightarrow> agent_node \<Rightarrow> agent_node" where
  "set_mode m n = (case n of ADir u _ \<Rightarrow> ADir u m | ASocket u _ \<Rightarrow> ASocket u m | AFile u _ \<Rightarrow> AFile u m
                   | ALink u t \<Rightarrow> ALink u t)"

definition not_found :: io_error where "not_found = IoError NotFound None"

definition on_node :: "(agent_node \<Rightarrow> agent_node) \<Rightarrow> string \<Rightarrow> agent_fs \<Rightarrow> agent_fs \<times> (io_error + unit)" where
  "on_node f p fs =
     (case fs (follow fs p) of None \<Rightarrow> (fs, Inl not_found) | Some n \<Rightarrow> (fs(follow fs p \<mapsto> f n), Inr ()))"

definition create_node :: "agent_node \<Rightarrow> string \<Rightarrow> agent_fs \<Rightarrow> agent_fs \<times> (io_error + unit)" where
  "create_node n p fs =
     (case fs p of Some _ \<Rightarrow> (fs, Inl (IoError AlreadyExists None)) | None \<Rightarrow> (fs(p \<mapsto> n), Inr ()))"

definition remove_dir_all :: "string \<Rightarrow> agent_fs \<Rightarrow> agent_fs" where
  "remove_dir_all dir fs = (\<lambda>p. if p = dir \<or> starts_with (dir @ ''/'') p then None else fs p)"

text \<open>The \<open>i\<close>th call, with what happens before it.\<close>

definition nth_call ::
  "(nat \<Rightarrow> agent_fs \<Rightarrow> agent_fs) \<Rightarrow> (nat \<Rightarrow> io_error option) \<Rightarrow> nat \<Rightarrow> (agent_fs \<Rightarrow> agent_fs \<times> (io_error + unit))
     \<Rightarrow> (agent_fs, unit) os" where
  "nth_call env fail i call fs =
     (case fail i of
        Some e \<Rightarrow> (env i fs, Inl (Io e))
      | None \<Rightarrow> (case call (env i fs) of (fs, r) \<Rightarrow> (fs, io_res r)))"

definition in_context :: "string \<Rightarrow> ('s, 'a) os \<Rightarrow> ('s, 'a) os" where
  "in_context msg m s = (case m s of (s, r) \<Rightarrow> (s, with_context msg r))"

definition agent_socket_dir :: "string \<Rightarrow> byte list \<Rightarrow> string" where
  "agent_socket_dir temp_dir nonce = join temp_dir (''hush-'' @ hex_encode nonce)"

definition agent_socket_path :: "string \<Rightarrow> byte list \<Rightarrow> nat \<Rightarrow> string" where
  "agent_socket_path temp_dir nonce pid = join (agent_socket_dir temp_dir nonce) (''agent.'' @ show_nat pid)"

definition bind_socket_in_dir ::
  "(nat \<Rightarrow> agent_fs \<Rightarrow> agent_fs) \<Rightarrow> (nat \<Rightarrow> io_error option) \<Rightarrow> owner \<Rightarrow> nat \<Rightarrow> string \<Rightarrow> string \<Rightarrow> owner option
     \<Rightarrow> (agent_fs, unit) os" where
  "bind_socket_in_dir env fail server_ids umask_mode dir socket_path owner =
     os_bind (in_context (''bind agent socket '' @ socket_path)
                (nth_call env fail 1 (create_node (ASocket server_ids umask_mode) socket_path))) (\<lambda>_.
     os_bind (nth_call env fail 2 (on_node (set_mode 0x180) socket_path)) (\<lambda>_.
       case owner of
         None \<Rightarrow> os_return ()
       | Some ids \<Rightarrow>
           os_bind (in_context ''chown agent socket dir'' (nth_call env fail 3 (on_node (set_owner ids) dir))) (\<lambda>_.
             in_context ''chown agent socket'' (nth_call env fail 4 (on_node (set_owner ids) socket_path)))))"

definition bind_agent_socket ::
  "(nat \<Rightarrow> agent_fs \<Rightarrow> agent_fs) \<Rightarrow> (nat \<Rightarrow> io_error option) \<Rightarrow> owner \<Rightarrow> nat \<Rightarrow> byte list option \<Rightarrow> string \<Rightarrow> nat
     \<Rightarrow> owner option \<Rightarrow> (agent_fs, string \<times> string) os" where
  "bind_agent_socket env fail server_ids umask_mode random temp_dir pid owner =
     (case random of
        None \<Rightarrow> given (Inl (Bail ''generate socket nonce''))
      | Some nonce \<Rightarrow>
          (let dir = agent_socket_dir temp_dir nonce; socket_path = agent_socket_path temp_dir nonce pid
           in os_bind (in_context (''create agent socket dir '' @ dir)
                         (nth_call env fail 0 (create_node (ADir server_ids 0x1C0) dir))) (\<lambda>_ fs.
                case bind_socket_in_dir env fail server_ids umask_mode dir socket_path owner fs of
                  (fs, Inr _) \<Rightarrow> (fs, Inr (dir, socket_path))
                | (fs, Inl err) \<Rightarrow> (remove_dir_all dir fs, Inl err))))"

text \<open>\<open>start_agent_forward\<close>: the guard of the session, with the signature its listener sends.\<close>

record AgentForwardGuard =
  ag_socket_path :: string
  ag_dir :: string
  ag_bind_signature :: "byte list"

definition start_agent_forward ::
  "'p ssh_lib \<Rightarrow> 'h sign_lib \<Rightarrow> (nat \<Rightarrow> agent_fs \<Rightarrow> agent_fs) \<Rightarrow> (nat \<Rightarrow> io_error option) \<Rightarrow> owner \<Rightarrow> nat \<Rightarrow> byte list option
     \<Rightarrow> string \<Rightarrow> nat \<Rightarrow> byte list res \<Rightarrow> 'h HostSigner option \<Rightarrow> owner option \<Rightarrow> (agent_fs, AgentForwardGuard) os" where
  "start_agent_forward L S env fail server_ids umask_mode random temp_dir pid session_id signer owner =
     (let bind_signature = bind_signature_for L S signer session_id
      in os_bind (bind_agent_socket env fail server_ids umask_mode random temp_dir pid owner) (\<lambda>(dir, socket_path).
           os_return \<lparr>ag_socket_path = socket_path, ag_dir = dir, ag_bind_signature = bind_signature\<rparr>))"

text \<open>Dropping the guard also ends the listener.\<close>

definition agent_guard_drop :: "AgentForwardGuard \<Rightarrow> agent_fs \<Rightarrow> agent_fs" where
  "agent_guard_drop guard fs = remove_dir_all (ag_dir guard) fs"

text \<open>
  \<open>serve_agent_connection\<close>: a stream with the header, then the bytes of both sides as in a forward.
  \<open>opened\<close> is the outcome of opening the stream; its priority is left out.
\<close>

definition serve_agent_connection ::
  "(StreamOpen \<Rightarrow> byte list res) \<Rightarrow> unit res \<Rightarrow> ('s \<Rightarrow> byte list \<Rightarrow> 's res) \<Rightarrow> ('s \<Rightarrow> 's res) \<Rightarrow> ('t \<Rightarrow> byte list \<Rightarrow> 't res)
     \<Rightarrow> ('t \<Rightarrow> 't) \<Rightarrow> byte list \<Rightarrow> 's \<Rightarrow> 't \<Rightarrow> (io_error + byte list) list \<Rightarrow> (io_error + byte list) list
     \<Rightarrow> 's \<times> 't \<times> unit res option" where
  "serve_agent_connection ser opened send_wr send_fin unix_wr unix_shut bind_signature send unix unix_reads quic_reads =
     (case and_then opened (\<lambda>_. and_then (write_frame ser vec_write [] (AgentForward bind_signature)) (send_wr send)) of
        Inl e \<Rightarrow> (send, unix, Some (Inl e))
      | Inr send \<Rightarrow> bridge_tcp_quic send_wr send_fin unix_wr unix_shut send unix unix_reads quic_reads)"

text \<open>
  \<open>run_agent_listener\<close>: a connection is accepted, or accepting fails, which ends the listener; a served
  connection ends and gives its slot back.  What is left is the free slots and the connections served.
\<close>

datatype agent_event = Accepted "io_error + nat" | ServedEnds nat

fun run_agent_listener ::
  "nat \<times> nat list \<Rightarrow> agent_event list \<Rightarrow> (nat \<times> nat list) \<times> nat list \<times> unit res option" where
  "run_agent_listener (free, active) [] = ((free, active), [], None)"
| "run_agent_listener (free, active) (Accepted (Inl e) # evs) = ((free, active), [], Some (Inl (Io e)))"
| "run_agent_listener (free, active) (Accepted (Inr unix) # evs) =
     (if free = 0 then run_agent_listener (free, active) evs
      else case run_agent_listener (free - 1, unix # active) evs of (s, served, r) \<Rightarrow> (s, unix # served, r))"
| "run_agent_listener (free, active) (ServedEnds unix # evs) =
     (if unix \<in> set active then run_agent_listener (free + 1, remove1 unix active) evs
      else run_agent_listener (free, active) evs)"

section \<open>Facts about encodings\<close>

text \<open>What an mpint of RFC 4251 is for a natural number: the shortest big-endian bytes whose first bit
  is clear.\<close>

definition is_mpint :: "byte list \<Rightarrow> nat \<Rightarrow> bool" where
  "is_mpint body n \<longleftrightarrow>
     be_val body = n \<and>
     (case body of [] \<Rightarrow> True | b # rest \<Rightarrow> b < 0x80 \<and> (b = 0 \<longrightarrow> (case rest of [] \<Rightarrow> False | c # _ \<Rightarrow> 0x80 \<le> c)))"

lemma be_val_drop_zeros: "be_val (dropWhile (\<lambda>b. b = 0) bs) = be_val bs"
  by (induction bs) (auto simp: be_val_Cons)

lemma byte_high_bit: "b AND 0x80 \<noteq> 0 \<longleftrightarrow> 0x80 \<le> (b :: byte)"
proof -
  have "b AND 0x80 \<noteq> 0 \<longleftrightarrow> bit b 7"
    using and_exp_eq_0_iff_not_bit[of b 7] by simp
  also have "\<dots> \<longleftrightarrow> odd (unat b div 128)"
  proof -
    have "bit (unat b) 7 \<longleftrightarrow> bit b 7"
      by (simp add: bit_simps)
    then show ?thesis
      by (simp add: bit_iff_odd)
  qed
  also have "\<dots> \<longleftrightarrow> 128 \<le> unat b"
  proof -
    have "unat b div 128 < 2"
      using unat_lt2p[of b] by simp
    then show ?thesis
      by (cases "unat b < 128") (auto simp: less_2_cases_iff)
  qed
  also have "\<dots> \<longleftrightarrow> 0x80 \<le> b"
    by (simp add: word_le_nat_alt)
  finally show ?thesis .
qed

lemma hd_drop_zeros: "dropWhile (\<lambda>b. b = 0) bs = b # rest \<Longrightarrow> b \<noteq> 0"
  using hd_dropWhile[of "\<lambda>b. b = 0" bs] by auto

text \<open>The integers of a host signature are encoded canonically: for every magnitude, with any
  number of leading zeros and its first bit set or not, what \<open>put_mpint\<close> appends is a length and
  exactly that many bytes, which are the shortest encoding of the same number with a clear sign bit,
  as an ssh-agent demands.\<close>

theorem mpint_canonical:
  assumes "length magnitude < 2 ^ 32 - 1"
  shows "\<exists>body. put_mpint buf magnitude = buf @ lp_bytes body \<and> length body < 2 ^ 32 \<and> is_mpint body (be_val magnitude)"
proof -
  let ?t = "dropWhile (\<lambda>b. b = 0) magnitude"
  let ?pad = "case ?t of [] \<Rightarrow> False | b # _ \<Rightarrow> b AND 0x80 \<noteq> 0"
  let ?body = "(if ?pad then [0] else []) @ ?t"
  have "put_mpint buf magnitude = buf @ lp_bytes ?body"
    by (simp add: put_mpint_def lp_bytes_def Let_def add.commute)
  moreover have "length ?body < 2 ^ 32"
    using assms length_dropWhile_le[of "\<lambda>b. b = 0" magnitude] by auto
  moreover have "is_mpint ?body (be_val magnitude)"
  proof (cases ?t)
    case Nil
    then have "?body = []" "be_val magnitude = 0"
      using be_val_drop_zeros[of magnitude] by (simp_all only: list.case if_False append.simps be_val_Nil)
    then show ?thesis
      by (simp only: is_mpint_def list.case be_val_Nil)
  next
    case (Cons b rest)
    with hd_drop_zeros[OF Cons] be_val_drop_zeros[of magnitude] show ?thesis
      by (auto simp: is_mpint_def be_val_Cons byte_high_bit)
  qed
  ultimately show ?thesis
    by blast
qed

theorem mpint_canonical_witness:
  "put_mpint [] [0, 0x80, 1] = lp_bytes [0, 0x80, 1] \<and> is_mpint [0, 0x80, 1] 32769"
proof -
  have val: "put_mpint [] [0, 0x80, 1] = [0, 0, 0, 3, 0, 0x80, 1]" "be_val [0, 0x80, 1 :: byte] = 32769"
    by code_simp+
  obtain body where body: "put_mpint [] [0, 0x80, 1] = [] @ lp_bytes body" "is_mpint body (be_val [0, 0x80, 1])"
    using mpint_canonical[of "[0, 0x80, 1]" "[]"] by auto
  have "drop 4 (lp_bytes body) = body"
    by (simp add: lp_bytes_def)
  then have "body = drop 4 [0, 0, 0, 3, 0, 0x80, 1]"
    using body(1) val(1) by (metis append_Nil)
  then have "body = [0, 0x80, 1]"
    by simp
  with body val(2) show ?thesis
    by simp
qed

text \<open>The message that binds a forwarded agent connection to the session is the one OpenSSH
  defines: an agent that reads it finds the extension's name, the host key, the session's identifier
  and the signature, in this order and exactly as given, then the mark of a forwarded connection and
  nothing more.\<close>

theorem session_bind_message:
  assumes "length (sb_host_key bind) < 2 ^ 32" "length (sb_session_id bind) < 2 ^ 32" "length (sb_signature bind) < 2 ^ 32"
  shows "\<exists>rest1 rest2 rest3.
     bind_body bind = SSH_AGENTC_EXTENSION # lp_bytes (as_bytes SESSION_BIND_EXTENSION) @ rest1 \<and>
     read_agent_string rest1 = Inr (sb_host_key bind, rest2) \<and>
     read_agent_string rest2 = Inr (sb_session_id bind, rest3) \<and>
     read_agent_string rest3 = Inr (sb_signature bind, [1])"
proof -
  have read: "read_agent_string (lp_bytes x @ r) = Inr (x, r)" if "length x < 2 ^ 32" for x r
    using that by (simp add: read_agent_string_def read_agent_u32_def lp_bytes_def unat_length_u32)
  have bind_eq: "bind_body bind = SSH_AGENTC_EXTENSION # lp_bytes (as_bytes SESSION_BIND_EXTENSION)
      @ lp_bytes (sb_host_key bind) @ lp_bytes (sb_session_id bind) @ lp_bytes (sb_signature bind) @ [1]"
    by (simp add: bind_body_def put_string_def lp_bytes_def)
  let ?r3 = "lp_bytes (sb_signature bind) @ [1]"
  let ?r2 = "lp_bytes (sb_session_id bind) @ ?r3"
  let ?r1 = "lp_bytes (sb_host_key bind) @ ?r2"
  show ?thesis
    using read[OF assms(1), of ?r2] read[OF assms(2), of ?r3] read[OF assms(3), of "[1]"]
    by (intro exI[of _ ?r1] exI[of _ ?r2] exI[of _ ?r3] conjI) (simp_all only: bind_eq)
qed

theorem session_bind_message_witness:
  "\<exists>rest1 rest2 rest3.
     bind_body \<lparr>sb_host_key = [1, 2], sb_session_id = [3], sb_signature = []\<rparr>
       = SSH_AGENTC_EXTENSION # lp_bytes (as_bytes SESSION_BIND_EXTENSION) @ rest1 \<and>
     read_agent_string rest1 = Inr ([1, 2], rest2) \<and> read_agent_string rest2 = Inr ([3], rest3) \<and>
     read_agent_string rest3 = Inr ([], [1])"
  using session_bind_message[of "\<lparr>sb_host_key = [1, 2], sb_session_id = [3], sb_signature = []\<rparr>"] by simp

section \<open>Facts about the socket\<close>

lemma agent_socket_path_in_dir:
  "agent_socket_path temp_dir nonce pid = agent_socket_dir temp_dir nonce @ ''/agent.'' @ show_nat pid"
proof -
  let ?name = "''hush-'' @ hex_encode nonce"
  have "last (agent_socket_dir temp_dir nonce) = last ?name"
    by (simp add: agent_socket_dir_def join_def has_root_def)
  moreover have "CHR ''/'' \<notin> set ?name"
    using hex_encode_chars by auto
  then have "last ?name \<noteq> CHR ''/''"
    by (metis append_is_Nil_conv last_in_set list.distinct(1))
  moreover have "agent_socket_dir temp_dir nonce \<noteq> []"
    by (simp add: agent_socket_dir_def join_def)
  ultimately show ?thesis
    by (simp add: agent_socket_path_def join_def has_root_def starts_with_def)
qed

lemma remove_dir_all_fresh:
  assumes "fs dir = None" "\<forall>p. starts_with (dir @ ''/'') p \<longrightarrow> fs p = None"
    and "\<And>p. p \<noteq> dir \<Longrightarrow> \<not> starts_with (dir @ ''/'') p \<Longrightarrow> fs'' p = fs p"
  shows "remove_dir_all dir fs'' = fs"
  using assms by (auto simp: remove_dir_all_def fun_eq_iff)

text \<open>Left alone, the making of a session's agent socket is all or nothing: when it succeeds there
  is one new directory with mode 0700 and in it one socket with mode 0600, both of the session's user,
  and nothing else has changed; when any of its steps fails, everything is as it was.\<close>

theorem agent_socket_all_or_nothing:
  fixes temp_dir nonce
  defines "dir \<equiv> agent_socket_dir temp_dir nonce"
  assumes "fs dir = None \<Longrightarrow> \<forall>p. starts_with (dir @ ''/'') p \<longrightarrow> fs p = None"
    and "bind_agent_socket (\<lambda>_ fs. fs) fail server_ids umask_mode (Some nonce) temp_dir pid owner fs = (fs', r)"
  shows "case r of
       Inl _ \<Rightarrow> fs' = fs
     | Inr (d, s) \<Rightarrow>
         d = dir \<and> fs dir = None \<and>
         (let ids = (case owner of None \<Rightarrow> server_ids | Some ids \<Rightarrow> ids)
          in fs' = fs(d \<mapsto> ADir ids 0x1C0, s \<mapsto> ASocket ids 0x180))"
proof -
  let ?x = "''agent.'' @ show_nat pid"
  have sock: "agent_socket_path temp_dir nonce pid = dir @ CHR ''/'' # ?x"
    by (simp add: agent_socket_path_in_dir dir_def)
  have run: "bind_agent_socket (\<lambda>_ fs. fs) fail server_ids umask_mode (Some nonce) temp_dir pid owner fs
      = os_bind (in_context (''create agent socket dir '' @ dir)
                         (nth_call (\<lambda>_ fs. fs) fail 0 (create_node (ADir server_ids 0x1C0) dir))) (\<lambda>_ fs.
                case bind_socket_in_dir (\<lambda>_ fs. fs) fail server_ids umask_mode dir (dir @ CHR ''/'' # ?x) owner fs of
                  (fs, Inr _) \<Rightarrow> (fs, Inr (dir, dir @ CHR ''/'' # ?x))
                | (fs, Inl err) \<Rightarrow> (remove_dir_all dir fs, Inl err)) fs"
    by (simp only: bind_agent_socket_def option.case Let_def sock dir_def[symmetric])
  show ?thesis
  proof (cases "fail 0 = None \<and> fs dir = None")
    case False
    with assms(3) show ?thesis
      unfolding run
      by (cases "fail 0") (auto simp: os_bind_def in_context_def nth_call_def create_node_def with_context_def io_res_def)
  next
    case True
    then have fresh: "fs dir = None" "\<forall>p. starts_with (dir @ ''/'') p \<longrightarrow> fs p = None"
      using assms(2) by auto
    have none: "fs (dir @ CHR ''/'' # ?x) = None"
      using fresh(2) by (auto simp: starts_with_iff)
    have under: "starts_with (dir @ ''/'') (dir @ CHR ''/'' # x)" for x
      by (simp add: starts_with_iff)
    obtain x where x: "x = ?x"
      by blast
    have eqs: "fs' = fst (bind_agent_socket (\<lambda>_ fs. fs) fail server_ids umask_mode (Some nonce) temp_dir pid owner fs)"
      "r = snd (bind_agent_socket (\<lambda>_ fs. fs) fail server_ids umask_mode (Some nonce) temp_dir pid owner fs)"
      using assms(3) by simp_all
    show ?thesis
      using True none unfolding eqs run bind_socket_in_dir_def x[symmetric]
      by (cases "fail 1"; cases "fail 2"; cases owner; cases "fail 3"; cases "fail 4")
        (auto simp: os_bind_def in_context_def nth_call_def create_node_def on_node_def follow_def os_return_def
          set_mode_def set_owner_def Let_def fun_upd_twist under intro!: remove_dir_all_fresh[OF fresh])
  qed
qed


theorem agent_socket_all_or_nothing_witness:
  "bind_agent_socket (\<lambda>_ fs. fs) (\<lambda>_. None) (0, 0) 0x1ED (Some [1]) ''/tmp'' 7 (Some (1000, 100)) Map.empty
     = ([''/tmp/hush-01'' \<mapsto> ADir (1000, 100) 0x1C0, ''/tmp/hush-01/agent.7'' \<mapsto> ASocket (1000, 100) 0x180],
        Inr (''/tmp/hush-01'', ''/tmp/hush-01/agent.7'')) \<and>
   fst (bind_agent_socket (\<lambda>_ fs. fs) (\<lambda>i. if i = 4 then Some not_found else None) (0, 0) 0x1ED (Some [1]) ''/tmp'' 7
     (Some (1000, 100)) Map.empty) = Map.empty"
proof -
  have names: "agent_socket_dir ''/tmp'' [1] = ''/tmp/hush-01''" "agent_socket_path ''/tmp'' [1] 7 = ''/tmp/hush-01/agent.7''"
    by code_simp+
  let ?ok = "bind_agent_socket (\<lambda>_ fs. fs) (\<lambda>_. None) (0, 0) 0x1ED (Some [1]) ''/tmp'' 7 (Some (1000, 100)) Map.empty"
  let ?bad = "bind_agent_socket (\<lambda>_ fs. fs) (\<lambda>i. if i = 4 then Some not_found else None) (0, 0) 0x1ED (Some [1]) ''/tmp'' 7
     (Some (1000, 100)) Map.empty"
  have "snd ?ok = Inr (''/tmp/hush-01'', ''/tmp/hush-01/agent.7'')" "\<exists>e. snd ?bad = Inl e"
    by (simp_all add: bind_agent_socket_def bind_socket_in_dir_def names Let_def os_bind_def in_context_def nth_call_def
        create_node_def on_node_def follow_def set_mode_def set_owner_def)
  with agent_socket_all_or_nothing[of Map.empty "''/tmp''" "[1]" "\<lambda>_. None" "(0, 0)" "0x1ED" 7 "Some (1000, 100)" "fst ?ok" "snd ?ok"]
    agent_socket_all_or_nothing[of Map.empty "''/tmp''" "[1]" "\<lambda>i. if i = 4 then Some not_found else None" "(0, 0)" "0x1ED" 7
      "Some (1000, 100)" "fst ?bad" "snd ?bad"]
  show ?thesis
    by (auto simp: names prod_eq_iff Let_def)
qed

text \<open>What a user may do to the file system through a directory of their own: remove an entry, or put
  anything of theirs in its place.\<close>

inductive user_may :: "owner \<Rightarrow> agent_fs \<Rightarrow> agent_fs \<Rightarrow> bool" where
  in_own_dir: "fs d = Some (ADir ids m) \<Longrightarrow> CHR ''/'' \<notin> set x \<Longrightarrow> n_owner n = ids \<Longrightarrow>
     user_may ids fs (fs(d @ ''/'' @ x \<mapsto> n))"
| remove_own: "fs d = Some (ADir ids m) \<Longrightarrow> CHR ''/'' \<notin> set x \<Longrightarrow> user_may ids fs (fs(d @ ''/'' @ x := None))"

text \<open>What the session's user does before the last call, once the directory is theirs.\<close>

definition redirect :: "nat \<Rightarrow> agent_fs \<Rightarrow> agent_fs" where
  "redirect i fs =
     (if i = 4 \<and> fs ''/tmp/hush-01'' = Some (ADir (1000, 100) 0x1C0)
      then fs(''/tmp/hush-01/agent.7'' \<mapsto> ALink (1000, 100) ''/etc/shadow'') else fs)"

lemma redirect_permitted: "(user_may (1000, 100))\<^sup>*\<^sup>* fs (redirect i fs)"
proof (cases "i = 4 \<and> fs ''/tmp/hush-01'' = Some (ADir (1000, 100) 0x1C0)")
  case True
  then have "user_may (1000, 100) fs (fs(''/tmp/hush-01'' @ ''/'' @ ''agent.7'' \<mapsto> ALink (1000, 100) ''/etc/shadow''))"
    by (intro in_own_dir[where m = "0x1C0"]) simp_all
  with True show ?thesis
    by (auto simp: redirect_def)
next
  case False
  then have "redirect i fs = fs"
    unfolding redirect_def by (rule if_not_P)
  then show ?thesis
    by simp
qed

text \<open>C36. A server of root can be made to give away a file.  The directory is handed to the session's
  user before the socket in it is, and the second \<open>chown\<close> follows links: by nothing but acts in the
  directory that is then theirs, the user makes the server hand them a file of root's outside it, and
  the call reports success.\<close>

theorem agent_chown_redirected:
  "\<exists>env. (\<forall>i fs. (user_may (1000, 100))\<^sup>*\<^sup>* fs (env i fs)) \<and>
     (case bind_agent_socket env (\<lambda>_. None) (0, 0) 0x1ED (Some [1]) ''/tmp'' 7 (Some (1000, 100))
             [''/etc/shadow'' \<mapsto> AFile (0, 0) 0x1A0] of
        (fs', r) \<Rightarrow> r = Inr (''/tmp/hush-01'', ''/tmp/hush-01/agent.7'') \<and>
                    fs' ''/etc/shadow'' = Some (AFile (1000, 100) 0x1A0))"
proof -
  have names: "agent_socket_dir ''/tmp'' [1] = ''/tmp/hush-01''" "agent_socket_path ''/tmp'' [1] 7 = ''/tmp/hush-01/agent.7''"
    by code_simp+
  show ?thesis
    by (intro exI[of _ redirect] conjI allI redirect_permitted)
      (simp add: bind_agent_socket_def bind_socket_in_dir_def names Let_def os_bind_def in_context_def nth_call_def
        create_node_def on_node_def follow_def set_mode_def set_owner_def redirect_def)
qed

text \<open>Before the directory is theirs, the user can do nothing to what is in it.\<close>

lemma private_dir_untouched:
  assumes "user_may ids fs fs'" "fs d = Some (ADir other m)" "other \<noteq> ids" "CHR ''/'' \<notin> set x"
  shows "fs' (d @ ''/'' @ x) = fs (d @ ''/'' @ x)"
proof -
  have same: "d' = d" if "d' @ CHR ''/'' # y = d @ CHR ''/'' # x" "CHR ''/'' \<notin> set y" for d' y
    using that assms(4) by (metis append_Cons_eq_iff append_eq_append_conv2 in_set_conv_decomp list.inject rsplit_once_Some option.inject prod.inject)
  from assms(1) show ?thesis
    by cases (use assms same in \<open>auto dest!: same\<close>)
qed

lemma agent_slots_kept:
  "run_agent_listener (free, active) evs = ((free', active'), served, r) \<Longrightarrow> free' + length active' = free + length active"
proof (induction "(free, active)" evs arbitrary: free active served r rule: run_agent_listener.induct)
  case (3 free active unix evs)
  then show ?case by (auto split: if_splits prod.splits)
next
  case (4 free active unix evs)
  show ?case
  proof (cases "unix \<in> set active")
    case True
    then have "length active = Suc (length (remove1 unix active))" using length_pos_if_in_set [OF True] by (simp add: length_remove1)
    with True 4 show ?thesis by simp
  next
    case False
    with 4 show ?thesis by simp
  qed
qed auto



end
