(* ===== verification/Roam.thy ===== *)
theory Roam
  imports Fastsock
begin

text \<open>
  \<open>hush/src/roam.rs\<close> and \<open>hush/src/netmon.rs\<close>: how a client keeps its path to the server across
  network changes.  A watcher looks at the connection's counters every second and whenever its socket
  or the network reports trouble, and moves the endpoint to a fresh socket when the path stopped
  working.  Times and durations are in nanoseconds, and the clock does not run backwards.
\<close>

section \<open>Sockets\<close>

datatype Transport = Bsd | Network

definition transport_from_env :: "bool \<Rightarrow> (string \<Rightarrow> string option) \<Rightarrow> Transport" where
  "transport_from_env macos env = (if macos \<and> env ''HUSH_NW'' \<noteq> None then Network else Bsd)"

fun pins_source_address :: "Transport \<Rightarrow> bool" where
  "pins_source_address Bsd = True"
| "pins_source_address Network = False"

definition unspecified :: "ip_addr \<Rightarrow> ip_addr" where
  "unspecified ip = (case ip of V4 _ \<Rightarrow> V4 0 | V6 _ \<Rightarrow> V6 0)"

text \<open>The calls \<open>connected_socket\<close> makes and its result.\<close>

definition connected_socket :: "(socket_call \<Rightarrow> io_error option) \<Rightarrow> socket_addr \<Rightarrow> socket_call list \<times> (io_error + unit)" where
  "connected_socket answer addr =
     (case run_calls answer [NewSocket (\<not> is_ipv4 (sa_ip addr))] of
        (calls, Inl e) \<Rightarrow> (calls, Inl e)
      | (calls, Inr _) \<Rightarrow>
          (case run_calls answer [BindTo (SocketAddr (unspecified (sa_ip addr)) 0), ConnectTo addr] of
             (bound, r) \<Rightarrow> (calls @ set_recv_buffer answer @ bound, r)))"

text \<open>\<open>nw\<close> is the result of opening a flow of Network.framework, \<open>register\<close> that of handing a socket to
  the runtime.\<close>

definition transport_open ::
  "(socket_call \<Rightarrow> io_error option) \<Rightarrow> (io_error + unit) \<Rightarrow> (socket_addr \<Rightarrow> io_error + unit) \<Rightarrow> Transport \<Rightarrow> socket_addr
     \<Rightarrow> io_error + unit" where
  "transport_open answer register nw transport addr =
     (case transport of
        Bsd \<Rightarrow> (case snd (connected_socket answer addr) of Inl e \<Rightarrow> Inl e | Inr _ \<Rightarrow> register)
      | Network \<Rightarrow> nw addr)"

text \<open>The client's \<open>try_send\<close>, from the result of its socket: whether the watcher is notified, and what
  QUIC sees.\<close>

definition client_try_send :: "io_error + unit \<Rightarrow> bool \<times> (io_error + unit)" where
  "client_try_send sent =
     (case sent of
        Inl e \<Rightarrow> if is_dead_socket_error e then (True, Inr ()) else (False, Inl e)
      | Inr _ \<Rightarrow> (False, Inr ()))"

definition preferred_source ::
  "(socket_call \<Rightarrow> io_error option) \<Rightarrow> (io_error + socket_addr) \<Rightarrow> socket_addr \<Rightarrow> io_error + ip_addr" where
  "preferred_source answer local_addr remote =
     (case answer (BindTo (SocketAddr (unspecified (sa_ip remote)) 0)) of
        Some e \<Rightarrow> Inl e
      | None \<Rightarrow>
          (case answer (ConnectTo remote) of
             Some e \<Rightarrow> Inl e
           | None \<Rightarrow> map_sum id sa_ip local_addr))"

section \<open>Network changes\<close>

text \<open>\<open>is_relevant\<close> on the BSDs; the numbers of the routing socket's messages and flags are the
  system's.\<close>

record route_constants =
  rc_newaddr :: nat
  rc_deladdr :: nat
  rc_ifinfo :: nat
  rc_add :: nat
  rc_delete :: nat
  rc_change :: nat
  rc_wascloned :: u32
  rc_llinfo :: u32

datatype os_family = BsdFamily route_constants | LinuxFamily | OtherFamily

definition i32_from_le_bytes :: "byte list \<Rightarrow> u32" where
  "i32_from_le_bytes b = u32_from_be_bytes (rev b)"

definition is_relevant :: "os_family \<Rightarrow> byte list \<Rightarrow> bool" where
  "is_relevant fam msg =
     (case fam of
        LinuxFamily \<Rightarrow> True
      | OtherFamily \<Rightarrow> False
      | BsdFamily C \<Rightarrow>
          (if length msg \<le> 3 then False
           else let kind = unat (msg ! 3)
                in if kind = rc_newaddr C \<or> kind = rc_deladdr C \<or> kind = rc_ifinfo C then True
                   else if kind = rc_add C \<or> kind = rc_delete C \<or> kind = rc_change C
                   then (if length msg < 12 then False
                         else i32_from_le_bytes (take 4 (drop 8 msg)) AND (rc_wascloned C OR rc_llinfo C) = 0)
                   else False))"

definition ENOBUFS :: int where "ENOBUFS = 105"

text \<open>
  The reads after one wake-up: whether a relevant message was among them, or an error.  \<open>None\<close> is a read
  that would block.  The rounds are the wake-ups, each with the error of waiting or its reads.
\<close>

fun drain :: "os_family \<Rightarrow> bool \<Rightarrow> (io_error + byte list) option list \<Rightarrow> io_error + bool" where
  "drain fam relevant [] = Inr relevant"
| "drain fam relevant (None # reads) = Inr relevant"
| "drain fam relevant (Some (Inr msg) # reads) =
     (if msg = [] then Inr relevant else drain fam (relevant \<or> is_relevant fam msg) reads)"
| "drain fam relevant (Some (Inl e) # reads) =
     (if raw_os_error e = Some ENOBUFS then drain fam True reads else Inl e)"

fun monitor_changed :: "os_family \<Rightarrow> (io_error + (io_error + byte list) option list) list \<Rightarrow> (io_error + unit) option" where
  "monitor_changed fam [] = None"
| "monitor_changed fam (Inl e # rounds) = Some (Inl e)"
| "monitor_changed fam (Inr reads # rounds) =
     (case drain fam False reads of
        Inl e \<Rightarrow> Some (Inl e)
      | Inr True \<Rightarrow> Some (Inr ())
      | Inr False \<Rightarrow> monitor_changed fam rounds)"

section \<open>Counters\<close>

text \<open>The counters of the QUIC library, one for each kind of frame, and how it counts; a frame stands
  without its contents, and the frames about streams with whether those are bidirectional.\<close>

record FrameStats =
  fs_acks :: u64
  fs_ack_frequency :: u64
  fs_crypto :: u64
  fs_connection_close :: u64
  fs_data_blocked :: u64
  fs_datagram :: u64
  fs_handshake_done :: byte
  fs_immediate_ack :: u64
  fs_max_data :: u64
  fs_max_stream_data :: u64
  fs_max_streams_bidi :: u64
  fs_max_streams_uni :: u64
  fs_new_connection_id :: u64
  fs_new_token :: u64
  fs_path_challenge :: u64
  fs_path_response :: u64
  fs_ping :: u64
  fs_reset_stream :: u64
  fs_retire_connection_id :: u64
  fs_stream_data_blocked :: u64
  fs_streams_blocked_bidi :: u64
  fs_streams_blocked_uni :: u64
  fs_stop_sending :: u64
  fs_stream :: u64

datatype frame =
  FrPadding | FrPing | FrAck | FrResetStream | FrStopSending | FrCrypto | FrNewToken | FrStream |
  FrMaxData | FrMaxStreamData | FrMaxStreams bool | FrDataBlocked | FrStreamDataBlocked |
  FrStreamsBlocked bool | FrNewConnectionId | FrRetireConnectionId | FrPathChallenge | FrPathResponse
  | FrClose | FrDatagram | FrAckFrequency | FrImmediateAck | FrHandshakeDone

fun record_frame :: "frame \<Rightarrow> FrameStats \<Rightarrow> FrameStats" where
  "record_frame FrPadding f = f"
| "record_frame FrPing f = f\<lparr>fs_ping := fs_ping f + 1\<rparr>"
| "record_frame FrAck f = f\<lparr>fs_acks := fs_acks f + 1\<rparr>"
| "record_frame FrResetStream f = f\<lparr>fs_reset_stream := fs_reset_stream f + 1\<rparr>"
| "record_frame FrStopSending f = f\<lparr>fs_stop_sending := fs_stop_sending f + 1\<rparr>"
| "record_frame FrCrypto f = f\<lparr>fs_crypto := fs_crypto f + 1\<rparr>"
| "record_frame FrNewToken f = f\<lparr>fs_new_token := fs_new_token f + 1\<rparr>"
| "record_frame FrStream f = f\<lparr>fs_stream := fs_stream f + 1\<rparr>"
| "record_frame FrMaxData f = f\<lparr>fs_max_data := fs_max_data f + 1\<rparr>"
| "record_frame FrMaxStreamData f = f\<lparr>fs_max_stream_data := fs_max_stream_data f + 1\<rparr>"
| "record_frame (FrMaxStreams bidi) f = (if bidi then f\<lparr>fs_max_streams_bidi := fs_max_streams_bidi f + 1\<rparr> else f\<lparr>fs_max_streams_uni := fs_max_streams_uni f + 1\<rparr>)"
| "record_frame FrDataBlocked f = f\<lparr>fs_data_blocked := fs_data_blocked f + 1\<rparr>"
| "record_frame FrStreamDataBlocked f = f\<lparr>fs_stream_data_blocked := fs_stream_data_blocked f + 1\<rparr>"
| "record_frame (FrStreamsBlocked bidi) f = (if bidi then f\<lparr>fs_streams_blocked_bidi := fs_streams_blocked_bidi f + 1\<rparr> else f\<lparr>fs_streams_blocked_uni := fs_streams_blocked_uni f + 1\<rparr>)"
| "record_frame FrNewConnectionId f = f\<lparr>fs_new_connection_id := fs_new_connection_id f + 1\<rparr>"
| "record_frame FrRetireConnectionId f = f\<lparr>fs_retire_connection_id := fs_retire_connection_id f + 1\<rparr>"
| "record_frame FrPathChallenge f = f\<lparr>fs_path_challenge := fs_path_challenge f + 1\<rparr>"
| "record_frame FrPathResponse f = f\<lparr>fs_path_response := fs_path_response f + 1\<rparr>"
| "record_frame FrClose f = f\<lparr>fs_connection_close := fs_connection_close f + 1\<rparr>"
| "record_frame FrDatagram f = f\<lparr>fs_datagram := fs_datagram f + 1\<rparr>"
| "record_frame FrAckFrequency f = f\<lparr>fs_ack_frequency := fs_ack_frequency f + 1\<rparr>"
| "record_frame FrImmediateAck f = f\<lparr>fs_immediate_ack := fs_immediate_ack f + 1\<rparr>"
| "record_frame FrHandshakeDone f = f\<lparr>fs_handshake_done := sat_add (fs_handshake_done f) 1\<rparr>"

record ConnectionStats =
  cs_frame_tx :: FrameStats
  cs_frame_rx :: FrameStats

definition ack_eliciting_frames_sent :: "ConnectionStats \<Rightarrow> u64" where
  "ack_eliciting_frames_sent stats =
     (let f = cs_frame_tx stats in
     fs_ack_frequency f + fs_crypto f + fs_data_blocked f + fs_datagram f + ucast (fs_handshake_done f) +
     fs_immediate_ack f + fs_max_data f + fs_max_stream_data f + fs_max_streams_bidi f +
     fs_max_streams_uni f + fs_new_connection_id f + fs_new_token f + fs_path_challenge f +
     fs_path_response f + fs_ping f + fs_reset_stream f + fs_retire_connection_id f +
     fs_stream_data_blocked f + fs_streams_blocked_bidi f + fs_streams_blocked_uni f + fs_stop_sending f
     + fs_stream f)"

section \<open>The decision\<close>

abbreviation secs :: "nat \<Rightarrow> nat" where "secs n \<equiv> n * 1000000000"

definition WATCH_INTERVAL :: nat where "WATCH_INTERVAL = secs 1"
definition MIN_SILENCE :: nat where "MIN_SILENCE = secs 3"
definition SILENCE_RTTS :: nat where "SILENCE_RTTS = 8"
definition MAX_HOP_BACKOFF :: nat where "MAX_HOP_BACKOFF = secs 30"
definition MIN_HOP_INTERVAL :: nat where "MIN_HOP_INTERVAL = secs 1"

record PathWatch =
  pw_acks :: u64
  pw_sent_at_last_ack :: u64
  pw_unanswered_since :: "nat option"
  pw_last_hop :: "nat option"
  pw_backoff :: nat

definition path_watch_default :: PathWatch where
  "path_watch_default =
     \<lparr>pw_acks = 0, pw_sent_at_last_ack = 0, pw_unanswered_since = None, pw_last_hop = None, pw_backoff = 0\<rparr>"

definition since_hop_at_least :: "PathWatch \<Rightarrow> nat \<Rightarrow> nat \<Rightarrow> bool" where
  "since_hop_at_least pw now d = (case pw_last_hop pw of None \<Rightarrow> True | Some hop \<Rightarrow> d \<le> now - hop)"

definition observe :: "nat \<Rightarrow> u64 \<Rightarrow> u64 \<Rightarrow> nat \<Rightarrow> PathWatch \<Rightarrow> PathWatch \<times> bool" where
  "observe now acks ack_eliciting_sent silence pw =
     (if acks \<noteq> pw_acks pw
      then (pw\<lparr>pw_acks := acks, pw_sent_at_last_ack := ack_eliciting_sent, pw_unanswered_since := None,
               pw_backoff := 0\<rparr>, False)
      else if ack_eliciting_sent = pw_sent_at_last_ack pw then (pw, False)
      else let since = (case pw_unanswered_since pw of Some s \<Rightarrow> s | None \<Rightarrow> now);
               pw = pw\<lparr>pw_unanswered_since := Some since\<rparr>
           in (pw, silence \<le> now - since \<and> since_hop_at_least pw now (pw_backoff pw)))"

definition may_hop_now :: "nat \<Rightarrow> PathWatch \<Rightarrow> bool" where
  "may_hop_now now pw = since_hop_at_least pw now MIN_HOP_INTERVAL"

definition hopped :: "nat \<Rightarrow> nat \<Rightarrow> PathWatch \<Rightarrow> PathWatch" where
  "hopped now silence pw =
     pw\<lparr>pw_last_hop := Some now, pw_backoff := min (max (pw_backoff pw * 2) silence) MAX_HOP_BACKOFF\<rparr>"

section \<open>The watcher\<close>

datatype path_event = Tick | SocketTrouble | NetworkChanged "io_error + unit"

text \<open>What the watcher finds when it is woken: whether the connection is alive, its counters, round
  trip time and peer (of a connection that is gone, nothing), the time, the source address the
  system prefers, the endpoint's own address, and whether a new socket can be opened and bound.\<close>

record wake =
  wk_event :: path_event
  wk_alive :: bool
  wk_stats :: "ConnectionStats option"
  wk_rtt :: "nat option"
  wk_remote :: "socket_addr option"
  wk_now :: nat
  wk_source :: "io_error + ip_addr"
  wk_local :: "ip_addr option"
  wk_rebind :: "io_error + unit"

datatype hop_reason = LostPath | ChangedNetwork | Unanswered

text \<open>The watcher: its decision state, whether it has a network monitor, and the number of the
  notification it listens to, each socket having its own.\<close>

record watcher =
  wa_watch :: PathWatch
  wa_monitor :: bool
  wa_trouble :: nat
  wa_sockets :: nat

definition watcher_new :: "Transport \<Rightarrow> io_error + unit \<Rightarrow> watcher" where
  "watcher_new transport monitor =
     \<lparr>wa_watch = path_watch_default,
      wa_monitor = (pins_source_address transport \<and> (case monitor of Inr _ \<Rightarrow> True | Inl _ \<Rightarrow> False)),
      wa_trouble = 0, wa_sockets = 0\<rparr>"

definition silence_for :: "nat \<Rightarrow> nat" where
  "silence_for rtt = max MIN_SILENCE (min (rtt * SILENCE_RTTS) MAX_HOP_BACKOFF)"

text \<open>Whether to hop, and why.\<close>

definition hop_decision :: "wake \<Rightarrow> ConnectionStats \<Rightarrow> nat \<Rightarrow> PathWatch \<Rightarrow> PathWatch \<times> hop_reason option" where
  "hop_decision k stats silence pw =
     (case wk_event k of
        SocketTrouble \<Rightarrow> (pw, if may_hop_now (wk_now k) pw then Some LostPath else None)
      | NetworkChanged _ \<Rightarrow>
          (case wk_source k of
             Inl _ \<Rightarrow> (pw, None)
           | Inr source \<Rightarrow>
               (pw, if wk_local k = Some source \<or> \<not> may_hop_now (wk_now k) pw then None else Some ChangedNetwork))
      | Tick \<Rightarrow>
          (case observe (wk_now k) (fs_acks (cs_frame_rx stats)) (ack_eliciting_frames_sent stats) silence pw of
             (pw, b) \<Rightarrow> (pw, if b then Some Unanswered else None)))"

text \<open>One round of the loop of \<open>watch_path\<close>: None when the watcher ends, and the hop it made.\<close>

definition watch_step :: "wake \<Rightarrow> watcher \<Rightarrow> watcher option \<times> hop_reason option" where
  "watch_step k w =
     (let w = (case wk_event k of NetworkChanged (Inl _) \<Rightarrow> w\<lparr>wa_monitor := False\<rparr> | _ \<Rightarrow> w)
      in if \<not> wk_alive k then (None, None)
         else case (wk_stats k, wk_rtt k, wk_remote k) of
                (Some stats, Some rtt, Some remote) \<Rightarrow>
                  (let silence = silence_for rtt
                   in case hop_decision k stats silence (wa_watch w) of
                        (pw, None) \<Rightarrow> (Some (w\<lparr>wa_watch := pw\<rparr>), None)
                      | (pw, Some reason) \<Rightarrow>
                          (let w = w\<lparr>wa_watch := hopped (wk_now k) silence pw, wa_sockets := wa_sockets w + 1\<rparr>
                           in (Some (case wk_rebind k of
                                       Inr _ \<Rightarrow> w\<lparr>wa_trouble := wa_sockets w\<rparr>
                                     | Inl _ \<Rightarrow> w), Some reason)))
              | _ \<Rightarrow> (None, None))"

text \<open>The hops of a run, with their times.\<close>

fun watch_path :: "watcher \<Rightarrow> wake list \<Rightarrow> (nat \<times> hop_reason) list" where
  "watch_path w [] = []"
| "watch_path w (k # ks) =
     (case watch_step k w of
        (None, _) \<Rightarrow> []
      | (Some w, None) \<Rightarrow> watch_path w ks
      | (Some w, Some reason) \<Rightarrow> (wk_now k, reason) # watch_path w ks)"

section \<open>Facts\<close>

lemmas roam_constants = MIN_SILENCE_def MAX_HOP_BACKOFF_def MIN_HOP_INTERVAL_def SILENCE_RTTS_def

lemma silence_bounds: "MIN_SILENCE \<le> silence_for rtt" "silence_for rtt \<le> MAX_HOP_BACKOFF"
  by (simp_all add: silence_for_def roam_constants)

text \<open>The state of the decision at time \<open>t\<close>: the backoff is bounded, nothing lies in the future, and
  after a hop either the backoff holds the next one off, or what is unanswered was sent later.\<close>

definition watch_inv :: "nat \<Rightarrow> PathWatch \<Rightarrow> bool" where
  "watch_inv t pw \<longleftrightarrow>
     pw_backoff pw \<le> MAX_HOP_BACKOFF \<and>
     (\<forall>s. pw_unanswered_since pw = Some s \<longrightarrow> s \<le> t) \<and>
     (\<forall>h. pw_last_hop pw = Some h \<longrightarrow> h \<le> t \<and>
        (MIN_SILENCE \<le> pw_backoff pw \<or> (\<forall>s. pw_unanswered_since pw = Some s \<longrightarrow> h \<le> s)))"

lemma watch_inv_default: "watch_inv t path_watch_default"
  by (simp add: watch_inv_def path_watch_default_def)

lemma watch_inv_later: "watch_inv t pw \<Longrightarrow> t \<le> t' \<Longrightarrow> watch_inv t' pw"
  by (fastforce simp: watch_inv_def)

lemma observe_inv: "watch_inv t pw \<Longrightarrow> t \<le> now \<Longrightarrow> watch_inv now (fst (observe now a s silence pw))"
  by (fastforce simp: watch_inv_def observe_def Let_def split: option.splits)

lemma hopped_inv: "watch_inv now pw \<Longrightarrow> MIN_SILENCE \<le> silence \<Longrightarrow> watch_inv now (hopped now silence pw)"
  by (auto simp: watch_inv_def hopped_def roam_constants)

text \<open>A hop happens no sooner than an interval after the last.\<close>

lemma observe_spaced:
  assumes "watch_inv t pw" "t \<le> now" "observe now a s silence pw = (pw', True)" "MIN_SILENCE \<le> silence"
  shows "since_hop_at_least pw now MIN_HOP_INTERVAL" "pw_last_hop pw' = pw_last_hop pw"
proof -
  have acks: "a = pw_acks pw" "s \<noteq> pw_sent_at_last_ack pw"
    using assms(3) by (auto simp: observe_def split: if_splits)
  then show "pw_last_hop pw' = pw_last_hop pw" using assms(3) by (auto simp: observe_def Let_def)
  let ?since = "case pw_unanswered_since pw of Some s \<Rightarrow> s | None \<Rightarrow> now"
  have b: "silence \<le> now - ?since" "since_hop_at_least pw now (pw_backoff pw)"
    using assms(3) acks by (auto simp: observe_def Let_def since_hop_at_least_def split: option.splits)
  show "since_hop_at_least pw now MIN_HOP_INTERVAL"
  proof (cases "pw_last_hop pw")
    case (Some h)
    from assms(1) Some consider "MIN_SILENCE \<le> pw_backoff pw" | "\<forall>s. pw_unanswered_since pw = Some s \<longrightarrow> h \<le> s"
      by (auto simp: watch_inv_def)
    then show ?thesis
    proof cases
      case 1
      then show ?thesis using b(2) Some by (simp add: since_hop_at_least_def roam_constants)
    next
      case 2
      then have "h \<le> ?since" using assms(1,2) Some by (auto simp: watch_inv_def split: option.splits)
      then show ?thesis using b(1) assms(4) Some by (simp add: since_hop_at_least_def roam_constants)
    qed
  qed (simp add: since_hop_at_least_def)
qed

lemma hop_decision_spaced:
  assumes "watch_inv t pw" "t \<le> wk_now k" "hop_decision k stats (silence_for rtt) pw = (pw', r)"
  shows "watch_inv (wk_now k) pw'" "pw_last_hop pw' = pw_last_hop pw"
    "r \<noteq> None \<Longrightarrow> since_hop_at_least pw (wk_now k) MIN_HOP_INTERVAL"
proof -
  have obs: "watch_inv (wk_now k) (fst (observe (wk_now k) a s silence pw))" for a s silence
    using observe_inv [OF assms(1,2)] .
  show "watch_inv (wk_now k) pw'"
    using assms(3) obs watch_inv_later [OF assms(1,2)]
    by (auto simp: hop_decision_def split: path_event.splits sum.splits prod.splits) (metis fst_conv)
  show "pw_last_hop pw' = pw_last_hop pw"
    using assms(3) by (auto simp: hop_decision_def observe_def Let_def split: path_event.splits sum.splits prod.splits if_splits)
  show "r \<noteq> None \<Longrightarrow> since_hop_at_least pw (wk_now k) MIN_HOP_INTERVAL"
    using assms(3) observe_spaced(1) [OF assms(1,2) _ silence_bounds(1)]
    by (auto simp: hop_decision_def may_hop_now_def split: path_event.splits sum.splits prod.splits if_splits)
qed

lemma watch_step_spaced:
  assumes "watch_inv t (wa_watch w)" "t \<le> wk_now k" "watch_step k w = (Some w', r)"
  shows "watch_inv (wk_now k) (wa_watch w')"
    "pw_last_hop (wa_watch w') = (if r = None then pw_last_hop (wa_watch w) else Some (wk_now k))"
    "r \<noteq> None \<Longrightarrow> since_hop_at_least (wa_watch w) (wk_now k) MIN_HOP_INTERVAL"
proof -
  let ?w = "case wk_event k of NetworkChanged (Inl _) \<Rightarrow> w\<lparr>wa_monitor := False\<rparr> | _ \<Rightarrow> w"
  have same: "wa_watch ?w = wa_watch w" by (simp split: path_event.splits sum.splits)
  obtain stats rtt remote where kn: "wk_alive k" "wk_stats k = Some stats" "wk_rtt k = Some rtt" "wk_remote k = Some remote"
    using assms(3) by (auto simp: watch_step_def Let_def split: option.splits if_splits)
  obtain pw r' where d: "hop_decision k stats (silence_for rtt) (wa_watch w) = (pw, r')" by fastforce
  have r: "r' = r" "wa_watch w' = (if r = None then pw else hopped (wk_now k) (silence_for rtt) pw)"
    using assms(3) kn d same
    by (auto simp: watch_step_def Let_def split: option.splits sum.splits)
  note h = hop_decision_spaced [OF assms(1,2) d]
  show "watch_inv (wk_now k) (wa_watch w')" using h(1) hopped_inv silence_bounds(1) r by auto
  show "pw_last_hop (wa_watch w') = (if r = None then pw_last_hop (wa_watch w) else Some (wk_now k))"
    using h(2) r by (simp add: hopped_def)
  show "r \<noteq> None \<Longrightarrow> since_hop_at_least (wa_watch w) (wk_now k) MIN_HOP_INTERVAL" using h(3) r by simp
qed

lemma watch_path_spaced:
  assumes "watch_inv t (wa_watch w)" "sorted (t # map wk_now ks)"
  shows "successively (\<lambda>a b. fst a + MIN_HOP_INTERVAL \<le> fst b) (watch_path w ks) \<and>
    (watch_path w ks \<noteq> [] \<longrightarrow> since_hop_at_least (wa_watch w) (fst (hd (watch_path w ks))) MIN_HOP_INTERVAL)"
  using assms
proof (induction ks arbitrary: t w)
  case (Cons k ks)
  obtain wo r where st: "watch_step k w = (wo, r)" by fastforce
  have le: "t \<le> wk_now k" and so: "sorted (wk_now k # map wk_now ks)" using Cons.prems(2) by auto
  show ?case
  proof (cases wo)
    case (Some w')
    note s = watch_step_spaced [OF Cons.prems(1) le st [unfolded Some]]
    note IH = Cons.IH [OF s(1) so]
    show ?thesis
    proof (cases r)
      case None
      then show ?thesis using IH s(2) st Some by (simp add: since_hop_at_least_def)
    next
      case (Some reason)
      with s(2) have "pw_last_hop (wa_watch w') = Some (wk_now k)" by simp
      with IH have next_hop: "watch_path w' ks \<noteq> [] \<Longrightarrow> MIN_HOP_INTERVAL \<le> fst (hd (watch_path w' ks)) - wk_now k"
        by (simp add: since_hop_at_least_def)
      have pos: "0 < MIN_HOP_INTERVAL" by (simp add: roam_constants)
      have "successively (\<lambda>a b. fst a + MIN_HOP_INTERVAL \<le> fst b) ((wk_now k, reason) # watch_path w' ks)"
        using IH next_hop pos by (cases "watch_path w' ks") auto
      then show ?thesis using s(3) Some st \<open>wo = Some w'\<close> by simp
    qed
  qed (use st in \<open>simp add: since_hop_at_least_def\<close>)
qed simp

text \<open>The watcher after some wake-ups, unless it has ended.\<close>

fun watch_run :: "watcher \<Rightarrow> wake list \<Rightarrow> watcher option" where
  "watch_run w [] = Some w"
| "watch_run w (k # ks) = Option.bind (fst (watch_step k w)) (\<lambda>w. watch_run w ks)"

lemma watch_run_inv:
  assumes "watch_inv t (wa_watch w)" "sorted (t # map wk_now ks)" "watch_run w ks = Some w'"
  shows "watch_inv (last (t # map wk_now ks)) (wa_watch w')"
  using assms
proof (induction ks arbitrary: t w)
  case (Cons k ks)
  obtain wo r where st: "watch_step k w = (wo, r)" by fastforce
  with Cons.prems(3) obtain w1 where w1: "wo = Some w1" "watch_run w1 ks = Some w'" by (cases wo) auto
  from watch_step_spaced(1) [OF Cons.prems(1) _ st [unfolded w1(1)]] Cons.prems(2)
    Cons.IH [of "wk_now k" w1] w1(2)
  show ?case by auto
qed simp

text \<open>A wake-up of a live connection that has seen no acknowledgement since the watcher's last one,
  although frames that need one were sent.\<close>

definition unanswered :: "PathWatch \<Rightarrow> wake \<Rightarrow> bool" where
  "unanswered pw k \<longleftrightarrow> wk_alive k \<and> wk_rtt k \<noteq> None \<and> wk_remote k \<noteq> None \<and>
     (case wk_stats k of
        None \<Rightarrow> False
      | Some stats \<Rightarrow> fs_acks (cs_frame_rx stats) = pw_acks pw \<and>
          ack_eliciting_frames_sent stats \<noteq> pw_sent_at_last_ack pw)"

lemma unansweredE:
  assumes "unanswered pw k"
  obtains stats rtt remote where "wk_alive k" "wk_stats k = Some stats" "wk_rtt k = Some rtt" "wk_remote k = Some remote"
    "fs_acks (cs_frame_rx stats) = pw_acks pw" "ack_eliciting_frames_sent stats \<noteq> pw_sent_at_last_ack pw"
  using assms by (auto simp: unanswered_def split: option.splits)

text \<open>The watch since time \<open>t\<close>: something is unanswered at least since then, and no hop came later.\<close>

definition waiting_since :: "nat \<Rightarrow> PathWatch \<Rightarrow> bool" where
  "waiting_since t pw \<longleftrightarrow>
     (\<exists>s \<le> t. pw_unanswered_since pw = Some s) \<and> (\<forall>h. pw_last_hop pw = Some h \<longrightarrow> h \<le> t) \<and>
     pw_backoff pw \<le> MAX_HOP_BACKOFF"

lemma quiet_step:
  assumes "unanswered (wa_watch w) k" "watch_step k w = (wo, None)"
  shows "\<exists>w'. wo = Some w' \<and> pw_acks (wa_watch w') = pw_acks (wa_watch w) \<and>
    pw_sent_at_last_ack (wa_watch w') = pw_sent_at_last_ack (wa_watch w) \<and>
    pw_last_hop (wa_watch w') = pw_last_hop (wa_watch w) \<and> pw_backoff (wa_watch w') = pw_backoff (wa_watch w) \<and>
    pw_unanswered_since (wa_watch w') =
      (case pw_unanswered_since (wa_watch w) of
         Some s \<Rightarrow> Some s | None \<Rightarrow> if wk_event k = Tick then Some (wk_now k) else None)"
proof -
  obtain stats rtt remote where k: "wk_alive k" "wk_stats k = Some stats" "wk_rtt k = Some rtt" "wk_remote k = Some remote"
    "fs_acks (cs_frame_rx stats) = pw_acks (wa_watch w)" "ack_eliciting_frames_sent stats \<noteq> pw_sent_at_last_ack (wa_watch w)"
    using assms(1) by (rule unansweredE)
  let ?w = "case wk_event k of NetworkChanged (Inl _) \<Rightarrow> w\<lparr>wa_monitor := False\<rparr> | _ \<Rightarrow> w"
  have same: "wa_watch ?w = wa_watch w" by (simp split: path_event.splits sum.splits)
  obtain pw r where d: "hop_decision k stats (silence_for rtt) (wa_watch w) = (pw, r)" by fastforce
  have "r = None" "wo = Some (?w\<lparr>wa_watch := pw\<rparr>)"
    using assms(2) k d same by (auto simp: watch_step_def Let_def split: option.splits)
  with d k show ?thesis
    by (auto simp: hop_decision_def observe_def Let_def split: path_event.splits sum.splits option.splits prod.splits if_splits)
qed

lemma waiting_tick_hops:
  assumes "unanswered (wa_watch w) k" "wk_event k = Tick" "waiting_since t (wa_watch w)" "t + MAX_HOP_BACKOFF \<le> wk_now k"
  shows "\<exists>w'. watch_step k w = (Some w', Some Unanswered)"
proof -
  obtain stats rtt remote where k: "wk_alive k" "wk_stats k = Some stats" "wk_rtt k = Some rtt" "wk_remote k = Some remote"
    "fs_acks (cs_frame_rx stats) = pw_acks (wa_watch w)" "ack_eliciting_frames_sent stats \<noteq> pw_sent_at_last_ack (wa_watch w)"
    using assms(1) by (rule unansweredE)
  from assms(3) obtain s where s: "s \<le> t" "pw_unanswered_since (wa_watch w) = Some s" by (auto simp: waiting_since_def)
  have "silence_for rtt \<le> wk_now k - s" using silence_bounds(2) [of rtt] s(1) assms(4) by linarith
  moreover have "since_hop_at_least (wa_watch w) (wk_now k) (pw_backoff (wa_watch w))"
    using assms(3,4) by (fastforce simp: waiting_since_def since_hop_at_least_def split: option.splits)
  ultimately have "snd (hop_decision k stats (silence_for rtt) (wa_watch w)) = Some Unanswered"
    using k s(2) assms(2)
    by (auto simp: hop_decision_def observe_def Let_def since_hop_at_least_def split: option.splits)
  then show ?thesis using k assms(2)
    by (auto simp: watch_step_def Let_def split: prod.splits sum.splits)
qed

lemma waiting_path_hops:
  assumes "\<forall>k \<in> set (ks @ [k']). unanswered (wa_watch w) k" "waiting_since t (wa_watch w)"
    "wk_event k' = Tick" "t + MAX_HOP_BACKOFF \<le> wk_now k'"
  shows "watch_path w (ks @ [k']) \<noteq> []"
  using assms
proof (induction ks arbitrary: w)
  case Nil
  then obtain w' where "watch_step k' w = (Some w', Some Unanswered)" using waiting_tick_hops [of w k' t] by auto
  then show ?case by simp
next
  case (Cons k ks)
  obtain wo r where st: "watch_step k w = (wo, r)" by fastforce
  show ?case
  proof (cases r)
    case None
    with st quiet_step [of w k wo] Cons.prems(1) obtain w' where w': "wo = Some w'"
      "pw_acks (wa_watch w') = pw_acks (wa_watch w)"
      "pw_sent_at_last_ack (wa_watch w') = pw_sent_at_last_ack (wa_watch w)"
      "pw_last_hop (wa_watch w') = pw_last_hop (wa_watch w)" "pw_backoff (wa_watch w') = pw_backoff (wa_watch w)"
      "pw_unanswered_since (wa_watch w') =
        (case pw_unanswered_since (wa_watch w) of
           Some s \<Rightarrow> Some s | None \<Rightarrow> if wk_event k = Tick then Some (wk_now k) else None)"
      by auto
    have "waiting_since t (wa_watch w')" using Cons.prems(2) w' by (auto simp: waiting_since_def)
    moreover have "unanswered (wa_watch w') = unanswered (wa_watch w)"
      using w'(2,3) by (auto simp: fun_eq_iff unanswered_def split: option.splits)
    ultimately have "watch_path w' (ks @ [k']) \<noteq> []" using Cons.IH [of w'] Cons.prems by auto
    then show ?thesis using st None w'(1) by simp
  next
    case (Some reason)
    have "wo \<noteq> None" using st Some by (auto simp: watch_step_def Let_def split: option.splits if_splits prod.splits)
    then show ?thesis using st Some by auto
  qed
qed

text \<open>What the counters count: the frames that need an acknowledgement.\<close>

definition needs_ack :: "frame \<Rightarrow> bool" where
  "needs_ack f = (f \<noteq> FrPadding \<and> f \<noteq> FrAck \<and> f \<noteq> FrClose)"

lemma record_frame_counts:
  assumes "f = FrHandshakeDone \<Longrightarrow> fs_handshake_done tx \<noteq> - 1"
  shows "ack_eliciting_frames_sent \<lparr>cs_frame_tx = record_frame f tx, cs_frame_rx = rx\<rparr> =
    ack_eliciting_frames_sent \<lparr>cs_frame_tx = tx, cs_frame_rx = rx'\<rparr> + (if needs_ack f then 1 else 0)"
proof (cases "f = FrHandshakeDone")
  case True
  with assms have "fs_handshake_done tx \<noteq> - 1" by simp
  then have "unat (fs_handshake_done tx) \<noteq> unat (- 1 :: byte)" by (simp add: word_unat_eq_iff)
  moreover have "unat (- 1 :: byte) = 255" by code_simp
  ultimately have "unat (fs_handshake_done tx) \<noteq> 255" by simp
  then have "unat (fs_handshake_done tx) + 1 < 2 ^ 8" using unat_lt2p [of "fs_handshake_done tx"] by simp
  then have s: "sat_add (fs_handshake_done tx) 1 = fs_handshake_done tx + 1"
    and n: "unat (fs_handshake_done tx + 1) = unat (fs_handshake_done tx) + 1"
    using unat_add_lem [of "fs_handshake_done tx" 1] by (simp_all add: sat_add_def)
  have up: "(ucast b :: u64) = word_of_nat (unat b)" for b :: byte by simp
  have "(ucast (fs_handshake_done tx + 1) :: u64) = ucast (fs_handshake_done tx) + 1"
    unfolding up n by simp
  with s show ?thesis using True by (simp add: ack_eliciting_frames_sent_def Let_def needs_ack_def)
qed (cases f; simp add: ack_eliciting_frames_sent_def Let_def needs_ack_def)

section \<open>Properties\<close>

text \<open>C21. A client never hops in a frenzy: however the network behaves and whatever its socket and the
  system report, two hops of the watcher are at least a second apart.\<close>

theorem hops_spaced:
  assumes "sorted (map wk_now ks)"
  shows "successively (\<lambda>a b. fst a + MIN_HOP_INTERVAL \<le> fst b) (watch_path (watcher_new transport monitor) ks)"
proof -
  have "sorted (0 # map wk_now ks)" using assms by simp
  then show ?thesis
    using watch_path_spaced [of 0 "watcher_new transport monitor" ks] watch_inv_default
    by (simp add: watcher_new_def)
qed

definition example_stats :: "u64 \<Rightarrow> u64 \<Rightarrow> ConnectionStats" where
  "example_stats acks sent =
     (let zero = FrameStats.make 0 0 0 0 0 0 0 0 0 0 0 0 0 0 0 0 0 0 0 0 0 0 0 0
      in \<lparr>cs_frame_tx = zero\<lparr>fs_stream := sent\<rparr>, cs_frame_rx = zero\<lparr>fs_acks := acks\<rparr>\<rparr>)"

definition example_wake :: "path_event \<Rightarrow> nat \<Rightarrow> wake" where
  "example_wake ev now =
     \<lparr>wk_event = ev, wk_alive = True, wk_stats = Some (example_stats 0 5), wk_rtt = Some 20000000,
      wk_remote = Some (SocketAddr (V4 1) 22022), wk_now = now, wk_source = Inr (V4 2), wk_local = Some (V4 3),
      wk_rebind = Inr ()\<rparr>"

theorem hops_spaced_witness:
  "watch_path (watcher_new Bsd (Inr ())) [example_wake Tick 0, example_wake SocketTrouble (secs 2),
      example_wake (NetworkChanged (Inr ())) (secs 2 + 5), example_wake Tick (secs 6)] =
     [(secs 2, LostPath), (secs 6, Unanswered)] \<and> secs 2 + MIN_HOP_INTERVAL \<le> secs 6"
proof -
  let ?ks = "[example_wake Tick 0, example_wake SocketTrouble (secs 2),
      example_wake (NetworkChanged (Inr ())) (secs 2 + 5), example_wake Tick (secs 6)]"
  have hops: "watch_path (watcher_new Bsd (Inr ())) ?ks = [(secs 2, LostPath), (secs 6, Unanswered)]" by code_simp
  have "sorted (map wk_now ?ks)" by (simp add: example_wake_def)
  from hops_spaced [OF this, of Bsd "Inr ()"] hops show ?thesis by simp
qed



end
