(* ===== verification/Connect.thy ===== *)
theory Connect
  imports Roam "HOL-Library.Multiset"
begin

text \<open>
  \<open>hush/src/net.rs\<close>: connecting to the first address of a host that answers.  The attempts run side by
  side, a new one starting when the delay is over or none is left running; what happens to them is a
  script of events.
\<close>

section \<open>Order of the addresses\<close>

fun interleave :: "'a list \<Rightarrow> 'a list \<Rightarrow> 'a list" where
  "interleave [] [] = []"
| "interleave (p # ps) [] = p # interleave ps []"
| "interleave [] (f # fs) = f # interleave [] fs"
| "interleave (p # ps) (f # fs) = p # f # interleave ps fs"

definition happy_eyeballs_order :: "socket_addr list \<Rightarrow> socket_addr list" where
  "happy_eyeballs_order addrs =
     (if addrs = [] then addrs
      else interleave (filter (\<lambda>a. \<not> is_ipv4 (sa_ip a)) addrs) (filter (\<lambda>a. is_ipv4 (sa_ip a)) addrs))"

section \<open>One attempt\<close>

text \<open>\<open>socket\<close>, \<open>endpoint\<close>, \<open>start\<close> and \<open>handshake\<close> are the results of opening the socket, of making the
  endpoint, of starting the connection and of its handshake.  A connection that is made gets its
  watcher.\<close>

definition connected_endpoint :: "string \<Rightarrow> string \<Rightarrow> io_error + unit \<Rightarrow> io_error + unit \<Rightarrow> unit res" where
  "connected_endpoint addr transport socket endpoint =
     and_then (with_context (''open '' @ transport @ '' socket to '' @ addr) (io_res socket)) (\<lambda>_. io_res endpoint)"

definition connect_attempt ::
  "string \<Rightarrow> string \<Rightarrow> string \<Rightarrow> io_error + unit \<Rightarrow> io_error + unit \<Rightarrow> unit res \<Rightarrow> 'c res \<Rightarrow> ('c \<Rightarrow> 'c) \<Rightarrow> 'c res" where
  "connect_attempt addr label transport socket endpoint start handshake keep_path =
     and_then (connected_endpoint addr transport socket endpoint) (\<lambda>_.
     and_then (with_context (''start QUIC connect to '' @ addr @ '' for '' @ label) start) (\<lambda>_.
     and_then (with_context (''connect to '' @ addr @ '' for '' @ label) handshake) (\<lambda>conn.
       Inr (keep_path conn))))"

section \<open>All attempts\<close>

text \<open>An attempt of an address that ended, with its result or the error of its task, or the delay before
  the next attempt being over.\<close>

datatype 'c connect_event = Ended socket_addr "error + 'c res" | DelayOver

text \<open>The addresses tried and the attempts that failed are kept as a log.\<close>

record attempts =
  at_pending :: "socket_addr list"
  at_running :: "socket_addr list"
  at_delay :: bool
  at_last_err :: "error option"
  at_tried :: "socket_addr list"
  at_failed :: "(socket_addr \<times> error) list"

text \<open>Starting the next attempt; whether there is a delay to wait for afterwards depends on whether more
  addresses are left.\<close>

definition start_next :: "attempts \<Rightarrow> attempts" where
  "start_next s =
     (case at_pending s of
        [] \<Rightarrow> s\<lparr>at_delay := False\<rparr>
      | a # rest \<Rightarrow> s\<lparr>at_pending := rest, at_running := at_running s @ [a], at_delay := rest \<noteq> [],
                        at_tried := at_tried s @ [a]\<rparr>)"

definition attempts_start :: "socket_addr list \<Rightarrow> attempts" where
  "attempts_start addrs =
     start_next \<lparr>at_pending = happy_eyeballs_order addrs, at_running = [], at_delay = False, at_last_err = None,
                 at_tried = [], at_failed = []\<rparr>"

text \<open>What an event does while attempts are running: the connection, if one was made.  An event that
  cannot happen (the end of an attempt that is not running, a delay that is not waited for) does
  nothing.\<close>

definition attempt_failed :: "socket_addr \<Rightarrow> error \<Rightarrow> attempts \<Rightarrow> attempts" where
  "attempt_failed a err s = s\<lparr>at_last_err := Some err, at_failed := at_failed s @ [(a, err)]\<rparr>"

fun on_event :: "'c connect_event \<Rightarrow> attempts \<Rightarrow> attempts \<times> 'c option" where
  "on_event (Ended a r) s =
     (if a \<notin> set (at_running s) then (s, None)
      else let s = s\<lparr>at_running := remove1 a (at_running s)\<rparr>
           in (case r of
                 Inr (Inr conn) \<Rightarrow> (s, Some conn)
               | Inr (Inl err) \<Rightarrow> (attempt_failed a err s, None)
               | Inl err \<Rightarrow> (attempt_failed a err s, None)))"
| "on_event DelayOver s = (if at_delay s then start_next s else s, None)"

definition loop_top :: "attempts \<Rightarrow> attempts" where
  "loop_top s = (if at_running s = [] then start_next s else s)"

definition exhausted :: "attempts \<Rightarrow> bool" where
  "exhausted s = (at_running s = [] \<and> at_pending s = [])"

definition give_up :: "string \<Rightarrow> attempts \<Rightarrow> error" where
  "give_up label s =
     (case at_last_err s of Some e \<Rightarrow> e | None \<Rightarrow> Bail (''connect to '' @ label @ '': no attempts completed''))"

fun connect_loop :: "string \<Rightarrow> attempts \<Rightarrow> 'c connect_event list \<Rightarrow> attempts \<times> 'c res option" where
  "connect_loop label s [] =
     (if exhausted s then (s, Some (Inl (give_up label s))) else (loop_top s, None))"
| "connect_loop label s (ev # evs) =
     (if exhausted s then (s, Some (Inl (give_up label s)))
      else case on_event ev (loop_top s) of
             (s, Some conn) \<Rightarrow> (s, Some (Inr conn))
           | (s, None) \<Rightarrow> connect_loop label s evs)"

definition connect_any_inner ::
  "string \<Rightarrow> u16 \<Rightarrow> io_error + socket_addr list \<Rightarrow> 'c connect_event list \<Rightarrow> attempts \<times> 'c res option" where
  "connect_any_inner host port lookup evs =
     (let label = host @ '':'' @ show_nat (unat port)
      in case with_context (''resolve '' @ label) (io_res lookup) of
           Inl e \<Rightarrow> (attempts_start [], Some (Inl e))
         | Inr addrs \<Rightarrow>
             if addrs = [] then (attempts_start [], Some (Inl (Bail (''resolve '' @ label @ '': no addresses''))))
             else connect_loop label (attempts_start addrs) evs)"

text \<open>The events are those of the first minute.\<close>

definition connect_any ::
  "string \<Rightarrow> u16 \<Rightarrow> io_error + socket_addr list \<Rightarrow> 'c connect_event list \<Rightarrow> 'c res" where
  "connect_any host port lookup evs =
     (case snd (connect_any_inner host port lookup evs) of
        Some r \<Rightarrow> r
      | None \<Rightarrow> Inl (Bail (''connect to '' @ host @ '':'' @ show_nat (unat port) @ '': timed out after 60s'')))"

section \<open>Facts\<close>

lemma interleave_filters:
  "\<forall>p \<in> set ps. P p \<Longrightarrow> \<forall>f \<in> set fs. \<not> P f \<Longrightarrow>
     filter P (interleave ps fs) = ps \<and> filter (\<lambda>x. \<not> P x) (interleave ps fs) = fs"
  by (induction ps fs rule: interleave.induct) auto

lemma interleave_mset: "mset (interleave ps fs) = mset ps + mset fs"
  by (induction ps fs rule: interleave.induct) auto

lemma interleave_alternates:
  "i < length ps \<Longrightarrow> i < length fs \<Longrightarrow> interleave ps fs ! (2 * i) = ps ! i \<and> interleave ps fs ! (2 * i + 1) = fs ! i"
proof (induction ps fs arbitrary: i rule: interleave.induct)
  case (4 p ps f fs)
  then show ?case by (cases i) auto
qed auto

lemma happy_eyeballs_mset: "mset (happy_eyeballs_order addrs) = mset addrs"
  by (simp add: happy_eyeballs_order_def interleave_mset)

text \<open>What the attempts keep: every address is left or was tried, in order, and those that were tried
  are running or failed, the last failure being kept.\<close>

definition attempts_inv :: "socket_addr list \<Rightarrow> attempts \<Rightarrow> bool" where
  "attempts_inv order s \<longleftrightarrow>
     at_tried s @ at_pending s = order \<and>
     mset (at_tried s) = mset (at_running s) + mset (map fst (at_failed s)) \<and>
     at_last_err s = (if at_failed s = [] then None else Some (snd (last (at_failed s))))"

lemma start_next_inv: "attempts_inv order s \<Longrightarrow> attempts_inv order (start_next s)"
  by (auto simp: attempts_inv_def start_next_def split: list.splits)

lemma loop_top_inv: "attempts_inv order s \<Longrightarrow> attempts_inv order (loop_top s)"
  by (simp add: loop_top_def start_next_inv)

lemma attempts_start_inv: "attempts_inv (happy_eyeballs_order addrs) (attempts_start addrs)"
  unfolding attempts_start_def by (rule start_next_inv) (simp add: attempts_inv_def)

lemma attempt_failed_inv:
  assumes "attempts_inv order s" "a \<in> set (at_running s)"
  shows "attempts_inv order (attempt_failed a err (s\<lparr>at_running := remove1 a (at_running s)\<rparr>))"
  using assms by (auto simp: attempts_inv_def attempt_failed_def)

lemma on_event_inv:
  assumes "attempts_inv order s" "on_event ev s = (s', None)"
  shows "attempts_inv order s'"
  using assms
  by (cases ev) (auto simp: start_next_inv Let_def attempt_failed_inv split: if_splits sum.splits)

lemma on_event_conn:
  assumes "on_event ev s = (s', Some conn)"
  shows "\<exists>a. ev = Ended a (Inr (Inr conn)) \<and> a \<in> set (at_running s) \<and>
    at_tried s' = at_tried s \<and> at_pending s' = at_pending s"
  using assms by (cases ev) (auto simp: Let_def split: if_splits sum.splits)

lemma connect_loop_failed:
  assumes "attempts_inv order s" "connect_loop label s evs = (s', Some (Inl e))" "order \<noteq> []"
  shows "at_tried s' = order \<and> mset (map fst (at_failed s')) = mset order \<and> e = snd (last (at_failed s'))"
proof -
  have ended: "at_tried s' = order \<and> mset (map fst (at_failed s')) = mset order \<and> e = snd (last (at_failed s'))"
    if "attempts_inv order s'" "exhausted s'" "e = give_up label s'" for s' and e :: error
    using that assms(3) by (auto simp: attempts_inv_def exhausted_def give_up_def)
  show ?thesis using assms(1,2)
  proof (induction evs arbitrary: s)
    case Nil
    then show ?case using ended by (auto split: if_splits)
  next
    case (Cons ev evs)
    obtain s1 c where ev: "on_event ev (loop_top s) = (s1, c)" by fastforce
    show ?case
    proof (cases "exhausted s")
      case True
      then show ?thesis using Cons.prems ended by auto
    next
      case False
      then have "c = None" "connect_loop label s1 evs = (s', Some (Inl e))"
        using Cons.prems(2) ev by (auto split: option.splits)
      then show ?thesis using Cons.IH [of s1] on_event_inv [OF loop_top_inv [OF Cons.prems(1)], of ev s1] ev by simp
    qed
  qed
qed

lemma connect_loop_made:
  assumes "attempts_inv order s" "connect_loop label s evs = (s', Some (Inr conn))"
  shows "\<exists>a \<in> set (at_tried s'). Ended a (Inr (Inr conn)) \<in> set evs \<and> (\<exists>rest. order = at_tried s' @ rest)"
  using assms
proof (induction evs arbitrary: s)
  case (Cons ev evs)
  obtain s1 c where ev: "on_event ev (loop_top s) = (s1, c)" by fastforce
  have ex: "\<not> exhausted s" using Cons.prems(2) by auto
  note inv = loop_top_inv [OF Cons.prems(1)]
  show ?case
  proof (cases c)
    case None
    then have "connect_loop label s1 evs = (s', Some (Inr conn))" using Cons.prems(2) ev ex by simp
    then show ?thesis using Cons.IH [of s1] on_event_inv [OF inv, of ev s1] ev None by auto
  next
    case (Some conn')
    then have s': "s' = s1" "conn' = conn" using Cons.prems(2) ev ex by auto
    from on_event_conn [OF ev [unfolded Some]] obtain a where a: "ev = Ended a (Inr (Inr conn'))"
      "a \<in> set (at_running (loop_top s))" "at_tried s1 = at_tried (loop_top s)" by blast
    have "set (at_running (loop_top s)) \<subseteq> set (at_tried (loop_top s))"
      using inv by (metis attempts_inv_def mset_subset_eq_add_left set_mset_mono set_mset_mset)
    moreover have "order = at_tried (loop_top s) @ at_pending (loop_top s)" using inv by (simp add: attempts_inv_def)
    ultimately show ?thesis using a s' by auto
  qed
qed (auto split: if_splits)

text \<open>The events that happen: the end of a running attempt, a delay that is waited for.\<close>

fun happens :: "'c connect_event \<Rightarrow> attempts \<Rightarrow> bool" where
  "happens (Ended a r) s = (a \<in> set (at_running s))"
| "happens DelayOver s = at_delay s"

fun happening :: "attempts \<Rightarrow> 'c connect_event list \<Rightarrow> nat" where
  "happening s [] = 0"
| "happening s (ev # evs) =
     (if exhausted s then 0
      else (if happens ev (loop_top s) then 1 else 0) +
           (case on_event ev (loop_top s) of (s, Some _) \<Rightarrow> 0 | (s, None) \<Rightarrow> happening s evs))"

definition work :: "attempts \<Rightarrow> nat" where
  "work s = 2 * length (at_pending s) + length (at_running s)"

definition delay_ok :: "attempts \<Rightarrow> bool" where
  "delay_ok s = (at_delay s \<longrightarrow> at_pending s \<noteq> [])"

lemma start_next_work: "work (start_next s) \<le> work s" "at_pending s \<noteq> [] \<Longrightarrow> work (start_next s) < work s" "delay_ok (start_next s)"
  by (auto simp: work_def start_next_def delay_ok_def split: list.splits)

lemma loop_top_work: "work (loop_top s) \<le> work s" "delay_ok s \<Longrightarrow> delay_ok (loop_top s)"
  by (simp_all add: loop_top_def start_next_work)

lemma on_event_work:
  assumes "on_event ev s = (s', c)" "delay_ok s"
  shows "work s' + (if happens ev s then 1 else 0) \<le> work s \<and> delay_ok s'"
proof (cases ev)
  case (Ended a r)
  have "0 < length (at_running s)" if "a \<in> set (at_running s)" using that by (cases "at_running s") auto
  then show ?thesis using assms Ended
    by (auto simp: work_def delay_ok_def attempt_failed_def Let_def length_remove1 split: if_splits sum.splits)
next
  case DelayOver
  then show ?thesis using assms start_next_work [of s] by (auto simp: delay_ok_def split: if_splits)
qed

lemma happening_bounded: "delay_ok s \<Longrightarrow> happening s evs \<le> work s"
proof (induction evs arbitrary: s)
  case (Cons ev evs)
  obtain s1 c where ev: "on_event ev (loop_top s) = (s1, c)" by fastforce
  from on_event_work [OF this] loop_top_work [of s] Cons.prems Cons.IH [of s1]
  show ?case by (auto simp: ev split: option.splits)
qed simp

lemma connect_loop_waiting: "connect_loop label s evs = (s', None) \<Longrightarrow> at_running s' \<noteq> []"
proof (induction evs arbitrary: s)
  case Nil
  then show ?case by (auto simp: exhausted_def loop_top_def start_next_def split: if_splits list.splits)
qed (auto split: if_splits prod.splits option.splits)

section \<open>Properties\<close>


definition example_addrs :: "socket_addr list" where
  "example_addrs = [SocketAddr (V4 1) 443, SocketAddr (V4 2) 443, SocketAddr (V6 1) 443]"


text \<open>Connecting makes progress: while there is no result some attempt is running, and the loop ends
  after at most twice as many events (attempts that end, delays that are over) as there are addresses.\<close>

theorem connect_progress:
  assumes "addrs \<noteq> []"
  shows "happening (attempts_start addrs) evs \<le> 2 * length addrs \<and>
    (snd (connect_any_inner host port (Inr addrs) evs) = None \<longrightarrow>
       at_running (fst (connect_any_inner host port (Inr addrs) evs)) \<noteq> [])"
proof -
  let ?s0 = "\<lparr>at_pending = happy_eyeballs_order addrs, at_running = [], at_delay = False, at_last_err = None,
       at_tried = [], at_failed = []\<rparr>"
  have "length (happy_eyeballs_order addrs) = length addrs" by (metis happy_eyeballs_mset size_mset)
  then have "work (attempts_start addrs) \<le> 2 * length addrs"
    using start_next_work(1) [of ?s0] by (simp add: attempts_start_def work_def)
  moreover have "delay_ok (attempts_start addrs)" by (simp add: attempts_start_def start_next_work)
  ultimately have "happening (attempts_start addrs) evs \<le> 2 * length addrs" using happening_bounded le_trans by blast
  moreover have "at_running (fst (connect_loop label (attempts_start addrs) evs)) \<noteq> []"
    if "snd (connect_loop label (attempts_start addrs) evs) = None" for label
    using that connect_loop_waiting by (metis prod.collapse)
  ultimately show ?thesis using assms by (simp add: connect_any_inner_def io_res_def)
qed

theorem connect_progress_witness:
  "happening (attempts_start example_addrs) [DelayOver, DelayOver, DelayOver :: unit connect_event] \<le> 6"
proof -
  have "length example_addrs = 3" "example_addrs \<noteq> []" by (simp_all add: example_addrs_def)
  with connect_progress [of example_addrs "[DelayOver, DelayOver, DelayOver]" "''h''" 1] show ?thesis by simp
qed

end
