(* ===== verification/Client.thy ===== *)
theory Client
  imports Cli ClientSession Tls Forwarding Agent Connect
begin

text \<open>
  \<open>hush/src/main.rs\<close>: the client.  Resolving a target against ssh_config and connecting, the forwards of
  a session, the streams the server may open, and the session that is asked for.
\<close>

section \<open>Connecting\<close>

fun host_trust :: "bool \<Rightarrow> HostTrust" where
  "host_trust insecure = (if insecure then Insecure else Tofu)"

fun agent_socket :: "IdentityAgent option \<Rightarrow> AgentSocket" where
  "agent_socket None = AgentDefault"
| "agent_socket (Some IaDisabled) = AgentDisabled"
| "agent_socket (Some (IaSocket path)) = AgentSocketPath path"

text \<open>The arguments of \<open>connect\<close>.\<close>

record connect_request =
  cr_target :: Target
  cr_port :: "u16 option"
  cr_data_dir :: "string option"
  cr_identity_file :: "string option"
  cr_trust :: HostTrust
  cr_passphrase :: Passphrase
  cr_profile :: TransportProfile

text \<open>
  What the client finds around it: its configuration file and environment, the libraries, and the
  network: \<open>ce_certs\<close> are the certificates that the servers at the addresses of a host present, in the
  order in which their handshakes get that far, and \<open>ce_refused\<close> the error when none does.
\<close>

record ('k, 'p) client_env =
  ce_ssh :: ssh_config_env
  ce_read :: "string \<Rightarrow> string option"
  ce_username :: string
  ce_default_data_dir :: string
  ce_lib :: "'k ssh_lib"
  ce_priv :: "('k, 'p) priv_lib"
  ce_io :: io_env
  ce_toml :: toml_lib
  ce_rcgen :: rcgen_lib
  ce_tls_accepts :: "byte list \<Rightarrow> byte list \<Rightarrow> unit res"
  ce_sha256 :: "byte list \<Rightarrow> string"
  ce_io_text :: "io_error \<Rightarrow> string"
  ce_certs :: "string \<Rightarrow> u16 \<Rightarrow> byte list list"
  ce_refused :: "string \<Rightarrow> u16 \<Rightarrow> error"

record resolved =
  rs_user :: string
  rs_host :: string
  rs_port :: u16
  rs_data_dir :: string
  rs_identity_file :: "string option"
  rs_agent :: AgentSocket

definition or_else :: "'a option \<Rightarrow> 'a option \<Rightarrow> 'a option" where
  "or_else a b = (case a of Some x \<Rightarrow> Some x | None \<Rightarrow> b)"

definition unwrap_or :: "'a option \<Rightarrow> 'a \<Rightarrow> 'a" where
  "unwrap_or a d = (case a of Some x \<Rightarrow> x | None \<Rightarrow> d)"

definition resolve_target :: "('k, 'p) client_env \<Rightarrow> connect_request \<Rightarrow> SshHostConfig \<Rightarrow> resolved" where
  "resolve_target E req cfg =
     \<lparr>rs_user = unwrap_or (or_else (tg_user (cr_target req)) (shc_user cfg)) (ce_username E),
      rs_host = unwrap_or (shc_hostname cfg) (tg_host (cr_target req)),
      rs_port = unwrap_or (or_else (or_else (cr_port req) (tg_port (cr_target req))) (shc_port cfg)) DEFAULT_PORT,
      rs_data_dir = unwrap_or (cr_data_dir req) (ce_default_data_dir E),
      rs_identity_file = or_else (cr_identity_file req) (shc_identity_file cfg),
      rs_agent = agent_socket (shc_identity_agent cfg)\<rparr>"

text \<open>The handshakes of \<open>connect_any\<close>: each server's certificate is shown to the verifier of the
  configuration; the first that is accepted is the connection, which is known by its certificate.\<close>

fun handshakes ::
  "('k, 'p) client_env \<Rightarrow> TofuServerVerifier \<Rightarrow> error \<Rightarrow> byte list list \<Rightarrow> byte list action" where
  "handshakes E v err [] w = (w, Inl err)"
| "handshakes E v err (cert # certs) w =
     (case verify_server_cert (ce_toml E) (ce_sha256 E) (ce_io_text E) v cert w of
        (w, v, Inr _) \<Rightarrow> (w, Inr cert)
      | (w, v, Inl text) \<Rightarrow> handshakes E v (Foreign text) certs w)"

definition connect :: "('k, 'p) client_env \<Rightarrow> connect_request \<Rightarrow> (SshHostConfig \<times> byte list) action" where
  "connect E req =
     andthen (return (read_ssh_config (ce_ssh E) (ce_read E) (tg_host_alias (cr_target req)))) (\<lambda>cfg.
       let rs = resolve_target E req cfg in
       andthen (return (load_identity_with_options (ce_lib E) (ce_priv E) (ce_io E) (rs_identity_file rs) (rs_agent rs)
           (cr_passphrase req))) (\<lambda>identity.
       andthen (make_client_config (ce_toml E) (ce_rcgen E) (ce_lib E) (ce_tls_accepts E) (rs_data_dir rs)
           (host_key (rs_host rs) (rs_port rs)) identity (rs_user rs) (cr_trust req) (cr_profile req)) (\<lambda>config.
       andthen (handshakes E (cc_verifier config) (ce_refused E (rs_host rs) (rs_port rs))
           (ce_certs E (rs_host rs) (rs_port rs))) (\<lambda>cert. return (Inr (cfg, cert))))))"

section \<open>Agent forwarding\<close>

record AgentForwardContext =
  af_socket :: string
  af_host_key :: "byte list option"
  af_session_id :: "byte list option"

definition agent_bind :: "AgentForwardContext \<Rightarrow> byte list \<Rightarrow> SessionBind option" where
  "agent_bind ctx signature =
     (if signature = [] then None
      else Option.bind (af_host_key ctx) (\<lambda>hk. Option.bind (af_session_id ctx) (\<lambda>sid.
             Some \<lparr>sb_host_key = hk, sb_session_id = sid, sb_signature = signature\<rparr>)))"

text \<open>\<open>host_blob\<close> and \<open>session_id\<close> are the results of \<open>peer_host_key_blob\<close> and \<open>session_bind_id\<close> on the
  connection.\<close>

definition agent_forward_context ::
  "(string \<Rightarrow> string option) \<Rightarrow> byte list res \<Rightarrow> byte list res \<Rightarrow> bool \<Rightarrow> ForwardAgent option \<Rightarrow> AgentForwardContext option" where
  "agent_forward_context env host_blob session_id cli_forward_agent config_forward_agent =
     (if \<not> (cli_forward_agent \<or> (case config_forward_agent of Some FaYes \<Rightarrow> True | Some (FaSocket _) \<Rightarrow> True | _ \<Rightarrow> False))
      then None
      else case or_else (case config_forward_agent of Some (FaSocket path) \<Rightarrow> Some path | _ \<Rightarrow> None) (env ''SSH_AUTH_SOCK'') of
             None \<Rightarrow> None
           | Some socket \<Rightarrow>
               Some \<lparr>af_socket = socket, af_host_key = result_ok host_blob, af_session_id = result_ok session_id\<rparr>)"

section \<open>Streams the server opens\<close>

text \<open>Whom the client contacts for a stream.\<close>

datatype contact = DialTcp TcpTarget | DialAgent string "SessionBind option"

definition serve_server_stream ::
  "(TcpTarget \<Rightarrow> io_error + 't) \<Rightarrow> (string \<Rightarrow> io_error + agent_conn) \<Rightarrow> (StreamOpen \<Rightarrow> string) \<Rightarrow> StreamOpen res
     \<Rightarrow> AgentForwardContext option \<Rightarrow> (u64 \<rightharpoonup> TcpTarget) \<Rightarrow> contact list \<times> unit res" where
  "serve_server_stream dial dial_agent dbg header agent remote_targets =
     (case header of
        Inl e \<Rightarrow> ([], Inl e)
      | Inr (RemoteTcpForward forward_id) \<Rightarrow>
          (case remote_targets forward_id of
             None \<Rightarrow> ([], Inl (Bail ''server opened an unknown remote forward''))
           | Some target \<Rightarrow>
               ([DialTcp target], and_then (serve_remote_forward_stream dial target) (\<lambda>_. Inr ())))
      | Inr (AgentForward bind_signature) \<Rightarrow>
          (case agent of
             None \<Rightarrow> ([], Inl (Bail ''server opened an agent stream but agent forwarding is not enabled''))
           | Some agent \<Rightarrow>
               ([DialAgent (af_socket agent) (agent_bind agent bind_signature)],
                and_then (serve_agent_forward_stream dial_agent (af_socket agent) (agent_bind agent bind_signature))
                  (\<lambda>_. Inr ())))
      | Inr other \<Rightarrow> ([], Inl (Bail (''unexpected server-initiated stream header: '' @ dbg other))))"

section \<open>The session\<close>

definition cli_forward_to_ssh_forward :: "ForwardArg \<Rightarrow> SshForward" where
  "cli_forward_to_ssh_forward v = ssh_forward_of v"

definition forward_target :: "SshForward \<Rightarrow> TcpTarget" where
  "forward_target fwd = \<lparr>tt_host = target_host fwd, tt_port = target_port fwd\<rparr>"

definition spawn_local_forward :: "SshForward \<Rightarrow> LocalForward" where
  "spawn_local_forward fwd =
     \<lparr>lf_listen_host = listen_host fwd, lf_listen_port = listen_port fwd, lf_target = forward_target fwd\<rparr>"

text \<open>The remote forwards of the configuration and then those of the command line, numbered from one.\<close>

definition remote_forwards :: "Args \<Rightarrow> SshHostConfig \<Rightarrow> (u64 \<times> SshForward) list" where
  "remote_forwards args cfg =
     (let fwds = shc_remote_forwards cfg @ map cli_forward_to_ssh_forward (ar_remote_forward args)
      in map (\<lambda>(index, fwd). (word_of_nat index + 1, fwd)) (zip [0..<length fwds] fwds))"

definition remote_targets :: "(u64 \<times> SshForward) list \<Rightarrow> u64 \<rightharpoonup> TcpTarget" where
  "remote_targets forwards = map_of (map (\<lambda>(forward_id, fwd). (forward_id, forward_target fwd)) forwards)"

definition local_forwards :: "Args \<Rightarrow> SshHostConfig \<Rightarrow> LocalForward list" where
  "local_forwards args cfg =
     map spawn_local_forward (shc_local_forwards cfg) @
     map (\<lambda>fwd. spawn_local_forward (cli_forward_to_ssh_forward fwd)) (ar_local_forward args)"

definition remote_forward_request :: "u64 \<Rightarrow> SshForward \<Rightarrow> StreamOpen" where
  "remote_forward_request forward_id fwd =
     OpenRemoteForward \<lparr>rf_forward_id = forward_id, rf_listen_host = listen_host fwd, rf_listen_port = listen_port fwd\<rparr>"

definition expect_ok :: "(StreamResponse \<Rightarrow> string) \<Rightarrow> StreamResponse res \<Rightarrow> unit res" where
  "expect_ok dbg frame =
     and_then frame (\<lambda>r. case r of
       RespOk \<Rightarrow> Inr ()
     | RespError err \<Rightarrow> Inl (Bail err)
     | other \<Rightarrow> Inl (Bail (''unexpected control response: '' @ dbg other)))"

text \<open>\<open>request_remote_forward\<close> on a new stream: the result of opening it and writing, and the answer.\<close>

definition request_remote_forward ::
  "(StreamResponse \<Rightarrow> string) \<Rightarrow> (StreamOpen \<Rightarrow> unit res \<times> StreamResponse res) \<Rightarrow> u64 \<Rightarrow> SshForward \<Rightarrow> unit res" where
  "request_remote_forward dbg stream forward_id fwd =
     (case stream (remote_forward_request forward_id fwd) of
        (written, answer) \<Rightarrow> and_then written (\<lambda>_. expect_ok dbg answer))"

text \<open>The loop over the remote forwards: the requests made, up to the first that fails.\<close>

fun request_loop ::
  "(StreamResponse \<Rightarrow> string) \<Rightarrow> (StreamOpen \<Rightarrow> unit res \<times> StreamResponse res) \<Rightarrow> (u64 \<times> SshForward) list
     \<Rightarrow> StreamOpen list \<times> unit res" where
  "request_loop dbg stream [] = ([], Inr ())"
| "request_loop dbg stream ((forward_id, fwd) # rest) =
     (case request_remote_forward dbg stream forward_id fwd of
        Inl e \<Rightarrow> ([remote_forward_request forward_id fwd], Inl e)
      | Inr _ \<Rightarrow> (case request_loop dbg stream rest of
                   (sent, r) \<Rightarrow> (remote_forward_request forward_id fwd # sent, r)))"

text \<open>What the client knows of its terminal when it chooses the mode of the session.\<close>

record terminal_env =
  te_stdin_tty :: bool
  te_stdout_tty :: bool
  te_term :: "string option"
  te_size :: TermSize
  te_vars :: "(string \<times> string) list"

definition open_session :: "terminal_env \<Rightarrow> Args \<Rightarrow> SshHostConfig \<Rightarrow> bool \<Rightarrow> OpenSession" where
  "open_session te args cfg agent =
     (let set_env_term = map_option ev_value (List.find (\<lambda>var. ev_key var = ''TERM'') (shc_set_env cfg));
          mode = choose_mode (ar_tty args) (ar_no_tty args) set_env_term (te_stdin_tty te) (te_stdout_tty te) (te_term te)
                   (te_size te)
      in \<lparr>os_command = ar_command args, os_use_shell = \<not> ar_no_shell args, os_mode = mode,
          os_env = ClientSession.session_env mode (te_vars te), os_set_env = shc_set_env cfg, os_forward_agent = agent\<rparr>)"

text \<open>\<open>main\<close> after the command line is parsed and until the session runs: the forwards started, the
  requests sent, and the session that is opened.\<close>

record started =
  st_local :: "LocalForward list"
  st_agent :: "AgentForwardContext option"
  st_targets :: "u64 \<rightharpoonup> TcpTarget"
  st_requests :: "StreamOpen list"

definition client_main ::
  "('k, 'p) client_env \<Rightarrow> terminal_env \<Rightarrow> unit res \<Rightarrow> (byte list \<Rightarrow> byte list res) \<Rightarrow> byte list res
     \<Rightarrow> (StreamResponse \<Rightarrow> string) \<Rightarrow> (StreamOpen \<Rightarrow> unit res \<times> StreamResponse res) \<Rightarrow> Args
     \<Rightarrow> (started \<times> OpenSession res) action" where
  "client_main E te nofile blob_of session_id dbg stream args =
     andthen (return nofile) (\<lambda>_.
     andthen (return (target_parse (ar_target args) (ar_port args))) (\<lambda>target.
     andthen (connect E \<lparr>cr_target = target, cr_port = None, cr_data_dir = ar_data_dir args,
         cr_identity_file = ar_identity_file args, cr_trust = host_trust (ar_insecure args),
         cr_passphrase = Prompt, cr_profile = Interactive\<rparr>) (\<lambda>(cfg, cert).
       let agent = agent_forward_context (env_var (ce_io E)) (blob_of cert) session_id (ar_forward_agent args)
                     (shc_forward_agent cfg);
           forwards = remote_forwards args cfg
       in case request_loop dbg stream forwards of
            (sent, r) \<Rightarrow>
              return (Inr (\<lparr>st_local = local_forwards args cfg, st_agent = agent, st_targets = remote_targets forwards,
                            st_requests = sent\<rparr>,
                           and_then r (\<lambda>_. Inr (open_session te args cfg (agent \<noteq> None))))))))"

section \<open>Facts\<close>

text \<open>All the remote forwards of a session, in the order of their numbers.\<close>

definition all_remote_forwards :: "Args \<Rightarrow> SshHostConfig \<Rightarrow> SshForward list" where
  "all_remote_forwards args cfg = shc_remote_forwards cfg @ map cli_forward_to_ssh_forward (ar_remote_forward args)"

abbreviation forward_number :: "nat \<Rightarrow> u64" where "forward_number i \<equiv> word_of_nat i + 1"

lemma remote_forwards_nth:
  "remote_forwards args cfg =
     map (\<lambda>i. (forward_number i, all_remote_forwards args cfg ! i)) [0..<length (all_remote_forwards args cfg)]"
  by (rule nth_equalityI) (simp_all add: remote_forwards_def all_remote_forwards_def Let_def)

lemma forward_number_inj:
  assumes "i < 2 ^ 64" "j < 2 ^ 64" "forward_number i = forward_number j"
  shows "i = j"
proof -
  from assms(3) have "(word_of_nat i :: u64) = word_of_nat j" by simp
  then have "unat (word_of_nat i :: u64) = unat (word_of_nat j :: u64)" by simp
  then show ?thesis using assms(1,2) by (simp add: unat_of_nat)
qed

lemma remote_targets_number:
  assumes "length (all_remote_forwards args cfg) \<le> 2 ^ 64"
  shows "remote_targets (remote_forwards args cfg) fid = Some t \<longleftrightarrow>
    (\<exists>i < length (all_remote_forwards args cfg). fid = forward_number i \<and> t = forward_target (all_remote_forwards args cfg ! i))"
proof -
  let ?n = "length (all_remote_forwards args cfg)"
  let ?l = "map (\<lambda>i. (forward_number i, forward_target (all_remote_forwards args cfg ! i))) [0..<?n]"
  have "remote_targets (remote_forwards args cfg) = map_of ?l"
    unfolding remote_targets_def remote_forwards_nth by (simp add: comp_def)
  moreover have "distinct (map fst ?l)"
    using assms forward_number_inj by (auto simp: distinct_map comp_def inj_on_def)
  ultimately show ?thesis by (auto simp: map_of_eq_Some_iff)
qed

lemma request_loop_prefix:
  "\<exists>k \<le> length forwards. fst (request_loop dbg stream forwards) =
     take k (map (\<lambda>(fid, f). remote_forward_request fid f) forwards) \<and>
     (snd (request_loop dbg stream forwards) = Inr () \<longrightarrow> k = length forwards)"
proof (induction forwards)
  case (Cons x forwards)
  obtain fid f where x: "x = (fid, f)" by fastforce
  obtain k where k: "k \<le> length forwards"
    "fst (request_loop dbg stream forwards) = take k (map (\<lambda>(fid, f). remote_forward_request fid f) forwards)"
    "snd (request_loop dbg stream forwards) = Inr () \<longrightarrow> k = length forwards" using Cons.IH by blast
  show ?case
  proof (cases "request_remote_forward dbg stream fid f")
    case (Inl e)
    then show ?thesis using x by (intro exI [of _ 1]) simp
  next
    case (Inr u)
    then show ?thesis using x k by (intro exI [of _ "Suc k"]) (auto split: prod.splits)
  qed
qed simp

section \<open>Properties\<close>

text \<open>C8. A server can make the client connect to nothing the user did not ask for.  The remote forwards of
  ssh_config and of the command line are requested in order under the numbers one, two, and so on; a
  stream the server opens under a number is connected to the target of the forward that was requested
  under it, and under any other number to nothing; a stream to the agent is connected to the user's own
  agent socket, and only when agent forwarding was asked for; no other stream is served.\<close>

theorem server_streams_confined:
  assumes "length (all_remote_forwards args cfg) \<le> 2 ^ 64"
    and "agent = agent_forward_context env host_blob session_id (ar_forward_agent args) (shc_forward_agent cfg)"
    and "serve_server_stream dial dial_agent dbg header agent (remote_targets (remote_forwards args cfg)) = (contacts, r)"
  shows "(\<exists>k. fst (request_loop dbg' stream (remote_forwards args cfg)) =
      map (\<lambda>i. remote_forward_request (forward_number i) (all_remote_forwards args cfg ! i)) [0..<k] \<and>
      k \<le> length (all_remote_forwards args cfg)) \<and>
    (\<forall>i < length (all_remote_forwards args cfg). header = Inr (RemoteTcpForward (forward_number i)) \<longrightarrow>
       contacts = [DialTcp (forward_target (all_remote_forwards args cfg ! i))]) \<and>
    (\<forall>c \<in> set contacts.
       case c of
         DialTcp t \<Rightarrow> \<exists>i < length (all_remote_forwards args cfg). header = Inr (RemoteTcpForward (forward_number i))
       | DialAgent socket bind \<Rightarrow>
           (ar_forward_agent args \<or> (\<exists>a. shc_forward_agent cfg = Some a \<and> a \<noteq> FaNo)) \<and>
           (shc_forward_agent cfg = Some (FaSocket socket) \<or> env ''SSH_AUTH_SOCK'' = Some socket) \<and>
           (\<exists>sig. header = Inr (AgentForward sig)))"
proof (intro conjI)
  let ?fs = "all_remote_forwards args cfg" and ?rf = "remote_forwards args cfg"
  obtain k where k: "k \<le> length ?rf" "fst (request_loop dbg' stream ?rf) = take k (map (\<lambda>(fid, f). remote_forward_request fid f) ?rf)"
    using request_loop_prefix by blast
  have n: "length ?rf = length ?fs" by (simp add: remote_forwards_nth)
  have "take k (map (\<lambda>(fid, f). remote_forward_request fid f) ?rf) =
      map (\<lambda>i. remote_forward_request (forward_number i) (?fs ! i)) [0..<k]"
    using k(1) n by (simp add: remote_forwards_nth take_map comp_def)
  with k n show "\<exists>k. fst (request_loop dbg' stream ?rf) =
      map (\<lambda>i. remote_forward_request (forward_number i) (?fs ! i)) [0..<k] \<and> k \<le> length ?fs" by auto
  note target = remote_targets_number [OF assms(1)]
  show "\<forall>i < length ?fs. header = Inr (RemoteTcpForward (forward_number i)) \<longrightarrow> contacts = [DialTcp (forward_target (?fs ! i))]"
  proof (intro allI impI)
    fix i
    assume i: "i < length ?fs" and h: "header = Inr (RemoteTcpForward (forward_number i))"
    from i have "remote_targets ?rf (forward_number i) = Some (forward_target (?fs ! i))" using target by blast
    with assms(3) h show "contacts = [DialTcp (forward_target (?fs ! i))]" by (simp add: serve_server_stream_def)
  qed
  show "\<forall>c \<in> set contacts.
       case c of
         DialTcp t \<Rightarrow> \<exists>i < length ?fs. header = Inr (RemoteTcpForward (forward_number i))
       | DialAgent socket bind \<Rightarrow>
           (ar_forward_agent args \<or> (\<exists>a. shc_forward_agent cfg = Some a \<and> a \<noteq> FaNo)) \<and>
           (shc_forward_agent cfg = Some (FaSocket socket) \<or> env ''SSH_AUTH_SOCK'' = Some socket) \<and>
           (\<exists>sig. header = Inr (AgentForward sig))"
  proof (cases header)
    case (Inr msg)
    show ?thesis
    proof (cases msg)
      case (RemoteTcpForward fid)
      show ?thesis
      proof (cases "remote_targets ?rf fid")
        case None
        then show ?thesis using assms(3) Inr RemoteTcpForward by (simp add: serve_server_stream_def)
      next
        case (Some t)
        then show ?thesis using assms(3) Inr RemoteTcpForward target [of fid t] by (auto simp: serve_server_stream_def)
      qed
    next
      case (AgentForward sig)
      then show ?thesis using assms(2,3) Inr
        by (auto simp: serve_server_stream_def agent_forward_context_def or_else_def
            split: option.splits if_splits ForwardAgent.splits)
    qed (use assms(3) Inr in \<open>auto simp: serve_server_stream_def\<close>)
  qed (use assms(3) in \<open>auto simp: serve_server_stream_def\<close>)
qed

definition example_args :: Args where
  "example_args =
     \<lparr>ar_verbose = False, ar_insecure = False, ar_port = None, ar_tty = False, ar_no_tty = False,
      ar_data_dir = None, ar_identity_file = None, ar_no_shell = False, ar_forward_agent = False,
      ar_local_forward = [],
      ar_remote_forward = [\<lparr>fa_listen_host = ''127.0.0.1'', fa_listen_port = 9000, fa_target_host = ''db'',
                            fa_target_port = 5432\<rparr>],
      ar_target = ''host'', ar_command = []\<rparr>"

theorem server_streams_confined_witness:
  "fst (serve_server_stream (\<lambda>_. Inr ()) (\<lambda>_. Inl (IoError NotFound None)) (\<lambda>_. [])
       (Inr (RemoteTcpForward (forward_number 0))) None (remote_targets (remote_forwards example_args default_ssh_host_config))) =
     [DialTcp \<lparr>tt_host = ''db'', tt_port = 5432\<rparr>]"
proof -
  let ?fs = "all_remote_forwards example_args default_ssh_host_config"
  obtain contacts r where s: "serve_server_stream (\<lambda>_. Inr ()) (\<lambda>_. Inl (IoError NotFound None)) (\<lambda>_. [])
       (Inr (RemoteTcpForward (forward_number 0))) None (remote_targets (remote_forwards example_args default_ssh_host_config)) =
       (contacts, r)" by fastforce
  have fs: "?fs = [\<lparr>listen_host = ''127.0.0.1'', listen_port = 9000, target_host = ''db'', target_port = 5432\<rparr>]"
    by code_simp
  have none: "None = agent_forward_context (\<lambda>_. None) (Inl (Bail [])) (Inl (Bail [])) (ar_forward_agent example_args)
      (shc_forward_agent default_ssh_host_config)" by code_simp
  have "length ?fs \<le> 2 ^ 64" by (simp add: fs)
  from server_streams_confined [OF this none s, of "\<lambda>_. []" "\<lambda>_. (Inr (), Inr RespOk)"] s
  show ?thesis by (simp add: fs forward_target_def)
qed

end
