(* ===== verification/Copy.thy ===== *)
theory Copy
  imports Client CopyServer
begin

text \<open>
  \<open>hush/src/cp.rs\<close>: the client side of \<open>hush cp\<close>.  Remote and local paths, uploads, downloads, and copies
  between two remotes relayed through the client.

  A connection is what its server makes of the streams opened on it: whether a stream can be opened and
  its request written, the bytes that arrive before an archive is sent, and those that arrive after it.
  The local file system and the archive libraries are a record \<open>copy_ops\<close>, as on the server.
\<close>

section \<open>Paths\<close>

record RemotePath =
  rp_target :: Target
  rp_path :: string

datatype CopyPath = LocalPath string | RemoteCopy RemotePath

text \<open>The loop of \<open>split_remote\<close>: the bracket depth and the text before the position.\<close>

fun split_remote_loop :: "nat \<Rightarrow> string \<Rightarrow> string \<Rightarrow> (string \<times> string) option" where
  "split_remote_loop depth before [] = None"
| "split_remote_loop depth before (c # rest) =
     (if c = CHR ''['' then split_remote_loop (depth + 1) (before @ [c]) rest
      else if c = CHR '']'' then split_remote_loop (depth - 1) (before @ [c]) rest
      else if c = CHR '':'' \<and> depth = 0 then (if before = [] then None else Some (before, rest))
      else split_remote_loop depth (before @ [c]) rest)"

definition split_remote :: "string \<Rightarrow> (string \<times> string) option" where
  "split_remote input =
     (if starts_with ''/'' input \<or> starts_with ''./'' input \<or> starts_with ''../'' input then None
      else split_remote_loop 0 [] input)"

definition parse_copy_path :: "string \<Rightarrow> u16 option \<Rightarrow> CopyPath res" where
  "parse_copy_path input port_override =
     (case split_remote input of
        Some (target, path) \<Rightarrow>
          and_then (target_parse target port_override) (\<lambda>t. Inr (RemoteCopy \<lparr>rp_target = t, rp_path = path\<rparr>))
      | None \<Rightarrow> Inr (LocalPath input))"

definition split_sources_destination :: "string list \<Rightarrow> (string list \<times> string) res" where
  "split_sources_destination paths =
     (if paths = [] then Inl (Bail ''missing destination'')
      else if butlast paths = [] then Inl (Bail ''missing source'')
      else Inr (butlast paths, last paths))"

fun is_remote :: "CopyPath \<Rightarrow> bool" where
  "is_remote (LocalPath _) = False"
| "is_remote (RemoteCopy _) = True"

definition sources_are_remote :: "CopyPath list \<Rightarrow> bool res" where
  "sources_are_remote sources =
     (let remote = is_remote (hd sources)
      in if \<not> list_all (\<lambda>source. is_remote source = remote) sources
         then Inl (Bail ''cannot mix local and remote sources'') else Inr remote)"

fun remote_entries :: "RemotePath \<Rightarrow> CopyPath list \<Rightarrow> FileCopyEntry list res" where
  "remote_entries first_remote [] = Inr []"
| "remote_entries first_remote (source # sources) =
     (case source of
        LocalPath _ \<Rightarrow> Inl (Bail ''cannot mix local and remote sources'')
      | RemoteCopy remote \<Rightarrow>
          if tg_host_alias (rp_target remote) \<noteq> tg_host_alias (rp_target first_remote)
             \<or> tg_user (rp_target remote) \<noteq> tg_user (rp_target first_remote)
             \<or> tg_port (rp_target remote) \<noteq> tg_port (rp_target first_remote)
          then Inl (Bail ''all remote sources must use the same target'')
          else and_then (entry_for_path (rp_path remote)) (\<lambda>entry.
               and_then (remote_entries first_remote sources) (\<lambda>entries. Inr (entry # entries))))"

definition remote_source_entries :: "CopyPath list \<Rightarrow> (RemotePath \<times> FileCopyEntry list) res" where
  "remote_source_entries sources =
     (case hd sources of
        LocalPath _ \<Rightarrow> Inl (Bail ''copy source must be remote'')
      | RemoteCopy first_remote \<Rightarrow>
          and_then (remote_entries first_remote sources) (\<lambda>entries. Inr (first_remote, entries)))"

definition copy_limits :: "CpArgs \<Rightarrow> FileCopyLimits" where
  "copy_limits args =
     \<lparr>max_bytes = unwrap_or (cp_max_bytes args) DEFAULT_MAX_FILE_COPY_BYTES,
      max_entries = unwrap_or (cp_max_entries args) DEFAULT_MAX_FILE_COPY_ENTRIES\<rparr>"

definition progress_name :: "FileCopyEntry \<Rightarrow> string" where
  "progress_name entry =
     (let source_name = (case file_name (fe_path entry) of Some n \<Rightarrow> to_string_lossy n | None \<Rightarrow> fe_path entry)
      in if source_name = fe_archive_name entry then source_name
         else source_name @ '' -> '' @ fe_archive_name entry)"

section \<open>Copies\<close>

fun root_io_error :: "error \<Rightarrow> io_error option" where
  "root_io_error (Bail _) = None"
| "root_io_error (Io e) = Some e"
| "root_io_error (Foreign _) = None"
| "root_io_error (Ctx _ e) = root_io_error e"

record frame_reader =
  fr_des :: "byte list \<Rightarrow> StreamResponse res"
  fr_dbg :: "StreamResponse \<Rightarrow> string"

definition expect_copy_ready :: "frame_reader \<Rightarrow> byte list \<Rightarrow> (FileCopyPlan \<times> byte list) res" where
  "expect_copy_ready R recv =
     (case read_frame (fr_des R) io_eof recv of
        Inl err \<Rightarrow>
          (case root_io_error err of
             Some ioe \<Rightarrow>
               if io_error_kind ioe = UnexpectedEof
               then Inl (Bail ''server closed the copy stream without a response'') else Inl err
           | None \<Rightarrow> Inl err)
      | Inr (FileCopyReady plan, recv) \<Rightarrow> Inr (plan, recv)
      | Inr (RespError err, _) \<Rightarrow> Inl (Bail err)
      | Inr (other, _) \<Rightarrow> Inl (Bail (''unexpected copy response: '' @ fr_dbg R other)))"

definition expect_ok_bytes :: "frame_reader \<Rightarrow> byte list \<Rightarrow> unit res" where
  "expect_ok_bytes R recv =
     expect_ok (fr_dbg R) (and_then (read_frame (fr_des R) io_eof recv) (\<lambda>(r, _). Inr r))"

text \<open>A connection: the results of making it and of opening a stream with a request, and what arrives.\<close>

record connection =
  cx_connect :: "connect_request \<Rightarrow> unit res"
  cx_open :: "StreamOpen \<Rightarrow> unit res"
  cx_hello :: "StreamOpen \<Rightarrow> byte list"
  cx_verdict :: "StreamOpen \<Rightarrow> byte list \<Rightarrow> byte list"

definition copy_connect_request :: "CpArgs \<Rightarrow> Target \<Rightarrow> connect_request" where
  "copy_connect_request args target =
     \<lparr>cr_target = target, cr_port = cp_port args, cr_data_dir = cp_data_dir args,
      cr_identity_file = cp_identity_file args, cr_trust = host_trust (cp_insecure args),
      cr_passphrase = Prompt, cr_profile = Bulk\<rparr>"

definition upload_entry :: "CopyPath \<Rightarrow> FileCopyEntry res" where
  "upload_entry source =
     (case source of LocalPath path \<Rightarrow> entry_for_path path | RemoteCopy _ \<Rightarrow> Inl (Bail ''upload source must be local''))"

definition upload_request :: "FileCopyEntry list \<Rightarrow> RemotePath \<Rightarrow> FileCopyCompression \<Rightarrow> StreamOpen" where
  "upload_request entries destination compression =
     FileCopy \<lparr>fr_direction = Upload, fr_entries = entries, fr_destination = to_string_lossy (rp_path destination),
               fr_compression = compression\<rparr>"

definition download_request :: "FileCopyEntry list \<Rightarrow> FileCopyCompression \<Rightarrow> StreamOpen" where
  "download_request entries compression =
     FileCopy \<lparr>fr_direction = Download, fr_entries = entries, fr_destination = [], fr_compression = compression\<rparr>"

definition cp_upload ::
  "'f copy_ops \<Rightarrow> frame_reader \<Rightarrow> connection \<Rightarrow> CpArgs \<Rightarrow> FileCopyCompression \<Rightarrow> CopyPath list \<Rightarrow> RemotePath \<Rightarrow> 'f
     \<Rightarrow> unit res" where
  "cp_upload L R X args compression sources destination fs =
     and_then (collect_results upload_entry sources) (\<lambda>entries.
     and_then (cx_connect X (copy_connect_request args (rp_target destination))) (\<lambda>_.
       let request = upload_request entries destination compression in
     and_then (cx_open X request) (\<lambda>_.
     and_then (expect_copy_ready R (cx_hello X request)) (\<lambda>(plan, recv).
     and_then (validate_upload_plan entries plan) (\<lambda>_.
       case co_send L fs (fp_entries plan) compression (copy_limits args) of
         (archive, Inr _) \<Rightarrow> expect_ok_bytes R (recv @ cx_verdict X request archive)
       | (archive, Inl err) \<Rightarrow> Inl err)))))"

definition cp_download ::
  "'f copy_ops \<Rightarrow> frame_reader \<Rightarrow> connection \<Rightarrow> CpArgs \<Rightarrow> FileCopyCompression \<Rightarrow> CopyPath list \<Rightarrow> string \<Rightarrow> 'f
     \<Rightarrow> 'f \<times> unit res" where
  "cp_download L R X args compression sources destination fs =
     (case and_then (remote_source_entries sources) (\<lambda>(first_remote, entries).
           and_then (plan_for_destination (co_is_dir L fs) destination entries) (\<lambda>plan.
           and_then (cx_connect X (copy_connect_request args (rp_target first_remote))) (\<lambda>_.
             let request = download_request (fp_entries plan) compression in
           and_then (cx_open X request) (\<lambda>_.
           and_then (expect_copy_ready R (cx_hello X request)) (\<lambda>(_, recv). Inr (plan, recv)))))) of
        Inl e \<Rightarrow> (fs, Inl e)
      | Inr (plan, recv) \<Rightarrow> co_receive L recv (fp_extract_dir plan) compression (copy_limits args) fs)"

section \<open>Relaying\<close>

text \<open>
  What \<open>relay_archive\<close> reads: an error, the end, or some chunks; with chunks goes the result of writing
  them, which may fail after some bytes.  What it does to the destination's stream.
\<close>

datatype relay_read = SourceError error | SourceEnd | SourceChunks "byte list list" "(nat \<times> error) option"

datatype dest_event = DestWrite "byte list" | DestFinish | DestReset

text \<open>\<open>fin\<close> is the result of finishing the destination's stream, \<open>verdict\<close> what the destination answers
  when its stream was finished and when it was not.\<close>

fun relay_loop ::
  "FileCopyLimits \<Rightarrow> unit res \<Rightarrow> (bool \<Rightarrow> unit res) \<Rightarrow> u64 \<Rightarrow> relay_read list \<Rightarrow> dest_event list \<times> unit res option" where
  "relay_loop limits fin verdict transferred [] = ([], None)"
| "relay_loop limits fin verdict transferred (SourceError err # reads) =
     ([DestReset], Some (Inl (Ctx ''read archive from source'' err)))"
| "relay_loop limits fin verdict transferred (SourceEnd # reads) =
     (case fin of Inl e \<Rightarrow> ([], Some (Inl e)) | Inr _ \<Rightarrow> ([DestFinish], Some (verdict True)))"
| "relay_loop limits fin verdict transferred (SourceChunks chunks written # reads) =
     (let bytes = (\<Sum>chunk\<leftarrow>chunks. word_of_nat (length chunk));
          transferred = sat_add transferred bytes
      in if max_wire_bytes limits < transferred
         then ([DestReset], Some (Inl (Bail ''file copy exceeds the configured byte limit'')))
         else case written of
                Some (n, err) \<Rightarrow>
                  ([DestWrite (take n (concat chunks))],
                   Some (case verdict False of
                           Inl destination_err \<Rightarrow> Inl destination_err
                         | Inr _ \<Rightarrow> Inl (Ctx ''write archive to destination'' err)))
              | None \<Rightarrow>
                  (case relay_loop limits fin verdict transferred reads of
                     (evs, r) \<Rightarrow> (DestWrite (concat chunks) # evs, r)))"

definition relay_archive ::
  "FileCopyLimits \<Rightarrow> unit res \<Rightarrow> (bool \<Rightarrow> unit res) \<Rightarrow> relay_read list \<Rightarrow> dest_event list \<times> unit res option" where
  "relay_archive limits fin verdict reads = relay_loop limits fin verdict 0 reads"

text \<open>The part of \<open>relay\<close> that asks the source for its archive.\<close>

definition relay_source :: "frame_reader \<Rightarrow> connection \<Rightarrow> FileCopyEntry list \<Rightarrow> FileCopyCompression \<Rightarrow> unit res" where
  "relay_source R S entries compression =
     (let request = download_request entries compression
      in and_then (cx_open S request) (\<lambda>_. and_then (expect_copy_ready R (cx_hello S request)) (\<lambda>_. Inr ())))"

text \<open>\<open>D\<close> and \<open>S\<close> are the connections to the destination and to the source; \<open>reads\<close> what the source's
  stream yields for a plan.\<close>

definition cp_relay ::
  "frame_reader \<Rightarrow> connection \<Rightarrow> connection \<Rightarrow> unit res \<Rightarrow> (bool \<Rightarrow> unit res) \<Rightarrow> (FileCopyPlan \<Rightarrow> relay_read list)
     \<Rightarrow> CpArgs \<Rightarrow> FileCopyCompression \<Rightarrow> CopyPath list \<Rightarrow> RemotePath \<Rightarrow> dest_event list \<times> unit res option" where
  "cp_relay R D S fin verdict reads args compression sources destination =
     (case and_then (remote_source_entries sources) (\<lambda>(source, entries).
           and_then (cx_connect D (copy_connect_request args (rp_target destination))) (\<lambda>_.
           and_then (cx_connect S (copy_connect_request args (rp_target source))) (\<lambda>_.
             let request = upload_request entries destination compression in
           and_then (cx_open D request) (\<lambda>_.
           and_then (expect_copy_ready R (cx_hello D request)) (\<lambda>(plan, _).
           and_then (validate_upload_plan entries plan) (\<lambda>_. Inr plan)))))) of
        Inl e \<Rightarrow> ([], Some (Inl e))
      | Inr plan \<Rightarrow>
          (case relay_source R S (fp_entries plan) compression of
             Inl err \<Rightarrow> ([DestReset], Some (Inl err))
           | Inr _ \<Rightarrow> relay_archive (copy_limits args) fin verdict (reads plan)))"

section \<open>The command\<close>

text \<open>What is done for a command line, after the limit on open files was raised.\<close>

datatype copy_action =
    UploadTo "CopyPath list" RemotePath
  | DownloadTo "CopyPath list" string
  | RelayTo "CopyPath list" RemotePath

definition copy_compression :: "CpArgs \<Rightarrow> FileCopyCompression" where
  "copy_compression args = (if cp_no_compression args then NoCompression else Zstd)"

definition cp_action :: "CpArgs \<Rightarrow> copy_action res" where
  "cp_action args =
     and_then (split_sources_destination (cp_paths args)) (\<lambda>(sources, destination).
     and_then (collect_results (\<lambda>source. parse_copy_path source (cp_port args)) sources) (\<lambda>parsed_sources.
     and_then (parse_copy_path destination (cp_port args)) (\<lambda>parsed_destination.
     and_then (sources_are_remote parsed_sources) (\<lambda>remote_sources.
       case (remote_sources, parsed_destination) of
         (False, RemoteCopy remote_destination) \<Rightarrow> Inr (UploadTo parsed_sources remote_destination)
       | (True, LocalPath local_destination) \<Rightarrow> Inr (DownloadTo parsed_sources local_destination)
       | (True, RemoteCopy remote_destination) \<Rightarrow> Inr (RelayTo parsed_sources remote_destination)
       | (False, LocalPath _) \<Rightarrow> Inl (Bail ''one side of the copy must be remote'')))))"

section \<open>Facts\<close>

lemma split_remote_loop_Some:
  "split_remote_loop d before s = Some (t, p) \<longleftrightarrow>
     (\<exists>u. t = before @ u \<and> s = u @ CHR '':'' # p \<and> closed_from d u \<and> t \<noteq> [])"
proof (induction s arbitrary: d before)
  case (Cons c s)
  show ?case
  proof (cases "c = CHR '':'' \<and> d = 0")
    case True
    then show ?thesis by (auto simp: Cons_eq_append_conv)
  next
    case False
    then show ?thesis using Cons.IH by (auto simp: Cons_eq_append_conv)
  qed
qed simp

lemma split_remote_closed:
  assumes "split_remote input = Some (t, p)"
  shows "closed_from 0 t" "input = t @ CHR '':'' # p" "t \<noteq> []"
  using assms by (auto simp: split_remote_def split_remote_loop_Some split: if_splits)

lemma split_remote_plain:
  assumes "closed_from 0 t" "t \<noteq> []" "CHR ''/'' \<notin> set t"
  shows "split_remote (t @ CHR '':'' # p) = Some (t, p)"
proof -
  have slash: "\<not> starts_with ''/'' (t @ CHR '':'' # p)" using assms(2,3) by (cases t) (auto simp: starts_with_def)
  have dot: "\<not> starts_with ''./'' (t @ CHR '':'' # p)"
    using assms(2,3) by (cases t rule: list.exhaust; cases "tl t") (auto simp: starts_with_def)
  have dots: "\<not> starts_with ''../'' (t @ CHR '':'' # p)"
    using assms(2,3) by (cases t; cases "tl t"; cases "tl (tl t)") (auto simp: starts_with_def)
  show ?thesis using slash dot dots assms(1,2) by (simp add: split_remote_def split_remote_loop_Some)
qed

lemma remote_entries_collect:
  "remote_entries first sources = Inr entries \<Longrightarrow>
     \<exists>paths. collect_results entry_for_path paths = Inr entries"
proof (induction sources arbitrary: entries)
  case Nil
  have "collect_results entry_for_path [] = Inr entries" using Nil by simp
  then show ?case by blast
next
  case (Cons source sources)
  then obtain remote entry rest where r: "source = RemoteCopy remote" "entry_for_path (rp_path remote) = Inr entry"
    "remote_entries first sources = Inr rest" "entries = entry # rest"
    by (auto simp: and_then_eq_Inr split: CopyPath.splits if_splits)
  from Cons.IH [OF r(3)] obtain paths where "collect_results entry_for_path paths = Inr rest" by blast
  with r(2,4) have "collect_results entry_for_path (rp_path remote # paths) = Inr entries" by simp
  then show ?case by blast
qed

lemma upload_entries_collect:
  "collect_results upload_entry sources = Inr entries \<Longrightarrow> \<exists>paths. collect_results entry_for_path paths = Inr entries"
proof (induction sources arbitrary: entries)
  case Nil
  have "collect_results entry_for_path [] = Inr entries" using Nil by simp
  then show ?case by blast
next
  case (Cons source sources)
  then obtain entry rest where e: "upload_entry source = Inr entry"
    "collect_results upload_entry sources = Inr rest" "entries = entry # rest"
    by (auto simp: and_then_eq_Inr)
  then obtain path where r: "source = LocalPath path" "entry_for_path path = Inr entry"
    "collect_results upload_entry sources = Inr rest" "entries = entry # rest"
    by (cases source) (auto simp: upload_entry_def)
  from Cons.IH [OF r(3)] obtain paths where "collect_results entry_for_path paths = Inr rest" by blast
  with r(2,4) have "collect_results entry_for_path (path # paths) = Inr entries" by simp
  then show ?case by blast
qed

text \<open>The bytes written to the destination, and those the source delivered.\<close>

definition written_bytes :: "dest_event list \<Rightarrow> byte list" where
  "written_bytes evs = concat (map (\<lambda>e. case e of DestWrite b \<Rightarrow> b | _ \<Rightarrow> []) evs)"

text \<open>The chunks of one read fit into the memory they are in.\<close>

definition in_memory :: "relay_read \<Rightarrow> bool" where
  "in_memory r = (case r of SourceChunks chunks _ \<Rightarrow> length (concat chunks) < 2 ^ 64 | _ \<Rightarrow> True)"

lemma sum_chunk_lengths: "(\<Sum>chunk\<leftarrow>chunks. word_of_nat (length chunk)) = (word_of_nat (length (concat chunks)) :: u64)"
  by (induction chunks) simp_all

lemma sat_add_length:
  assumes "n < 2 ^ 64" "sat_add t (word_of_nat n :: u64) \<le> m"
  shows "unat (sat_add t (word_of_nat n)) \<le> unat m" "m \<noteq> - 1 \<Longrightarrow> unat (sat_add t (word_of_nat n)) = unat t + n"
proof -
  have n: "unat (word_of_nat n :: u64) = n" using assms(1) by (simp add: unat_of_nat)
  show "unat (sat_add t (word_of_nat n)) \<le> unat m" using assms(2) by (simp add: word_le_nat_alt)
  assume m: "m \<noteq> - 1"
  have "unat t + n < 2 ^ 64"
  proof (rule ccontr)
    assume "\<not> unat t + n < 2 ^ 64"
    then have "sat_add t (word_of_nat n) = - 1" using n by (simp add: sat_add_def)
    with assms(2) have "- 1 \<le> m" by simp
    with m show False by (metis word_order.extremum_uniqueI)
  qed
  then show "unat (sat_add t (word_of_nat n)) = unat t + n"
    using n unat_add_lem [of t "word_of_nat n :: u64"] by (simp add: sat_add_def)
qed

lemma relay_loop_finished:
  assumes "relay_loop limits fin verdict t reads = (evs, r)"
  shows "DestFinish \<in> set evs \<longleftrightarrow>
      (\<exists>batches rest. reads = map (\<lambda>c. SourceChunks c None) batches @ SourceEnd # rest \<and>
         evs = map (\<lambda>c. DestWrite (concat c)) batches @ [DestFinish])"
    and "r = Some (Inr ()) \<Longrightarrow> DestFinish \<in> set evs \<and> verdict True = Inr ()"
  using assms
proof (induction reads arbitrary: t evs r)
  case (Cons x reads)
  {
    case 1
    show ?case
    proof (cases x)
      case (SourceChunks chunks w)
      let ?t = "sat_add t (\<Sum>chunk\<leftarrow>chunks. word_of_nat (length chunk))"
      show ?thesis
      proof (cases "max_wire_bytes limits < ?t \<or> w \<noteq> None")
        case True
        then have "DestFinish \<notin> set evs" "w \<noteq> None \<or> evs = [DestReset]"
          using 1 SourceChunks by (auto simp: Let_def split: if_splits option.splits prod.splits)
        then show ?thesis using SourceChunks by (auto simp: Cons_eq_append_conv Cons_eq_map_conv)
      next
        case False
        then have x: "x = SourceChunks chunks None" using SourceChunks by (cases w) auto
        with False obtain evs' r' where s: "relay_loop limits fin verdict ?t reads = (evs', r')"
          and e: "evs = DestWrite (concat chunks) # evs'" using 1
          by (auto simp: Let_def split: prod.splits)
        show ?thesis unfolding e x using Cons.IH(1) [OF s]
          by (auto simp: Cons_eq_append_conv Cons_eq_map_conv)
      qed
    qed (use 1 in \<open>auto simp: Cons_eq_append_conv split: sum.splits\<close>)
  next
    case 2
    then show ?case
      using Cons.IH(2)
      by (cases x) (auto simp: Let_def split: sum.splits if_splits option.splits prod.splits)
  }
qed auto

lemma relay_loop_broken:
  "relay_loop limits fin verdict t (map (\<lambda>c. SourceChunks c None) batches @ SourceError e # rest) = (evs, r) \<Longrightarrow>
     evs \<noteq> [] \<and> last evs = DestReset"
proof (induction batches arbitrary: t evs)
  case (Cons c batches)
  let ?t = "sat_add t (\<Sum>chunk\<leftarrow>c. word_of_nat (length chunk))"
  let ?rest = "map (\<lambda>c. SourceChunks c None) batches @ SourceError e # rest"
  show ?case
  proof (cases "max_wire_bytes limits < ?t")
    case True
    then show ?thesis using Cons.prems by (auto simp: Let_def)
  next
    case False
    then obtain evs' where "relay_loop limits fin verdict ?t ?rest = (evs', r)" "evs = DestWrite (concat c) # evs'"
      using Cons.prems by (auto simp: Let_def split: prod.splits)
    then show ?thesis using Cons.IH by auto
  qed
qed auto

lemma relay_loop_broken_not_whole:
  "map (\<lambda>c. SourceChunks c None) batches @ SourceError e # rest \<noteq>
   map (\<lambda>c. SourceChunks c None) batches' @ SourceEnd # rest'"
proof (induction batches arbitrary: batches')
  case Nil
  then show ?case by (cases batches') auto
next
  case (Cons c batches)
  then show ?case by (cases batches') auto
qed

lemma relay_loop_bounded:
  assumes "relay_loop limits fin verdict t reads = (evs, r)" "list_all in_memory reads" "max_wire_bytes limits \<noteq> - 1"
    and "t \<le> max_wire_bytes limits"
  shows "unat t + length (written_bytes evs) \<le> unat (max_wire_bytes limits)"
  using assms
proof (induction reads arbitrary: t evs r)
  case (Cons x reads)
  show ?case
  proof (cases x)
    case (SourceChunks chunks w)
    let ?n = "length (concat chunks)"
    let ?t = "sat_add t (\<Sum>chunk\<leftarrow>chunks. word_of_nat (length chunk))"
    have t: "?t = sat_add t (word_of_nat ?n)" by (simp only: sum_chunk_lengths)
    have n: "?n < 2 ^ 64" using Cons.prems(2) SourceChunks by (simp add: in_memory_def)
    show ?thesis
    proof (cases "max_wire_bytes limits < ?t")
      case True
      then show ?thesis using Cons.prems(1,4) SourceChunks by (auto simp: Let_def written_bytes_def word_le_nat_alt)
    next
      case False
      then have le: "?t \<le> max_wire_bytes limits" by simp
      note sz = sat_add_length [OF n le [unfolded t]]
      show ?thesis
      proof (cases w)
        case None
        then obtain evs' r' where s: "relay_loop limits fin verdict ?t reads = (evs', r')"
          and e: "evs = DestWrite (concat chunks) # evs'"
          using Cons.prems(1) SourceChunks False by (auto simp: Let_def split: prod.splits)
        from Cons.IH [OF s _ Cons.prems(3) le] Cons.prems(2) sz(2) [OF Cons.prems(3)] t e
        show ?thesis by (simp add: written_bytes_def)
      next
        case (Some f)
        then have "written_bytes evs = take (fst f) (concat chunks)"
          using Cons.prems(1) SourceChunks False by (auto simp: Let_def written_bytes_def split: prod.splits)
        then have "length (written_bytes evs) \<le> ?n" by simp
        then show ?thesis using sz(1) sz(2) [OF Cons.prems(3)] by linarith
      qed
    qed
  qed (use Cons.prems in \<open>auto simp: written_bytes_def word_le_nat_alt split: sum.splits\<close>)
qed (auto simp: written_bytes_def word_le_nat_alt)

section \<open>Properties\<close>



text \<open>C37. The port of a remote path is never read.  The manual gives the syntax of remote paths as
  \<open>[user@]host[:port]:path\<close>, but the target of a path ends at the first colon outside brackets: for no
  text whatever is a port taken from it (only from \<open>-p\<close>), and \<open>host:2222:file\<close> names the file
  \<open>2222:file\<close> on \<open>host\<close>.\<close>

theorem remote_port_never_read:
  "(\<forall>input override remote. parse_copy_path input override = Inr (RemoteCopy remote) \<longrightarrow>
      tg_port (rp_target remote) = override) \<and>
   parse_copy_path ''host:2222:file'' None =
     Inr (RemoteCopy \<lparr>rp_target = \<lparr>tg_user = None, tg_host = ''host'', tg_host_alias = ''host'', tg_port = None\<rparr>,
                      rp_path = ''2222:file''\<rparr>)"
proof (intro conjI allI impI)
  fix input override remote
  assume "parse_copy_path input override = Inr (RemoteCopy remote)"
  then obtain t p where s: "split_remote input = Some (t, p)" "target_parse t override = Inr (rp_target remote)"
    by (auto simp: parse_copy_path_def and_then_eq_Inr split: option.splits)
  show "tg_port (rp_target remote) = override"
    using target_parse_closed [OF split_remote_closed(1) [OF s(1)] s(2)] .
qed code_simp

theorem remote_port_never_read_witness:
  "tg_port (rp_target \<lparr>rp_target = \<lparr>tg_user = Some ''me'', tg_host = ''::1'', tg_host_alias = ''::1'', tg_port = None\<rparr>,
      rp_path = ''22:f''\<rparr>) = None"
proof -
  have "parse_copy_path ''me@[::1]:22:f'' None = Inr (RemoteCopy \<lparr>rp_target = \<lparr>tg_user = Some ''me'', tg_host = ''::1'',
      tg_host_alias = ''::1'', tg_port = None\<rparr>, rp_path = ''22:f''\<rparr>)" by code_simp
  then show ?thesis using remote_port_never_read by blast
qed

text \<open>What a server that runs \<open>handle_upload_direct\<close> makes of a connection: the first frame it writes
  answers the request, the rest the archive.\<close>

definition encode_events :: "(StreamResponse \<Rightarrow> byte list res) \<Rightarrow> event list \<Rightarrow> byte list" where
  "encode_events ser evs =
     concat (map (\<lambda>e. case e of
        Frame r \<Rightarrow> (case write_frame ser vec_write [] r of Inr b \<Rightarrow> b | Inl _ \<Rightarrow> [])
      | Raw b \<Rightarrow> b
      | _ \<Rightarrow> []) evs)"

definition answers :: "'g copy_ops \<Rightarrow> string \<Rightarrow> FileCopyLimits \<Rightarrow> 'g \<Rightarrow> FileCopyRequest \<Rightarrow> byte list \<Rightarrow> event list" where
  "answers Ops user limits fs request archive = fst (handle_upload_direct Ops [] archive user request limits fs)"

definition served_by ::
  "(StreamResponse \<Rightarrow> byte list res) \<Rightarrow> 'g copy_ops \<Rightarrow> string \<Rightarrow> FileCopyLimits \<Rightarrow> 'g \<Rightarrow> connection" where
  "served_by ser Ops user limits fs =
     \<lparr>cx_connect = (\<lambda>_. Inr ()), cx_open = (\<lambda>_. Inr ()),
      cx_hello = (\<lambda>m. case m of
        FileCopy request \<Rightarrow> encode_events ser (take 1 (answers Ops user limits fs request [])) | _ \<Rightarrow> []),
      cx_verdict = (\<lambda>m archive. case m of
        FileCopy request \<Rightarrow> encode_events ser (drop 1 (answers Ops user limits fs request archive)) | _ \<Rightarrow> [])\<rparr>"

text \<open>Every answer of the server to the request can be written.\<close>

definition writable :: "(StreamResponse \<Rightarrow> byte list res) \<Rightarrow> 'g copy_ops \<Rightarrow> string \<Rightarrow> FileCopyLimits \<Rightarrow> 'g \<Rightarrow> FileCopyRequest \<Rightarrow> bool" where
  "writable ser Ops user limits fs request \<longleftrightarrow>
     (\<forall>r. co_write_fails Ops r = None) \<and>
     (\<forall>archive r. Frame r \<in> set (answers Ops user limits fs request archive) \<longrightarrow> is_ok (write_frame ser vec_write [] r))"

lemma read_encoded:
  assumes "serde_inverse ser des" "is_ok (write_frame ser vec_write [] r)"
  shows "read_frame des eof (encode_events ser [Frame r] @ rest) = Inr (r, rest)"
proof -
  obtain b where b: "write_frame ser vec_write [] r = Inr b" using assms(2) by (cases "write_frame ser vec_write [] r") auto
  from read_frame_write_frame [OF assms(1) b, of eof] have "read_frame des eof (b @ rest) = Inr (r, rest)"
    by (metis append_Nil)
  then show ?thesis by (simp add: encode_events_def b)
qed

lemma expect_copy_ready_encoded:
  assumes "serde_inverse ser (fr_des R)" "is_ok (write_frame ser vec_write [] r)"
  shows "expect_copy_ready R (encode_events ser [Frame r]) =
    (case r of FileCopyReady plan \<Rightarrow> Inr (plan, []) | RespError err \<Rightarrow> Inl (Bail err)
     | other \<Rightarrow> Inl (Bail (''unexpected copy response: '' @ fr_dbg R other)))"
  using read_encoded [OF assms, of io_eof "[]"] by (simp add: expect_copy_ready_def split: StreamResponse.splits)

lemma expect_ok_encoded:
  assumes "serde_inverse ser (fr_des R)" "is_ok (write_frame ser vec_write [] r)"
  shows "expect_ok_bytes R (encode_events ser [Frame r, Finish]) = Inr () \<longleftrightarrow> r = RespOk"
proof -
  have "encode_events ser [Frame r, Finish] = encode_events ser [Frame r] @ []" by (simp add: encode_events_def)
  then show ?thesis using read_encoded [OF assms, of io_eof "[]"]
    by (auto simp: expect_ok_bytes_def expect_ok_def split: StreamResponse.splits)
qed

text \<open>C5. Client and server agree on an upload: run against the server's handler, the client reports success
  exactly when the server could plan the copy, the client could send the archive of the planned
  entries, and the server extracted that very archive, within its limits, into the planned directory.\<close>

theorem upload_end_to_end:
  assumes "serde_inverse ser (fr_des R)"
    and "collect_results upload_entry sources = Inr entries"
    and "request = \<lparr>fr_direction = Upload, fr_entries = entries,
                    fr_destination = to_string_lossy (rp_path destination), fr_compression = compression\<rparr>"
    and "writable ser Ops user limits fs request"
  shows "cp_upload L R (served_by ser Ops user limits fs) args compression sources destination lfs = Inr () \<longleftrightarrow>
    (\<exists>plan archive fs'.
       plan_for_destination (co_is_dir Ops fs) (resolve_remote_path (co_home Ops user) (fr_destination request)) entries =
         Inr plan \<and>
       co_send L lfs (fp_entries plan) compression (copy_limits args) = (archive, Inr ()) \<and>
       co_receive Ops archive (fp_extract_dir plan) compression limits fs = (fs', Inr ()))"
proof -
  let ?X = "served_by ser Ops user limits fs"
  let ?plan = "plan_for_destination (co_is_dir Ops fs) (resolve_remote_path (co_home Ops user) (fr_destination request)) entries"
  have req: "upload_request entries destination compression = FileCopy request"
    by (simp add: upload_request_def assms(3))
  have nf: "co_write_fails Ops r = None" for r using assms(4) by (simp add: writable_def)
  have ok: "Frame r \<in> set (answers Ops user limits fs request archive) \<Longrightarrow> is_ok (write_frame ser vec_write [] r)"
    for r archive using assms(4) by (auto simp: writable_def)
  have fields: "fr_entries request = entries" "fr_compression request = compression" by (simp_all add: assms(3))
  show ?thesis
  proof (cases ?plan)
    case (Inl e)
    let ?r = "RespError (show_error (co_io_text Ops) e)"
    have a: "answers Ops user limits fs request archive = [Frame ?r, Finish]" for archive
      using Inl nf by (simp add: answers_def handle_upload_direct_def write_copy_result_def write_response_def fields)
    have "expect_copy_ready R (encode_events ser [Frame ?r]) = Inl (Bail (show_error (co_io_text Ops) e))"
      using expect_copy_ready_encoded [OF assms(1), of ?r] ok [of ?r "[]"] a by simp
    then show ?thesis using Inl by (simp add: cp_upload_def assms(2) req served_by_def a)
  next
    case (Inr plan)
    obtain paths where "collect_results entry_for_path paths = Inr entries" using upload_entries_collect [OF assms(2)] by blast
    then have valid: "validate_upload_plan entries plan = Inr ()" using honest_plan_accepted Inr by blast
    let ?v = "\<lambda>q. case q of Inr _ \<Rightarrow> RespOk | Inl e \<Rightarrow> RespError (show_error (co_io_text Ops) e)"
    have a: "answers Ops user limits fs request archive =
        [Frame (FileCopyReady plan), Frame (?v (snd (co_receive Ops archive (fp_extract_dir plan) compression limits fs))), Finish]"
      for archive using Inr nf
      by (simp add: answers_def handle_upload_direct_def write_copy_result_def write_response_def fields Let_def split: prod.splits)
    have ready: "expect_copy_ready R (encode_events ser [Frame (FileCopyReady plan)]) = Inr (plan, [])"
      using expect_copy_ready_encoded [OF assms(1), of "FileCopyReady plan"] ok [of "FileCopyReady plan" "[]"] a by simp
    have verdict: "expect_ok_bytes R (encode_events ser [Frame (?v q), Finish]) = Inr () \<longleftrightarrow> q = Inr ()"
      if "q = snd (co_receive Ops archive (fp_extract_dir plan) compression limits fs)" for q archive
    proof -
      have "is_ok (write_frame ser vec_write [] (?v q))" using ok [of "?v q" archive] a that by simp
      from expect_ok_encoded [OF assms(1) this] show ?thesis by (auto split: sum.splits)
    qed
    obtain archive s where send: "co_send L lfs (fp_entries plan) compression (copy_limits args) = (archive, s)" by fastforce
    obtain fs' q where recv: "co_receive Ops archive (fp_extract_dir plan) compression limits fs = (fs', q)" by fastforce
    have "cp_upload L R ?X args compression sources destination lfs =
        (case s of Inr _ \<Rightarrow> expect_ok_bytes R (encode_events ser [Frame (?v q), Finish]) | Inl err \<Rightarrow> Inl err)"
      by (simp add: cp_upload_def assms(2) req served_by_def a ready valid send recv split: sum.split)
    then show ?thesis using verdict [of q archive] send recv Inr by (auto split: sum.splits)
  qed
qed

definition example_plan :: FileCopyPlan where
  "example_plan = \<lparr>fp_extract_dir = ''/home/me'', fp_entries = [\<lparr>fe_path = ''a.txt'', fe_archive_name = ''b.txt''\<rparr>]\<rparr>"

definition example_response_ser :: "StreamResponse \<Rightarrow> byte list res" where
  "example_response_ser r =
     (if r = RespOk then Inr [0] else if r = FileCopyReady example_plan then Inr [1] else Inl (Bail ''other''))"

definition example_reader :: frame_reader where
  "example_reader =
     \<lparr>fr_des = (\<lambda>b. Inr (if b = [0] then RespOk else FileCopyReady example_plan)), fr_dbg = (\<lambda>_. [])\<rparr>"

definition example_cp_args :: CpArgs where
  "example_cp_args =
     \<lparr>cp_verbose = False, cp_insecure = False, cp_port = None, cp_no_compression = False, cp_data_dir = None,
      cp_identity_file = None, cp_max_bytes = None, cp_max_entries = None, cp_paths = [''a.txt'', ''host:b.txt'']\<rparr>"

definition example_destination :: RemotePath where
  "example_destination =
     \<lparr>rp_target = \<lparr>tg_user = None, tg_host = ''host'', tg_host_alias = ''host'', tg_port = None\<rparr>, rp_path = ''b.txt''\<rparr>"

theorem upload_end_to_end_witness:
  "cp_upload example_ops example_reader (served_by example_response_ser example_ops ''me'' default_file_copy_limits 0)
     example_cp_args Zstd [LocalPath ''a.txt''] example_destination 0 = Inr ()"
proof -
  let ?d = "example_destination"
  let ?request = "\<lparr>fr_direction = Upload, fr_entries = [\<lparr>fe_path = ''a.txt'', fe_archive_name = ''a.txt''\<rparr>],
     fr_destination = to_string_lossy (rp_path ?d), fr_compression = Zstd\<rparr>"
  have inv: "serde_inverse example_response_ser (fr_des example_reader)"
    by (auto simp: serde_inverse_def example_response_ser_def example_reader_def split: if_splits)
  have entries: "collect_results upload_entry [LocalPath ''a.txt''] = Inr [\<lparr>fe_path = ''a.txt'', fe_archive_name = ''a.txt''\<rparr>]"
    by code_simp
  have lossy: "to_string_lossy (rp_path ?d) = ''b.txt''" by code_simp
  have plan: "plan_for_destination (\<lambda>_. False) (resolve_remote_path ''/home/me'' ''b.txt'')
      [\<lparr>fe_path = ''a.txt'', fe_archive_name = ''a.txt''\<rparr>] = Inr example_plan" by code_simp
  have "answers example_ops ''me'' default_file_copy_limits 0 ?request archive =
      [Frame (FileCopyReady example_plan), Frame RespOk, Finish]" for archive
    using plan lossy
    by (simp add: answers_def handle_upload_direct_def example_ops_def write_copy_result_def write_response_def Let_def)
  moreover have "is_ok (write_frame example_response_ser vec_write [] r)" if "r \<in> {FileCopyReady example_plan, RespOk}" for r
    using that by (auto simp: write_frame_def example_response_ser_def write_frame_bytes_def MAX_FRAME_LEN_def)
  ultimately have "writable example_response_ser example_ops ''me'' default_file_copy_limits 0 ?request"
    by (auto simp: writable_def example_ops_def)
  from upload_end_to_end [OF inv entries refl this, of example_ops example_cp_args 0] plan lossy
  show ?thesis by (simp add: example_ops_def)
qed

end
