(* ===== verification/Complete.thy ===== *)
theory Complete
  imports Copy
begin

text \<open>
  \<open>hush/src/complete.rs\<close>: the hidden command with which a shell lists remote paths while the user is
  typing one.  It connects without changing anything on this side, runs a listing script and prints
  its output, cut after a whole line when there is too much of it.
\<close>

section \<open>Operations\<close>

definition LIST_MAX_BYTES :: nat where "LIST_MAX_BYTES = 2 ^ 20"

definition LIST_SCRIPT :: string where
  \<open>LIST_SCRIPT = concat (map (\<lambda>line. line @ [CHR 0x0A])
     [''exec 2>/dev/null'',
      ''cd || cd /'',
      ''p=$1'',
      ''case $p in "~/"*) p=${p#"~/"} ;; esac'',
      ''for f in "$p"*; do'',
      ''  n=${f##*/}'',
      ''  case $n in .|..) continue ;; esac'',
      ''  [ -e "$f" ] || [ -L "$f" ] || continue'',
      ''  [ -d "$f" ] && n=$n/'',
      ''  printf "%s'',
      ''" "$n"'',
      ''done''])\<close>

text \<open>The listing up to its last line feed.\<close>

definition cut_lines :: "byte list \<Rightarrow> byte list" where
  "cut_lines listing = rev (dropWhile (\<lambda>b. b \<noteq> 10) (rev listing))"

text \<open>The loop over the reads of the output; the result is \<open>None\<close> while it waits for the next one.\<close>

fun list_loop :: "byte list \<Rightarrow> (error + byte list option) list \<Rightarrow> byte list res option" where
  "list_loop listing [] = None"
| "list_loop listing (Inl e # reads) = Some (Inl e)"
| "list_loop listing (Inr None # reads) = Some (Inr listing)"
| "list_loop listing (Inr (Some b) # reads) =
     (let listing = listing @ b
      in if LIST_MAX_BYTES \<le> length listing then Some (Inr (cut_lines listing)) else list_loop listing reads)"

fun completion_trust :: "HostTrust \<Rightarrow> HostTrust" where
  "completion_trust Tofu = KnownOnly"
| "completion_trust trust = trust"

definition list_request :: "RemoteArgs \<Rightarrow> Target \<Rightarrow> connect_request" where
  "list_request args target =
     \<lparr>cr_target = target, cr_port = ra_port args, cr_data_dir = ra_data_dir args,
      cr_identity_file = ra_identity_file args, cr_trust = completion_trust (host_trust (ra_insecure args)),
      cr_passphrase = Refuse, cr_profile = Interactive\<rparr>"

definition list_session :: "(string \<times> string) list \<Rightarrow> string \<Rightarrow> OpenSession" where
  "list_session vars path =
     \<lparr>os_command = [''/bin/sh'', ''-c'', LIST_SCRIPT, ''sh'', path], os_use_shell = False, os_mode = Pipes,
      os_env = ClientSession.session_env Pipes vars, os_set_env = [], os_forward_agent = False\<rparr>"

text \<open>The stream of the session: the outcome of opening it with its request, the answer, and the reads after it.\<close>

record list_stream =
  ls_open :: "StreamOpen \<Rightarrow> unit res"
  ls_hello :: "StreamOpen \<Rightarrow> byte list"
  ls_reads :: "StreamOpen \<Rightarrow> (error + byte list option) list"

definition list_remote ::
  "('k, 'p) client_env \<Rightarrow> (string \<times> string) list \<Rightarrow> frame_reader \<Rightarrow> list_stream \<Rightarrow> RemoteArgs
     \<Rightarrow> world \<Rightarrow> world \<times> byte list res option" where
  "list_remote E vars R X args w =
     (case split_remote (ra_word args) of
        None \<Rightarrow> (w, Some (Inl (Bail ''not a remote path'')))
      | Some (target, path) \<Rightarrow>
          (case target_parse target (ra_port args) of
             Inl e \<Rightarrow> (w, Some (Inl e))
           | Inr target \<Rightarrow>
               (case connect E (list_request args target) w of
                  (w, Inl e) \<Rightarrow> (w, Some (Inl e))
                | (w, Inr _) \<Rightarrow>
                    (let request = Session (list_session vars path)
                     in case and_then (ls_open X request)
                               (\<lambda>_. expect_session_ready (fr_des R) io_eof (fr_dbg R) (ls_hello X request)) of
                          Inl e \<Rightarrow> (w, Some (Inl e))
                        | Inr _ \<Rightarrow> (w, list_loop [] (ls_reads X request))))))"

text \<open>
  \<open>run_remote\<close>: what is printed and how the process ends.  \<open>in_time\<close> says that the listing came before
  the timeout, \<open>wr\<close> is the outcome of writing it.
\<close>

datatype completion_end = ExitOne | Returned "unit res"

definition run_remote ::
  "('k, 'p) client_env \<Rightarrow> (string \<times> string) list \<Rightarrow> frame_reader \<Rightarrow> list_stream \<Rightarrow> bool \<Rightarrow> (byte list \<Rightarrow> io_error + unit)
     \<Rightarrow> RemoteArgs \<Rightarrow> world \<Rightarrow> world \<times> byte list \<times> completion_end" where
  "run_remote E vars R X in_time wr args w =
     (case list_remote E vars R X args w of
        (w, Some (Inr listing)) \<Rightarrow>
          if in_time then (w, listing, Returned (io_res (wr listing))) else (w, [], ExitOne)
      | (w, _) \<Rightarrow> (w, [], ExitOne))"

section \<open>Facts\<close>

lemma list_script_plain: "CHR 0x27 \<notin> set LIST_SCRIPT \<and> CHR 0x5C \<notin> set LIST_SCRIPT \<and> last LIST_SCRIPT = CHR 0x0A"
  by code_simp

lemma cut_lines_prefix:
  "\<exists>rest. listing = cut_lines listing @ rest \<and> 10 \<notin> set rest \<and> (cut_lines listing = [] \<or> last (cut_lines listing) = 10)"
proof -
  have "rev listing = takeWhile (\<lambda>b. b \<noteq> 10) (rev listing) @ dropWhile (\<lambda>b. b \<noteq> 10) (rev listing)" by simp
  then have "listing = cut_lines listing @ rev (takeWhile (\<lambda>b. b \<noteq> 10) (rev listing))"
    unfolding cut_lines_def by (metis rev_append rev_rev_ident)
  moreover have "10 \<notin> set (rev (takeWhile (\<lambda>b. b \<noteq> 10) (rev listing)))" using set_takeWhileD by fastforce
  moreover have "cut_lines listing = [] \<or> last (cut_lines listing) = 10"
    using hd_dropWhile [of "\<lambda>b. b \<noteq> 10" "rev listing"] by (auto simp: cut_lines_def last_rev)
  ultimately show ?thesis by blast
qed

text \<open>What the reads have brought.\<close>

fun arrived :: "(error + byte list option) list \<Rightarrow> byte list" where
  "arrived (Inr (Some b) # reads) = b @ arrived reads"
| "arrived _ = []"

lemma list_loop_listing:
  "list_loop acc reads = Some (Inr listing) \<Longrightarrow>
     \<exists>rest. acc @ arrived reads = listing @ rest \<and> (rest = [] \<or> listing = [] \<or> last listing = 10)"
proof (induction acc reads rule: list_loop.induct)
  case (4 acc b reads)
  show ?case
  proof (cases "LIST_MAX_BYTES \<le> length (acc @ b)")
    case True
    then have "listing = cut_lines (acc @ b)" using 4(2) by (simp add: Let_def)
    with cut_lines_prefix [of "acc @ b"] show ?thesis by (metis append.assoc arrived.simps(1))
  next
    case False
    then show ?thesis using 4 by (simp add: Let_def)
  qed
qed auto

text \<open>Reading known hosts changes no file.\<close>

definition untouched :: "'a action \<Rightarrow> bool" where
  "untouched m \<longleftrightarrow> (\<forall>w. files (fst (m w)) = files w \<and> past (fst (m w)) = past w)"

lemma untouched_andthen: "untouched m \<Longrightarrow> (\<And>x. untouched (f x)) \<Longrightarrow> untouched (andthen m f)"
  by (auto simp: untouched_def andthen_def split: prod.split sum.split) (metis fst_conv)+

lemma untouched_return: "untouched (return r)"
  by (simp add: untouched_def return_def)

lemma untouched_read_entries: "untouched (read_entries T p)"
  by (auto simp: untouched_def read_entries_def read_to_string_def open_follow_def sys_call_def Let_def
      split: prod.splits sum.splits option.splits node.splits)

lemma untouched_check:
  assumes "trust \<noteq> Tofu"
  shows "files (fst (check_or_insert T kh host fp trust w)) = files w \<and> past (fst (check_or_insert T kh host fp trust w)) = past w"
proof (cases trust)
  case KnownOnly
  obtain w1 r where r: "read_entries T (kh_path kh) w = (w1, r)" by fastforce
  then have "files w1 = files w \<and> past w1 = past w" using untouched_read_entries [of T "kh_path kh"] unfolding untouched_def by (metis fst_conv)
  then show ?thesis using KnownOnly r by (auto simp: check_or_insert_def check_existing_def split: sum.split option.split)
qed (use assms in \<open>simp_all add: check_or_insert_def\<close>)

lemma handshakes_untouched:
  assumes "tv_trust v \<noteq> Tofu"
  shows "untouched (handshakes E v err certs)"
proof -
  have "files (fst (handshakes E v err certs w)) = files w \<and> past (fst (handshakes E v err certs w)) = past w" for w
    using assms
  proof (induction certs arbitrary: v err w)
    case (Cons cert certs)
    obtain w1 v1 r where v: "verify_server_cert (ce_toml E) (ce_sha256 E) (ce_io_text E) v cert w = (w1, v1, r)"
      by (metis prod_cases3)
    have "files w1 = files w \<and> past w1 = past w \<and> tv_trust v1 = tv_trust v"
      using v untouched_check [OF Cons(2), of "ce_toml E" "tv_known_hosts v" "tv_host_key v" "cert_fingerprint (ce_sha256 E) cert" w]
      by (auto simp: verify_server_cert_def split: if_splits prod.splits)
    then show ?case using v Cons by (cases r) simp_all
  qed simp
  then show ?thesis by (simp add: untouched_def)
qed

lemma make_client_config_untouched: "untouched (make_client_config T R L acc d hk identity user trust profile)"
  unfolding make_client_config_def kh_load_def Let_def
  by (intro untouched_andthen untouched_read_entries untouched_return)

lemma make_client_config_trust:
  "make_client_config T R L acc d hk identity user trust profile w = (w', Inr config) \<Longrightarrow> tv_trust (cc_verifier config) = trust"
  by (auto simp: make_client_config_def andthen_def return_def Let_def and_then_eq_Inr split: prod.splits sum.splits IdentityKey.splits)

lemma untouched_with_config:
  assumes "trust \<noteq> Tofu" "\<And>config. tv_trust (cc_verifier config) \<noteq> Tofu \<Longrightarrow> untouched (f config)"
  shows "untouched (andthen (make_client_config T R L acc d hk identity user trust profile) f)"
proof -
  let ?m = "make_client_config T R L acc d hk identity user trust profile"
  have "files (fst (andthen ?m f w)) = files w \<and> past (fst (andthen ?m f w)) = past w" for w
  proof -
    obtain w1 r where r: "?m w = (w1, r)" by fastforce
    have w1: "files w1 = files w \<and> past w1 = past w"
      using make_client_config_untouched [of T R L acc d hk identity user trust profile] r unfolding untouched_def by (metis fst_conv)
    show ?thesis
    proof (cases r)
      case (Inr config)
      with r have "tv_trust (cc_verifier config) = trust"
        using make_client_config_trust [of T R L acc d hk identity user trust profile w w1 config] by simp
      with assms(1) have "untouched (f config)" by (intro assms(2)) simp
      then show ?thesis using r Inr w1 by (simp add: andthen_def untouched_def)
    qed (use r w1 in \<open>simp add: andthen_def\<close>)
  qed
  then show ?thesis by (simp add: untouched_def)
qed

lemma connect_untouched: "cr_trust req \<noteq> Tofu \<Longrightarrow> untouched (connect E req)"
  unfolding connect_def Let_def
  by (rule untouched_andthen [OF untouched_return] untouched_with_config | assumption
      | rule untouched_andthen [OF handshakes_untouched untouched_return])+

lemma connect_refuses_prompt:
  "cr_passphrase req = Refuse \<Longrightarrow> connect (E\<lparr>ce_io := (ce_io E)\<lparr>prompt_password := ask\<rparr>\<rparr>) req = connect E req"
proof -
  assume r: "cr_passphrase req = Refuse"
  let ?E = "E\<lparr>ce_io := (ce_io E)\<lparr>prompt_password := ask\<rparr>\<rparr>"
  have h: "handshakes ?E v err certs w = handshakes E v err certs w" for v err certs w
    by (induction certs arbitrary: v err w) (simp_all split: prod.split sum.split)
  have "handshakes ?E = handshakes E" using h by (intro ext)
  then show ?thesis unfolding connect_def by (simp add: r refuse_never_prompts resolve_target_def)
qed

text \<open>C25. Completing a remote path has no side effect on this side, whatever the word, the configuration and the servers.
  No file changes, so no host is pinned and no lock file is left.  The user is never asked for a passphrase: the result
  is the same whatever a prompt would have answered.  What is printed is what the remote script printed, all of it or the
  beginning of it up to the end of a line, and nothing at all on an error.\<close>

theorem completion_harmless:
  "case run_remote E vars R X in_time wr args w of
     (w', printed, end_) \<Rightarrow>
       files w' = files w \<and> past w' = past w \<and>
       run_remote (E\<lparr>ce_io := (ce_io E)\<lparr>prompt_password := ask\<rparr>\<rparr>) vars R X in_time wr args w = (w', printed, end_) \<and>
       (case end_ of
          ExitOne \<Rightarrow> printed = []
        | Returned _ \<Rightarrow>
            \<exists>target path rest. split_remote (ra_word args) = Some (target, path) \<and>
              arrived (ls_reads X (Session (list_session vars path))) = printed @ rest \<and>
              (rest = [] \<or> printed = [] \<or> last printed = 10))"
proof -
  have req: "cr_trust (list_request args target) \<noteq> Tofu" "cr_passphrase (list_request args target) = Refuse" for target
    by (simp_all add: list_request_def)
  let ?E = "E\<lparr>ce_io := (ce_io E)\<lparr>prompt_password := ask\<rparr>\<rparr>"
  have same: "list_remote ?E vars R X args w = list_remote E vars R X args w"
    unfolding list_remote_def by (simp only: connect_refuses_prompt [OF req(2)])
  obtain w' r where run: "list_remote E vars R X args w = (w', r)" by fastforce
  have c: "files w1 = files w \<and> past w1 = past w" if "connect E (list_request args t) w = (w1, x)" for t w1 x
    using connect_untouched [OF req(1) [of t], of E] that unfolding untouched_def by (metis fst_conv)
  have quiet: "files w' = files w \<and> past w' = past w"
    using run by (auto simp: list_remote_def Let_def split: option.splits sum.splits prod.splits dest: c)
  have listing: "\<exists>target path rest. split_remote (ra_word args) = Some (target, path) \<and>
      arrived (ls_reads X (Session (list_session vars path))) = l @ rest \<and> (rest = [] \<or> l = [] \<or> last l = 10)"
    if "r = Some (Inr l)" for l
  proof -
    from run that obtain target path where w: "split_remote (ra_word args) = Some (target, path)"
      "list_loop [] (ls_reads X (Session (list_session vars path))) = Some (Inr l)"
      by (auto simp: list_remote_def Let_def split: option.splits sum.splits prod.splits)
    then show ?thesis using list_loop_listing [OF w(2)] by auto
  qed
  show ?thesis
  proof (cases "\<exists>l. r = Some (Inr l) \<and> in_time")
    case True
    then show ?thesis using run same quiet listing by (auto simp: run_remote_def)
  next
    case False
    then have "run_remote E vars R X in_time wr args w = (w', [], ExitOne)"
      using run by (auto simp: run_remote_def split: option.split sum.split)
    then show ?thesis using quiet same by (simp add: run_remote_def)
  qed
qed

end
