(* ===== verification/Spec2Isabelle.thy ===== *)
theory Spec2Isabelle
  imports Runtime Nwsock Complete
begin

text \<open>
  \<^bold>\<open>hush: remote shell, port forwarding and file copy over QUIC\<close>

  \<^bold>\<open>The program.\<close>  A client (\<open>hush\<close>) connects to a server (\<open>hush-server\<close>); both use the library
  \<open>hush-core\<close>.  The TLS handshake of the QUIC connection authenticates both sides: the client pins the
  server's certificate in its known hosts, and the client's certificate carries an SSH public key and a
  user name that the server checks against that user's authorized keys.  Every request is a stream that
  starts with a header frame: a session, a forward, a file copy, a side message.  The server runs a
  session as the user, the client shows it in its terminal; forwards bridge TCP connections and streams;
  a copy is a tar archive on a stream, unpacked under limits.  Below are the sockets and, on the client,
  the choice of a path through the network.

  \<^bold>\<open>Conventions.\<close>  A definition has the name of the function it translates where that is possible.
  Structures are records, enumerations datatypes, machine integers words of their width (\<open>u16\<close>, \<open>u64\<close>),
  lengths and counters that cannot overflow in memory \<open>nat\<close>.  Byte strings are byte lists, text and
  paths are strings of UTF-8 characters in \<open>char\<close>.  An error is the left side of a sum: \<open>Bail\<close> for
  \<open>bail!\<close>, \<open>Io\<close> for \<open>std::io::Error\<close>, \<open>Foreign\<close> for an error of another crate, \<open>Ctx\<close> for
  \<open>context\<close>.  The question mark is \<open>and_then\<close> (\<open>andthen\<close>, \<open>os_bind\<close> with a state).  What waits, reads
  or is scheduled takes the list of what it meets, and its result is \<open>None\<close> while it waits for more.
  Other crates, the kernel and the network are arguments: records of functions such as \<open>ssh_lib\<close>,
  \<open>toml_lib\<close>, \<open>kernel\<close>, \<open>copy_ops\<close>.  The laws a theorem needs of them are named hypotheses, met by a
  concrete instance in its witness.

  \<^bold>\<open>Foundations.\<close>
  \<^item> \<open>Prelude\<close>: words, results, the string functions of the standard library, UTF-8.
  \<^item> \<open>Paths\<close>: \<open>std::path\<close> on strings and \<open>paths.rs\<close>.  \<open>Ip\<close>: addresses as they are read and printed.
  \<^item> \<open>Permits\<close>: the contract of the server's semaphores as the locales \<open>step_invariant\<close> and
    \<open>permit_pool\<close>, interpreted in \<open>Runtime\<close> (connections), \<open>Forwarding\<close> (listeners of remote forwards)
    and \<open>ServerSession\<close> (streams of a session).
  \<^item> \<open>Files\<close>: a file system in which every call may fail and every moment is recorded, and the private
    files of \<open>tls.rs\<close> on it.  \<open>Os\<close>: \<open>os.rs\<close> of the library over a kernel.

  \<^bold>\<open>The library.\<close>
  \<^item> \<open>Protocol\<close> (\<open>protocol.rs\<close>, \<open>priority.rs\<close>): messages and frames.  The locale \<open>codec\<close> is the contract
    of a framing; it is interpreted for the frames here, for the agent's strings and packets in \<open>Auth\<close> and
    for the frames of the copy worker in \<open>CopyServer\<close>.  Frames written are the frames read.
  \<^item> \<open>Config\<close> (\<open>config.rs\<close>): server configuration, ssh_config.  Host patterns decide what they say, and
    the first value of an option wins.
  \<^item> \<open>Auth\<close> (\<open>auth.rs\<close>): identities, the agent, certificates, authorized keys.  Who is authorized,
    exactly; what is encoded is what is decoded.
  \<^item> \<open>Tls\<close> (\<open>tls.rs\<close>, \<open>endpoint.rs\<close>): known hosts shared by concurrent clients (\<open>kh_step\<close>), the
    server's certificate, the stateless reset key.  A pin holds; an identity stays.
  \<^item> \<open>Server\<close> (\<open>server.rs\<close>): a connection from its certificate to its streams.  Nothing is served to a
    peer that is not authorized, and everything runs as its user.
  \<^item> \<open>ServerSession\<close> (\<open>session.rs\<close>): command, environment, child, streams and exit status of a session.
    A session of another user gets no environment that root would act on; the child is always reaped.
  \<^item> \<open>Forwarding\<close> (\<open>net.rs\<close>, \<open>forwarding.rs\<close>): the bridge of a forward and the listeners.
  \<^item> \<open>Agent\<close> (\<open>agent.rs\<close>): session binding, host signatures, the session's socket and its listener.
  \<^item> \<open>Filecopy\<close>, \<open>CopyServer\<close> (\<open>filecopy.rs\<close>): plans, budgets, archives; the handlers and the
    worker process, which is shown to refine the direct handler.
  \<^item> \<open>Fastsock\<close> (\<open>fastsock.rs\<close>): the private sockets of adopted peers.  They are invisible to QUIC.
  \<^item> \<open>Nwudp\<close> (\<open>csrc/nwudp.c\<close>) and \<open>Nwsock\<close> (\<open>nwsock.rs\<close>): the socket on macOS.  The serial dispatch
    queue and the other threads take turns at every lock (\<open>nw_step\<close>); the invariants hold for every
    sequence of events: routes lead to live flows, guarded flows are protected, counts are exact, no
    wake-up is lost.

  \<^bold>\<open>The server program.\<close>  \<open>Runtime\<close> (\<open>runtime.rs\<close>, \<open>cli.rs\<close>, \<open>main.rs\<close>): configuration, start, accept
  loop.  Connections stay within their limit; a shared key file of a root server needs a list of users.

  \<^bold>\<open>The client program.\<close>
  \<^item> \<open>Cli\<close> (\<open>cli.rs\<close>): commands, targets, forwards.  \<open>Connect\<close> (\<open>net.rs\<close>): the race for an address; all
    are tried.  \<open>Client\<close> (\<open>main.rs\<close>): connecting and serving the streams the server opens, which reach only
    what the user asked for.
  \<^item> \<open>Terminal\<close> and \<open>ClientSession\<close> (\<open>session.rs\<close>, \<open>os.rs\<close>): escapes, alternate screen, raw mode,
    pumps and the loops of a session.  However it ends, the terminal is as it was.
  \<^item> \<open>Copy\<close> (\<open>cp.rs\<close>): upload, download and relay; an upload is composed with the server's handler and
    succeeds exactly when the server has unpacked the archive.
  \<^item> \<open>Complete\<close> (\<open>complete.rs\<close>): completion of remote paths, which changes nothing on this side.
  \<^item> \<open>Roam\<close> (\<open>roam.rs\<close>, \<open>netmon.rs\<close>, and the counters of \<open>quinn-proto\<close> it reads): when the client
    leaves a path.  A dead path is left in bounded time, and hops are spaced.

  \<^bold>\<open>Loops and bounds.\<close>  Loops that consume a list are structural.  Loops whose end needs an argument are
  \<open>partial_function (option)\<close> and shown to return: \<open>host_pattern_loop\<close> (for every pattern and host),
  \<open>append_loop\<close> (for every finite directory tree), \<open>passwd_loop\<close> (the buffer only grows up to its limit).
  Constants of the source are kept: 32 attempts of an atomic write, 64 pending datagrams of a flow, the
  limits of frames, answers, inbox and listing.  Following symbolic links stops after 40, as the kernel
  does.  The runs of the macOS socket have fewer than \<open>2 ^ 64\<close> events, so that flow numbers do not
  repeat.  Roaming counts time in
  nanoseconds and the transport settings in milliseconds, both in \<open>nat\<close>; the shim's clock is a
  64-bit word of nanoseconds that wraps.

  \<^bold>\<open>Not modelled.\<close>
  \<^item> Logging (\<open>logging.rs\<close> of both programs): it only formats text.
  \<^item> The vendored QUIC stack apart from its frame counters, and all other crates: they are arguments.
    Handshake signatures are checked by rustls.
  \<^item> In \<open>filecopy.rs\<close> the wrappers that fix arguments or count bytes for a progress bar, the construction of
    the zstd and tar streams, and starting the worker process, which is its outcome; in \<open>cp.rs\<close> the display
    of progress.
  \<^item> On macOS, Network.framework itself, the path handler of a client's flow, and the moments inside
    \<open>nwudp_connect\<close>.
  \<^item> Accessors that only return a field or ask the kernel, \<open>Debug\<close> output, tests, the build script, shell
    completion scripts and installation scripts.
  \<^item> Cancellation of tasks between two awaits, and the scheduling of tasks where no theorem says that every
    order is covered.
\<close>

end
